(* ===== verification/Prelude.thy ===== *)
theory Prelude
  imports Main "HOL-Library.Word" "HOL-Library.Char_ord" "HOL-Library.List_Lexorder"
    "HOL-Library.Multiset"
begin

section \<open>Prelude: Go values, errors and containers\<close>

text \<open>
  The types and generic lemmas every component shares.

  \<^item> Go's \<open>uint64\<close> is a 64-bit word, \<open>byte\<close> an 8-bit word; \<open>int32\<close> and \<open>int64\<close> values are
    \<open>int\<close>, since the code only compares and converts them.
  \<^item> A Go string is a sequence of bytes, and so is a \<open>[]byte\<close>: both are \<open>char list\<close> (a HOL
    \<open>char\<close> is one byte), so the conversions between them are the identity. The code tests
    byte slices with \<open>len\<close> and \<open>bytes.Equal\<close> only, which do not tell \<open>nil\<close> from empty.
  \<^item> Errors and formatted strings are kept symbolic: the template and its arguments, not the
    rendered text.
  \<^item> A Go \<open>(T, error)\<close> result is \<open>'a res\<close>. Code that can panic returns \<open>'a result\<close>.
  \<^item> A Go map is a HOL map. Its iteration order is unspecified, so code that ranges over a map
    takes the list of keys it visits as an argument; \<open>enumerates\<close> says which lists are possible.
\<close>

type_synonym u64 = "64 word"
type_synonym u8 = "8 word"
type_synonym int32 = int
type_synonym int64 = int
type_synonym bytes = string

datatype fmt_arg = FInt int | FStr string | FQuo string | FErr gomsg
and gomsg = Msg string "fmt_arg list"

type_synonym goerror = gomsg

abbreviation emptyMsg :: gomsg where
  "emptyMsg \<equiv> Msg '''' []"

type_synonym 'a res = "goerror + 'a"

datatype 'a result = Ok 'a | Err goerror | Panic

definition of_res :: "'a res \<Rightarrow> 'a result" where
  "of_res r = (case r of Inl e \<Rightarrow> Err e | Inr x \<Rightarrow> Ok x)"

definition enumerates :: "'k list \<Rightarrow> ('k \<rightharpoonup> 'v) \<Rightarrow> bool" where
  "enumerates ks m \<longleftrightarrow> distinct ks \<and> set ks = dom m"

subsection \<open>Collections of facts\<close>

named_theorems go_simps \<open>rewrite rules for the Go library functions the code calls\<close>
named_theorems inv_intros \<open>preservation of the invariants, one rule per operation\<close>

lemma of_res_simps [simp]:
  "of_res (Inl e) = Err e"
  "of_res (Inr x) = Ok x"
  by (simp_all add: of_res_def)

lemma of_res_eq_Ok [simp]: "of_res r = Ok x \<longleftrightarrow> r = Inr x"
  by (cases r) simp_all

subsection \<open>Enumerations of a map\<close>

lemma enumerates_empty [simp]: "enumerates [] Map.empty"
  by (simp add: enumerates_def)

lemma enumerates_mset:
  assumes "enumerates ks m" and "enumerates ks' m"
  shows "mset ks = mset ks'"
  using assms by (simp add: enumerates_def flip: set_eq_iff_mset_eq_distinct)

lemma enumerates_distinct: "enumerates ks m \<Longrightarrow> distinct ks"
  by (simp add: enumerates_def)

lemma enumerates_mem: "enumerates ks m \<Longrightarrow> k \<in> set ks \<longleftrightarrow> m k \<noteq> None"
  by (auto simp: enumerates_def)

subsection \<open>Sorting by a key\<close>

text \<open>
  \<open>sort.Slice\<close> and \<open>slices.SortFunc\<close> are modelled by \<^const>\<open>sort_key\<close>. The Go sorts are not
  stable, so elements with equal keys may come out in another order; where the keys are distinct
  there is only one sorted order, and that is the case every theorem about an order is stated for.
\<close>

lemma filter_key_distinct:
  assumes "distinct (map f xs)" and "x \<in> set xs"
  shows "filter (\<lambda>y. f x = f y) xs = [x]"
  using assms
proof (induction xs)
  case Nil
  then show ?case by simp
next
  case (Cons a xs)
  show ?case
  proof (cases "x = a")
    case True
    with Cons.prems(1) have "filter (\<lambda>y. f x = f y) xs = []"
      by (force simp: filter_empty_conv)
    with True show ?thesis by simp
  next
    case False
    with Cons.prems have "x \<in> set xs" by simp
    moreover from this Cons.prems(1) have "f x \<noteq> f a"
      by (metis distinct.simps(2) image_eqI list.map(2) set_map)
    ultimately show ?thesis using Cons by simp
  qed
qed

lemma sort_key_perm_unique:
  assumes "mset xs = mset ys" and "distinct (map f xs)"
  shows "sort_key f xs = sort_key f ys"
proof (rule properties_for_sort_key)
  from assms(1) show "mset (sort_key f ys) = mset xs" by simp
  have dy: "distinct (map f (sort_key f ys))"
    using assms by (metis mset_map mset_sort mset_eq_imp_distinct_iff)
  fix k assume k: "k \<in> set (sort_key f ys)"
  with assms(1) have "k \<in> set xs" by (metis mset_eq_setD set_sort)
  then show "filter (\<lambda>x. f k = f x) (sort_key f ys) = filter (\<lambda>x. f k = f x) xs"
    using filter_key_distinct [OF dy k] filter_key_distinct [OF assms(2)] by metis
qed (simp add: sorted_sort_key)

subsection \<open>Joined keys\<close>

text \<open>
  Two components index a Go map by a namespace and a key joined with a separator byte. The
  joined string determines both parts when the namespace does not contain the separator.
\<close>

lemma joined_key_inj:
  assumes "ns @ [c] @ k = ns' @ [c] @ k'" and "c \<notin> set ns" and "c \<notin> set ns'"
  shows "ns = ns' \<and> k = k'"
  using assms
proof (induction ns arbitrary: ns')
  case Nil
  then show ?case by (cases ns') auto
next
  case (Cons a ns)
  then show ?case by (cases ns') auto
qed

subsection \<open>Loops that return early\<close>

text \<open>
  A Go \<open>range\<close> loop whose body updates a state or returns an error: the loop stops at the first
  error. Nested loops are one loop over the concatenation, and a \<open>continue\<close> is a filter.
\<close>

fun for_each :: "('a \<Rightarrow> 's \<Rightarrow> 's res) \<Rightarrow> 'a list \<Rightarrow> 's \<Rightarrow> 's res" where
  "for_each f [] s = Inr s"
| "for_each f (x # xs) s = (case f x s of Inl e \<Rightarrow> Inl e | Inr s' \<Rightarrow> for_each f xs s')"

lemma for_each_append:
  "for_each f (xs @ ys) s = (case for_each f xs s of Inl e \<Rightarrow> Inl e | Inr s' \<Rightarrow> for_each f ys s')"
  by (induction xs arbitrary: s) (auto split: sum.splits)

lemma for_each_concat:
  "for_each (\<lambda>x. for_each f (g x)) xs s = for_each f (concat (map g xs)) s"
  by (induction xs arbitrary: s) (auto simp: for_each_append split: sum.splits)

lemma for_each_map: "for_each f (map g xs) = for_each (\<lambda>x. f (g x)) xs"
proof
  show "for_each f (map g xs) s = for_each (\<lambda>x. f (g x)) xs s" for s
    by (induction xs arbitrary: s) (auto split: sum.splits)
qed

lemma for_each_filter:
  "for_each (\<lambda>x s. if P x then f x s else Inr s) xs s = for_each f (filter P xs) s"
  by (induction xs arbitrary: s) (auto split: sum.splits)

lemma for_each_invariant:
  assumes "for_each f xs s = Inr s'" and "P s"
    and "\<And>x t t'. x \<in> set xs \<Longrightarrow> P t \<Longrightarrow> f x t = Inr t' \<Longrightarrow> P t'"
  shows "P s'"
  using assms
proof (induction xs arbitrary: s)
  case (Cons x xs)
  then obtain t where t: "f x s = Inr t" "for_each f xs t = Inr s'"
    by (auto split: sum.splits)
  show ?case
  proof (rule Cons.IH [OF t(2)])
    show "P t" using Cons.prems(2,3) t(1) by (meson list.set_intros(1))
  qed (use Cons.prems(3) in auto)
qed simp

end
