(* ===== verification/Block_Types.thy ===== *)
theory Block_Types
  imports Prelude
begin

section \<open>Parsed blocks (blocks/types.go)\<close>

text \<open>
  The data every component exchanges. Each Go struct is a record with the source's fields, in the
  source's order; a pointer that may be nil is an option.
\<close>

subsection \<open>Status\<close>

text \<open>
  \<open>blocks.Status\<close> is an open \<open>int32\<close>: the constants name eight of its values.
\<close>

type_synonym Status = int32

abbreviation (input) StatusUnknown :: Status where
  "StatusUnknown \<equiv> 0"

abbreviation (input) StatusCommitted :: Status where
  "StatusCommitted \<equiv> 1"

abbreviation (input) StatusInvalidSignature :: Status where
  "StatusInvalidSignature \<equiv> 2"

abbreviation (input) StatusMVCCConflict :: Status where
  "StatusMVCCConflict \<equiv> 3"

abbreviation (input) StatusDuplicateTxID :: Status where
  "StatusDuplicateTxID \<equiv> 4"

abbreviation (input) StatusMalformed :: Status where
  "StatusMalformed \<equiv> 5"

abbreviation (input) StatusUnrecognized :: Status where
  "StatusUnrecognized \<equiv> 6"

abbreviation (input) StatusEndorsementPolicyFailure :: Status where
  "StatusEndorsementPolicyFailure \<equiv> 10"

definition status_IsFinal :: "Status \<Rightarrow> bool" where
  "status_IsFinal s \<longleftrightarrow> s \<noteq> StatusUnknown"

definition status_Valid :: "Status \<Rightarrow> bool" where
  "status_Valid s \<longleftrightarrow> s = StatusCommitted"

subsection \<open>Read/write sets\<close>

record Version =
  v_BlockNum :: u64
  v_TxNum :: u64

record KVRead =
  r_Key :: string
  r_Version :: "Version option"

record KVWrite =
  w_Key :: string
  w_IsDelete :: bool
  w_Value :: bytes

record ReadWriteSet =
  Reads :: "KVRead list"
  Writes :: "KVWrite list"

record WriteRecord =
  wr_Namespace :: string
  wr_Key :: string
  wr_BlockNum :: u64
  wr_TxNum :: u64
  wr_Version :: u64
  wr_Value :: bytes
  wr_IsDelete :: bool
  wr_TxID :: string

record NsReadWriteSet =
  ns_Namespace :: string
  ns_RWS :: ReadWriteSet

subsection \<open>Transactions and blocks\<close>

record ConfigTransaction =
  ct_Sequence :: u64
  ct_Config :: bytes

record Transaction =
  tx_ID :: string
  tx_Number :: int64
  tx_InputArgs :: "bytes list"
  tx_Status :: Status
  tx_RawCode :: int32
  tx_Reason :: gomsg
  tx_Event :: bytes
  tx_EventName :: string
  tx_Payload :: bytes
  tx_NsRWS :: "NsReadWriteSet list"

record Block =
  b_Number :: u64
  b_Hash :: bytes
  b_ParentHash :: bytes
  b_Timestamp :: int64
  b_Transactions :: "Transaction list"
  b_ConfigTransaction :: "ConfigTransaction option"

definition zero_Transaction :: Transaction where
  "zero_Transaction = \<lparr>tx_ID = '''', tx_Number = 0, tx_InputArgs = [], tx_Status = StatusUnknown,
     tx_RawCode = 0, tx_Reason = emptyMsg, tx_Event = '''', tx_EventName = '''', tx_Payload = '''',
     tx_NsRWS = []\<rparr>"

definition zero_Block :: Block where
  "zero_Block = \<lparr>b_Number = 0, b_Hash = '''', b_ParentHash = '''', b_Timestamp = 0,
     b_Transactions = [], b_ConfigTransaction = None\<rparr>"

definition tx_Valid :: "Transaction \<Rightarrow> bool" where
  "tx_Valid t \<longleftrightarrow> status_Valid (tx_Status t)"

definition SetStatus :: "Status \<Rightarrow> int32 \<Rightarrow> gomsg \<Rightarrow> Transaction \<Rightarrow> Transaction" where
  "SetStatus status rawCode reason t =
     t\<lparr>tx_Status := status, tx_RawCode := rawCode, tx_Reason := reason\<rparr>"

lemma SetStatus_simps [simp]:
  "tx_Status (SetStatus s c r t) = s"
  "tx_RawCode (SetStatus s c r t) = c"
  "tx_Reason (SetStatus s c r t) = r"
  "tx_ID (SetStatus s c r t) = tx_ID t"
  "tx_Number (SetStatus s c r t) = tx_Number t"
  "tx_NsRWS (SetStatus s c r t) = tx_NsRWS t"
  by (simp_all add: SetStatus_def)

lemma tx_Valid_iff: "tx_Valid t \<longleftrightarrow> tx_Status t = StatusCommitted"
  by (simp add: tx_Valid_def status_Valid_def)

subsection \<open>Footprints\<close>

text \<open>
  The namespaced keys a transaction reads, with the version it expects, and the ones it writes:
  vocabulary for the specifications, not code.
\<close>

definition reads_of :: "Transaction \<Rightarrow> (string \<times> KVRead) list" where
  "reads_of t = concat (map (\<lambda>n. map (Pair (ns_Namespace n)) (Reads (ns_RWS n))) (tx_NsRWS t))"

definition writes_of :: "Transaction \<Rightarrow> (string \<times> KVWrite) list" where
  "writes_of t = concat (map (\<lambda>n. map (Pair (ns_Namespace n)) (Writes (ns_RWS n))) (tx_NsRWS t))"

definition written_keys :: "Transaction \<Rightarrow> (string \<times> string) set" where
  "written_keys t = (\<lambda>(ns, w). (ns, w_Key w)) ` set (writes_of t)"

lemma mem_written_keys:
  "(ns, k) \<in> written_keys t \<longleftrightarrow>
     (\<exists>n \<in> set (tx_NsRWS t). ns_Namespace n = ns \<and> (\<exists>w \<in> set (Writes (ns_RWS n)). w_Key w = k))"
  by (force simp: written_keys_def writes_of_def)

lemma footprint_SetStatus [simp]:
  "reads_of (SetStatus s c r t) = reads_of t"
  "writes_of (SetStatus s c r t) = writes_of t"
  "written_keys (SetStatus s c r t) = written_keys t"
  by (simp_all add: reads_of_def writes_of_def written_keys_def)

end
