(* ===== verification/Status_Codes.thy ===== *)
theory Status_Codes
  imports Block_Types
begin

section \<open>Ledger codes and statuses (blocks/status.go, blocks/fabric, blocks/fabricx)\<close>

text \<open>
  The mapping between the ledgers' own status codes and \<open>blocks.Status\<close>, and its inverse
  \<open>CodesByStatus\<close>. The enumerations \<open>peer.TxValidationCode\<close> and \<open>committerpb.Status\<close> are
  generated in other modules: their constants, their \<open>_name\<close> map and their \<open>String\<close> method are
  the fields of a record the definitions take as an argument.
\<close>

subsection \<open>Labels\<close>

definition status_String :: "Status \<Rightarrow> string" where
  "status_String s =
     (if s = StatusCommitted then ''COMMITTED''
      else if s = StatusInvalidSignature then ''INVALID_SIGNATURE''
      else if s = StatusMVCCConflict then ''MVCC_CONFLICT''
      else if s = StatusDuplicateTxID then ''DUPLICATE_TX_ID''
      else if s = StatusMalformed then ''MALFORMED''
      else if s = StatusUnrecognized then ''UNRECOGNIZED''
      else if s = StatusEndorsementPolicyFailure then ''ENDORSEMENT_POLICY_FAILURE''
      else ''UNKNOWN'')"

subsection \<open>The generic inverse\<close>

text \<open>
  \<open>CodesByStatus\<close> collects the keys of \<open>names\<close> (in the map's iteration order \<open>codes\<close>), sorts
  them and keeps the first code that maps to each status.
\<close>

fun codes_loop :: "(int32 \<Rightarrow> Status \<times> int32 \<times> gomsg) \<Rightarrow> int32 list \<Rightarrow> (Status \<rightharpoonup> int32)
    \<Rightarrow> (Status \<rightharpoonup> int32)" where
  "codes_loop fn [] result = result"
| "codes_loop fn (code # codes) result =
     (case fn code of (status, rawCode, _) \<Rightarrow>
        codes_loop fn codes
          (if result status = None then result(status \<mapsto> rawCode) else result))"

definition CodesByStatus :: "int32 list \<Rightarrow> (int32 \<Rightarrow> Status \<times> int32 \<times> gomsg) \<Rightarrow> (Status \<rightharpoonup> int32)" where
  "CodesByStatus codes fn = codes_loop fn (sort codes) Map.empty"

subsection \<open>Classic Fabric\<close>

record tx_validation_codes =
  VALID :: int32
  BAD_CREATOR_SIGNATURE :: int32
  DUPLICATE_TXID :: int32
  MVCC_READ_CONFLICT :: int32
  PHANTOM_READ_CONFLICT :: int32
  ENDORSEMENT_POLICY_FAILURE :: int32
  NOT_VALIDATED :: int32
  TxValidationCode_name :: "int32 \<rightharpoonup> string"
  TxValidationCode_String :: "int32 \<Rightarrow> string"

definition StatusFromValidationCode :: "tx_validation_codes \<Rightarrow> int32 \<Rightarrow> Status \<times> int32 \<times> gomsg" where
  "StatusFromValidationCode pc code =
     ((if code = VALID pc then StatusCommitted
       else if code = BAD_CREATOR_SIGNATURE pc then StatusInvalidSignature
       else if code = DUPLICATE_TXID pc then StatusDuplicateTxID
       else if code = MVCC_READ_CONFLICT pc \<or> code = PHANTOM_READ_CONFLICT pc then StatusMVCCConflict
       else if code = ENDORSEMENT_POLICY_FAILURE pc then StatusEndorsementPolicyFailure
       else if code = NOT_VALIDATED pc then StatusUnknown
       else StatusMalformed),
      code, Msg (TxValidationCode_String pc code) [])"

definition fabric_CodesByStatus :: "tx_validation_codes \<Rightarrow> int32 list \<Rightarrow> (Status \<rightharpoonup> int32)" where
  "fabric_CodesByStatus pc codes = CodesByStatus codes (StatusFromValidationCode pc)"

subsection \<open>Fabric-X\<close>

record committer_codes =
  COMMITTED :: int32
  STATUS_UNSPECIFIED :: int32
  ABORTED_SIGNATURE_INVALID :: int32
  ABORTED_MVCC_CONFLICT :: int32
  REJECTED_DUPLICATE_TX_ID :: int32
  Status_name :: "int32 \<rightharpoonup> string"
  Status_String :: "int32 \<Rightarrow> string"

definition StatusFromCommitterStatus :: "committer_codes \<Rightarrow> int32 \<Rightarrow> Status \<times> int32 \<times> gomsg" where
  "StatusFromCommitterStatus cc s =
     ((if s = COMMITTED cc then StatusCommitted
       else if s = STATUS_UNSPECIFIED cc then StatusUnknown
       else if s = ABORTED_SIGNATURE_INVALID cc then StatusInvalidSignature
       else if s = ABORTED_MVCC_CONFLICT cc then StatusMVCCConflict
       else if s = REJECTED_DUPLICATE_TX_ID cc then StatusDuplicateTxID
       else if s \<ge> 100 then StatusMalformed
       else StatusUnrecognized),
      s, Msg (Status_String cc s) [])"

definition fabricx_CodesByStatus :: "committer_codes \<Rightarrow> int32 list \<Rightarrow> (Status \<rightharpoonup> int32)" where
  "fabricx_CodesByStatus cc codes = CodesByStatus codes (StatusFromCommitterStatus cc)"

text \<open>
  The constants that one \<^theory_text>\<open>switch\<close> of the source lists as cases are pairwise distinct (Go
  refuses duplicate cases), and each is a key of the enumeration's \<open>_name\<close> map.
\<close>

definition tx_validation_codes_ok :: "tx_validation_codes \<Rightarrow> bool" where
  "tx_validation_codes_ok pc \<longleftrightarrow>
     distinct [NOT_VALIDATED pc, ENDORSEMENT_POLICY_FAILURE pc, PHANTOM_READ_CONFLICT pc,
       MVCC_READ_CONFLICT pc, DUPLICATE_TXID pc, BAD_CREATOR_SIGNATURE pc, VALID pc] \<and>
     {VALID pc, MVCC_READ_CONFLICT pc, NOT_VALIDATED pc} \<subseteq> dom (TxValidationCode_name pc)"

definition committer_codes_ok :: "committer_codes \<Rightarrow> bool" where
  "committer_codes_ok cc \<longleftrightarrow>
     distinct [REJECTED_DUPLICATE_TX_ID cc, ABORTED_MVCC_CONFLICT cc,
       ABORTED_SIGNATURE_INVALID cc, STATUS_UNSPECIFIED cc, COMMITTED cc] \<and>
     {COMMITTED cc, ABORTED_MVCC_CONFLICT cc, STATUS_UNSPECIFIED cc} \<subseteq> dom (Status_name cc)"

subsection \<open>What the inverse computes\<close>

lemma codes_loop_find:
  "codes_loop fn codes result s =
     (case result s of Some c \<Rightarrow> Some c
      | None \<Rightarrow> map_option (\<lambda>code. fst (snd (fn code))) (find (\<lambda>code. fst (fn code) = s) codes))"
  by (induction codes arbitrary: result) (auto split: option.splits prod.splits)

lemma find_Some_mem: "find P xs = Some x \<Longrightarrow> x \<in> set xs \<and> P x"
  by (induction xs) (auto split: if_splits)

lemma find_sorted_least:
  "sorted xs \<Longrightarrow> find P xs = Some x \<Longrightarrow> y \<in> set xs \<Longrightarrow> P y \<Longrightarrow> x \<le> y"
  by (induction xs) (auto split: if_splits)

lemma find_sort_Min:
  assumes "find P (sort xs) = Some x"
  shows "x = Min {y \<in> set xs. P y}"
proof (rule Min_eqI [symmetric])
  show "x \<le> y" if "y \<in> {y \<in> set xs. P y}" for y
    using find_sorted_least [OF _ assms, of y] that by simp
  show "x \<in> {y \<in> set xs. P y}"
    using find_Some_mem [OF assms] by simp
qed simp

lemma CodesByStatus_None:
  "CodesByStatus codes fn s = None \<longleftrightarrow> (\<forall>c \<in> set codes. fst (fn c) \<noteq> s)"
  by (auto simp: CodesByStatus_def codes_loop_find find_None_iff)

lemma CodesByStatus_Some:
  assumes "CodesByStatus codes fn s = Some r"
  shows "\<exists>c \<in> set codes. fst (fn c) = s \<and> r = fst (snd (fn c)) \<and>
           c = Min {c' \<in> set codes. fst (fn c') = s}"
proof -
  from assms obtain c where f: "find (\<lambda>code. fst (fn code) = s) (sort codes) = Some c"
    and r: "r = fst (snd (fn c))"
    by (auto simp: CodesByStatus_def codes_loop_find)
  from find_Some_mem [OF f] have "c \<in> set codes" "fst (fn c) = s"
    by auto
  with find_sort_Min [OF f] r show ?thesis by auto
qed

text \<open>
  \<open>CodesByStatus\<close> returns, for each status some named code maps to, the raw code of the
  smallest such code, and nothing for the other statuses. The result does not depend on the
  order in which the \<open>_name\<close> map is ranged over.
\<close>

theorem CodesByStatus_smallest:
  assumes "enumerates codes names"
  shows "CodesByStatus codes fn s =
    (if \<exists>c \<in> dom names. fst (fn c) = s
     then Some (fst (snd (fn (Min {c \<in> dom names. fst (fn c) = s})))) else None)"
proof (cases "CodesByStatus codes fn s")
  case None
  with assms show ?thesis by (auto simp: CodesByStatus_None enumerates_def)
next
  case (Some r)
  with assms CodesByStatus_Some [OF Some] show ?thesis by (auto simp: enumerates_def)
qed

theorem CodesByStatus_smallest_witness:
  "CodesByStatus [7, 2, 5] (\<lambda>c. (c mod 2, c, emptyMsg)) 1 = Some 5 \<and>
   CodesByStatus [7, 2, 5] (\<lambda>c. (c mod 2, c, emptyMsg)) 3 = None"
proof -
  let ?names = "[7 \<mapsto> ''a'', 2 \<mapsto> ''b'', 5 \<mapsto> ''c''] :: int32 \<rightharpoonup> string"
  let ?fn = "\<lambda>c::int32. (c mod 2 :: Status, c, emptyMsg)"
  have en: "enumerates [7, 2, 5] ?names" by (auto simp: enumerates_def)
  have "{c \<in> dom ?names. fst (?fn c) = 1} = {5, 7}" by auto
  moreover from this have "\<exists>c \<in> dom ?names. fst (?fn c) = 1" by blast
  ultimately have "CodesByStatus [7, 2, 5] ?fn 1 = Some 5"
    using CodesByStatus_smallest [OF en, of ?fn 1] by simp
  moreover have "\<not> (\<exists>c \<in> dom ?names. fst (?fn c) = 3)" by auto
  then have "CodesByStatus [7, 2, 5] ?fn 3 = None"
    using CodesByStatus_smallest [OF en, of ?fn 3] by simp
  ultimately show ?thesis by blast
qed

subsection \<open>Round trips\<close>

lemma CodesByStatus_roundtrip:
  assumes "CodesByStatus codes fn s = Some r" and "\<And>c. fst (snd (fn c)) = c"
  shows "fst (fn r) = s"
  using CodesByStatus_Some [OF assms(1)] assms(2) by auto

lemma StatusFrom_rawCode [simp]:
  "fst (snd (StatusFromValidationCode pc c)) = c"
  "fst (snd (StatusFromCommitterStatus cc c)) = c"
  by (simp_all add: StatusFromValidationCode_def StatusFromCommitterStatus_def)

lemma CodesByStatus_defined:
  assumes "enumerates codes names" and "c \<in> dom names" and "fst (fn c) = s"
  shows "\<exists>r. CodesByStatus codes fn s = Some r"
proof -
  from assms have "CodesByStatus codes fn s \<noteq> None"
    unfolding CodesByStatus_None enumerates_def by blast
  then show ?thesis by blast
qed

lemma StatusFromValidationCode_named:
  assumes "tx_validation_codes_ok pc"
  shows "fst (StatusFromValidationCode pc (VALID pc)) = StatusCommitted"
    "fst (StatusFromValidationCode pc (MVCC_READ_CONFLICT pc)) = StatusMVCCConflict"
    "fst (StatusFromValidationCode pc (NOT_VALIDATED pc)) = StatusUnknown"
  using assms by (simp_all add: tx_validation_codes_ok_def StatusFromValidationCode_def)

lemma StatusFromCommitterStatus_named:
  assumes "committer_codes_ok cc"
  shows "fst (StatusFromCommitterStatus cc (COMMITTED cc)) = StatusCommitted"
    "fst (StatusFromCommitterStatus cc (ABORTED_MVCC_CONFLICT cc)) = StatusMVCCConflict"
    "fst (StatusFromCommitterStatus cc (STATUS_UNSPECIFIED cc)) = StatusUnknown"
  using assms by (simp_all add: committer_codes_ok_def StatusFromCommitterStatus_def)

lemma fabric_codes_defined:
  assumes ok: "tx_validation_codes_ok pc" and en: "enumerates codes (TxValidationCode_name pc)"
    and s: "s \<in> {StatusCommitted, StatusMVCCConflict, StatusUnknown}"
  shows "\<exists>c. fabric_CodesByStatus pc codes s = Some c"
proof -
  from ok have dom: "VALID pc \<in> dom (TxValidationCode_name pc)"
    "MVCC_READ_CONFLICT pc \<in> dom (TxValidationCode_name pc)"
    "NOT_VALIDATED pc \<in> dom (TxValidationCode_name pc)"
    unfolding tx_validation_codes_ok_def by blast+
  from dom [THEN CodesByStatus_defined [OF en]] StatusFromValidationCode_named [OF ok] s
  show ?thesis unfolding fabric_CodesByStatus_def by blast
qed

lemma fabricx_codes_defined:
  assumes ok: "committer_codes_ok cc" and en: "enumerates codes (Status_name cc)"
    and s: "s \<in> {StatusCommitted, StatusMVCCConflict, StatusUnknown}"
  shows "\<exists>c. fabricx_CodesByStatus cc codes s = Some c"
proof -
  from ok have dom: "COMMITTED cc \<in> dom (Status_name cc)"
    "ABORTED_MVCC_CONFLICT cc \<in> dom (Status_name cc)"
    "STATUS_UNSPECIFIED cc \<in> dom (Status_name cc)"
    unfolding committer_codes_ok_def by blast+
  from dom [THEN CodesByStatus_defined [OF en]] StatusFromCommitterStatus_named [OF ok] s
  show ?thesis unfolding fabricx_CodesByStatus_def by blast
qed

subsection \<open>The codes of the current protocol versions\<close>

definition sample_validation_codes :: tx_validation_codes where
  "sample_validation_codes = \<lparr>VALID = 0, BAD_CREATOR_SIGNATURE = 4, DUPLICATE_TXID = 9, MVCC_READ_CONFLICT = 11,
     PHANTOM_READ_CONFLICT = 12, ENDORSEMENT_POLICY_FAILURE = 10, NOT_VALIDATED = 254,
     TxValidationCode_name = [0 \<mapsto> ''VALID'', 11 \<mapsto> ''MVCC_READ_CONFLICT'', 254 \<mapsto> ''NOT_VALIDATED''],
     TxValidationCode_String = (\<lambda>_. '''')\<rparr>"

definition sample_committer_codes :: committer_codes where
  "sample_committer_codes = \<lparr>COMMITTED = 1, STATUS_UNSPECIFIED = 0, ABORTED_SIGNATURE_INVALID = 2,
     ABORTED_MVCC_CONFLICT = 3, REJECTED_DUPLICATE_TX_ID = 100,
     Status_name = [0 \<mapsto> ''STATUS_UNSPECIFIED'', 1 \<mapsto> ''COMMITTED'', 3 \<mapsto> ''ABORTED_MVCC_CONFLICT''],
     Status_String = (\<lambda>_. '''')\<rparr>"

end
