(* ===== verification/MVCC.thy ===== *)
theory MVCC
  imports Status_Codes
begin

section \<open>The MVCC validator (blocks/mvcc.go)\<close>

text \<open>
  \<open>MVCCValidator.Validate\<close> decides, transaction by transaction, whether the versions a
  transaction read are still the committed ones and whether an earlier valid transaction of the
  same block already wrote a key it read. The database is a \<open>RecordGetter\<close>: the reading function
  of the database at the time of the call, an argument of the definitions.
\<close>

type_synonym record_getter = "string \<Rightarrow> string \<Rightarrow> WriteRecord option res"

definition UncustomizedCode :: int32 where
  "UncustomizedCode = 99"

record MVCCValidator =
  Codes :: "Status \<rightharpoonup> int32"
  monotonicVersions :: bool
  pendingWrites :: "string set"

definition NewMVCCValidator :: "bool \<Rightarrow> MVCCValidator" where
  "NewMVCCValidator mv = \<lparr>Codes = Map.empty, monotonicVersions = mv, pendingWrites = {}\<rparr>"

definition fabric_NewMVCCValidator :: "tx_validation_codes \<Rightarrow> int32 list \<Rightarrow> MVCCValidator" where
  "fabric_NewMVCCValidator pc codes =
     (NewMVCCValidator False)\<lparr>Codes := fabric_CodesByStatus pc codes\<rparr>"

definition fabricx_NewMVCCValidator :: "committer_codes \<Rightarrow> int32 list \<Rightarrow> MVCCValidator" where
  "fabricx_NewMVCCValidator cc codes =
     (NewMVCCValidator True)\<lparr>Codes := fabricx_CodesByStatus cc codes\<rparr>"

definition codeFor :: "MVCCValidator \<Rightarrow> Status \<Rightarrow> int32" where
  "codeFor l status = (case Codes l status of Some code \<Rightarrow> code | None \<Rightarrow> UncustomizedCode)"

definition pendingKey :: "string \<Rightarrow> string \<Rightarrow> string" where
  "pendingKey ns key = ns @ '':'' @ key"

subsection \<open>One namespace\<close>

text \<open>The two loops of \<open>checkNs\<close>: pending writes first, then the committed state.\<close>

fun checkPending :: "string set \<Rightarrow> string \<Rightarrow> KVRead list \<Rightarrow> gomsg option" where
  "checkPending pend ns [] = None"
| "checkPending pend ns (r # rs) =
     (if pendingKey ns (r_Key r) \<in> pend
      then Some (Msg ''key %q was already written earlier in this block'' [FQuo (r_Key r)])
      else checkPending pend ns rs)"

fun checkCommitted :: "record_getter \<Rightarrow> bool \<Rightarrow> string \<Rightarrow> KVRead list
    \<Rightarrow> Status \<times> gomsg \<times> goerror option" where
  "checkCommitted get mv ns [] = (StatusCommitted, emptyMsg, None)"
| "checkCommitted get mv ns (r # rs) =
     (case get ns (r_Key r) of
        Inl err \<Rightarrow> (StatusUnknown, emptyMsg,
          Some (Msg ''failed to get state for key %q: %v'' [FQuo (r_Key r), FErr err]))
      | Inr rec0 \<Rightarrow>
          (let rec = (case rec0 of Some w \<Rightarrow> if wr_IsDelete w then None else Some w | None \<Rightarrow> None) in
           case rec of
             None \<Rightarrow>
               (case r_Version r of
                  None \<Rightarrow> checkCommitted get mv ns rs
                | Some v \<Rightarrow> (StatusMVCCConflict,
                    Msg ''key %q: expected version %d:%d, but key does not exist''
                      [FQuo (r_Key r), FInt (uint (v_BlockNum v)), FInt (uint (v_TxNum v))], None))
           | Some w \<Rightarrow>
               (case r_Version r of
                  None \<Rightarrow> (StatusMVCCConflict,
                    Msg ''key %q: expected no existing record, but one exists'' [FQuo (r_Key r)], None)
                | Some v \<Rightarrow>
                    if mv then
                      (if wr_Version w \<noteq> v_BlockNum v then (StatusMVCCConflict,
                         Msg ''key %q: read version=%d, blockchain version=%d''
                           [FQuo (r_Key r), FInt (uint (v_BlockNum v)), FInt (uint (wr_Version w))], None)
                       else checkCommitted get mv ns rs)
                    else
                      (if wr_BlockNum w \<noteq> v_BlockNum v \<or> wr_TxNum w \<noteq> v_TxNum v then (StatusMVCCConflict,
                         Msg ''key %q: read version=%d:%d, blockchain version=%d:%d''
                           [FQuo (r_Key r), FInt (uint (v_BlockNum v)), FInt (uint (v_TxNum v)),
                            FInt (uint (wr_BlockNum w)), FInt (uint (wr_TxNum w))], None)
                       else checkCommitted get mv ns rs))))"

definition checkNs :: "MVCCValidator \<Rightarrow> record_getter \<Rightarrow> string \<Rightarrow> KVRead list
    \<Rightarrow> Status \<times> gomsg \<times> goerror option" where
  "checkNs l get ns reads =
     (case checkPending (pendingWrites l) ns reads of
        Some reason \<Rightarrow> (StatusMVCCConflict, reason, None)
      | None \<Rightarrow> checkCommitted get (monotonicVersions l) ns reads)"

subsection \<open>One transaction\<close>

text \<open>The inner loop of \<open>Validate\<close> over the namespaces of a transaction.\<close>

fun checkTx :: "MVCCValidator \<Rightarrow> record_getter \<Rightarrow> NsReadWriteSet list
    \<Rightarrow> Status \<times> gomsg \<times> goerror option" where
  "checkTx l get [] = (StatusCommitted, emptyMsg, None)"
| "checkTx l get (n # ns) =
     (case checkNs l get (ns_Namespace n) (Reads (ns_RWS n)) of
        (s, r, Some err) \<Rightarrow> (s, err, Some err)
      | (s, r, None) \<Rightarrow> if s \<noteq> StatusCommitted then (s, r, None) else checkTx l get ns)"

definition addPending :: "MVCCValidator \<Rightarrow> NsReadWriteSet list \<Rightarrow> MVCCValidator" where
  "addPending l nss = l\<lparr>pendingWrites := pendingWrites l \<union>
     set (concat (map (\<lambda>n. map (\<lambda>w. pendingKey (ns_Namespace n) (w_Key w)) (Writes (ns_RWS n))) nss))\<rparr>"

subsection \<open>The block\<close>

text \<open>
  The loop of \<open>Validate\<close>: the transactions with their new statuses, the filter (zero where the
  loop did not get to), the error if there is one and the validator with its pending writes.
\<close>

fun validateLoop :: "MVCCValidator \<Rightarrow> record_getter \<Rightarrow> Transaction list
    \<Rightarrow> Transaction list \<times> u8 list \<times> goerror option \<times> MVCCValidator" where
  "validateLoop l get [] = ([], [], None, l)"
| "validateLoop l get (tx # txs) =
     (case checkTx l get (tx_NsRWS tx) of (status, reason, vErr) \<Rightarrow>
        let code = codeFor l status in
        if code < 0 \<or> code > 255 then
          (tx # txs, replicate (length (tx # txs)) 0,
           Some (Msg ''validation code %d for status %v does not fit in a transaction filter byte''
             [FInt code, FInt status]), l)
        else
          (let tx' = SetStatus status code reason tx; b = word_of_int code in
           case vErr of
             Some e \<Rightarrow> (tx' # txs, b # replicate (length txs) 0, Some e, l)
           | None \<Rightarrow>
               (case validateLoop (if status = StatusCommitted then addPending l (tx_NsRWS tx) else l)
                       get txs of
                  (txs', filt, e, l') \<Rightarrow> (tx' # txs', b # filt, e, l'))))"

definition Validate :: "MVCCValidator \<Rightarrow> record_getter \<Rightarrow> Block
    \<Rightarrow> Block \<times> u8 list \<times> goerror option \<times> MVCCValidator" where
  "Validate l get block =
     (case validateLoop (l\<lparr>pendingWrites := {}\<rparr>) get (b_Transactions block) of
        (txs, txFilter, err, l') \<Rightarrow> (block\<lparr>b_Transactions := txs\<rparr>, txFilter, err, l'))"

subsection \<open>Specification\<close>

text \<open>
  A record is live unless it is a tombstone. A read is valid against a record when both say that
  the key is absent, or both name the same version: the per-key counter in Fabric-X, the block and
  transaction of the last write in Fabric.
\<close>

definition live :: "WriteRecord option \<Rightarrow> WriteRecord option" where
  "live r = (case r of Some w \<Rightarrow> if wr_IsDelete w then None else Some w | None \<Rightarrow> None)"

definition version_matches :: "bool \<Rightarrow> WriteRecord \<Rightarrow> Version \<Rightarrow> bool" where
  "version_matches mv w v \<longleftrightarrow>
     (if mv then wr_Version w = v_BlockNum v
      else wr_BlockNum w = v_BlockNum v \<and> wr_TxNum w = v_TxNum v)"

definition read_valid :: "bool \<Rightarrow> WriteRecord option \<Rightarrow> Version option \<Rightarrow> bool" where
  "read_valid mv r ver \<longleftrightarrow>
     (case (live r, ver) of (None, None) \<Rightarrow> True
      | (Some w, Some v) \<Rightarrow> version_matches mv w v | _ \<Rightarrow> False)"

definition get_total :: "record_getter \<Rightarrow> bool" where
  "get_total get \<longleftrightarrow> (\<forall>ns k. \<exists>r. get ns k = Inr r)"

definition state_of :: "record_getter \<Rightarrow> string \<Rightarrow> string \<Rightarrow> WriteRecord option" where
  "state_of get ns k = (case get ns k of Inr r \<Rightarrow> r | Inl _ \<Rightarrow> None)"

definition codes_fit :: "MVCCValidator \<Rightarrow> bool" where
  "codes_fit l \<longleftrightarrow>
     (\<forall>s \<in> {StatusCommitted, StatusMVCCConflict, StatusUnknown}. 0 \<le> codeFor l s \<and> codeFor l s \<le> 255)"

definition colon_free :: "Transaction \<Rightarrow> bool" where
  "colon_free t \<longleftrightarrow> (\<forall>n \<in> set (tx_NsRWS t). CHR '':'' \<notin> set (ns_Namespace n))"

definition pending_of :: "Transaction \<Rightarrow> string set" where
  "pending_of t = (\<lambda>(ns, k). pendingKey ns k) ` written_keys t"

subsection \<open>One transaction against the specification\<close>

lemma checkPending_None:
  "checkPending pend ns rs = None \<longleftrightarrow> (\<forall>r \<in> set rs. pendingKey ns (r_Key r) \<notin> pend)"
  by (induction rs) auto

lemma get_total_state_of: "get_total get \<Longrightarrow> get ns k = Inr (state_of get ns k)"
  unfolding get_total_def state_of_def by (metis old.sum.simps(6))

lemma checkCommitted_Cons:
  assumes "get_total get"
  shows "(read_valid mv (state_of get ns (r_Key r)) (r_Version r) \<longrightarrow>
           checkCommitted get mv ns (r # rs) = checkCommitted get mv ns rs) \<and>
         (\<not> read_valid mv (state_of get ns (r_Key r)) (r_Version r) \<longrightarrow>
           (\<exists>m. checkCommitted get mv ns (r # rs) = (StatusMVCCConflict, m, None)))"
  using get_total_state_of [OF assms, of ns "r_Key r"]
  by (auto simp: read_valid_def live_def version_matches_def split: option.splits if_splits)

lemma checkCommitted_spec:
  assumes "get_total get"
  shows "(if \<forall>r \<in> set rs. read_valid mv (state_of get ns (r_Key r)) (r_Version r)
          then checkCommitted get mv ns rs = (StatusCommitted, emptyMsg, None)
          else \<exists>m. checkCommitted get mv ns rs = (StatusMVCCConflict, m, None))"
proof (induction rs)
  case Nil
  then show ?case by simp
next
  case (Cons r rs)
  then show ?case
    using checkCommitted_Cons [OF assms, of mv ns r rs]
    by (cases "read_valid mv (state_of get ns (r_Key r)) (r_Version r)") (simp_all split: if_splits)
qed

lemma checkNs_spec:
  assumes "get_total get"
  shows "(if \<forall>r \<in> set rs. read_valid (monotonicVersions l) (state_of get ns (r_Key r)) (r_Version r)
              \<and> pendingKey ns (r_Key r) \<notin> pendingWrites l
          then checkNs l get ns rs = (StatusCommitted, emptyMsg, None)
          else \<exists>m. checkNs l get ns rs = (StatusMVCCConflict, m, None))"
  using checkCommitted_spec [OF assms, of rs "monotonicVersions l" ns]
    checkPending_None [of "pendingWrites l" ns rs]
  by (auto simp: checkNs_def split: option.splits if_splits)

definition tx_ok :: "MVCCValidator \<Rightarrow> record_getter \<Rightarrow> Transaction \<Rightarrow> bool" where
  "tx_ok l get t \<longleftrightarrow> (\<forall>(ns, r) \<in> set (reads_of t).
     read_valid (monotonicVersions l) (state_of get ns (r_Key r)) (r_Version r)
     \<and> pendingKey ns (r_Key r) \<notin> pendingWrites l)"

lemma checkTx_spec:
  assumes "get_total get"
  shows "(if tx_ok l get t
          then checkTx l get (tx_NsRWS t) = (StatusCommitted, emptyMsg, None)
          else \<exists>m. checkTx l get (tx_NsRWS t) = (StatusMVCCConflict, m, None))"
proof -
  let ?P = "\<lambda>ns r. read_valid (monotonicVersions l) (state_of get ns (r_Key r)) (r_Version r)
     \<and> pendingKey ns (r_Key r) \<notin> pendingWrites l"
  have "(if \<forall>n \<in> set nss. \<forall>r \<in> set (Reads (ns_RWS n)). ?P (ns_Namespace n) r
          then checkTx l get nss = (StatusCommitted, emptyMsg, None)
          else \<exists>m. checkTx l get nss = (StatusMVCCConflict, m, None))" for nss
  proof (induction nss)
    case Nil
    then show ?case by simp
  next
    case (Cons n nss)
    show ?case
    proof (cases "\<forall>r \<in> set (Reads (ns_RWS n)). ?P (ns_Namespace n) r")
      case True
      with checkNs_spec [OF assms, of "Reads (ns_RWS n)" l "ns_Namespace n"] Cons
      show ?thesis by simp
    next
      case False
      with checkNs_spec [OF assms, of "Reads (ns_RWS n)" l "ns_Namespace n"]
      obtain m where "checkNs l get (ns_Namespace n) (Reads (ns_RWS n)) = (StatusMVCCConflict, m, None)"
        by meson
      with False show ?thesis by simp
    qed
  qed
  moreover have "tx_ok l get t \<longleftrightarrow>
      (\<forall>n \<in> set (tx_NsRWS t). \<forall>r \<in> set (Reads (ns_RWS n)). ?P (ns_Namespace n) r)"
    by (auto simp: tx_ok_def reads_of_def)
  ultimately show ?thesis by simp
qed

subsection \<open>The block against the specification\<close>

lemma addPending_simps [simp]:
  "pendingWrites (addPending l (tx_NsRWS t)) = pendingWrites l \<union> pending_of t"
  "monotonicVersions (addPending l nss) = monotonicVersions l"
  "Codes (addPending l nss) = Codes l"
  by (force simp: addPending_def pending_of_def written_keys_def writes_of_def)
     (simp_all add: addPending_def)

lemma codeFor_addPending [simp]: "codeFor (addPending l nss) = codeFor l"
  by (simp add: codeFor_def fun_eq_iff)

lemma codeFor_pendingWrites [simp]: "codeFor (l\<lparr>pendingWrites := p\<rparr>) = codeFor l"
  by (simp add: codeFor_def fun_eq_iff)

lemma codes_fit_simps [simp]:
  "codes_fit (addPending l nss) = codes_fit l"
  "codes_fit (l\<lparr>pendingWrites := p\<rparr>) = codes_fit l"
  by (simp_all add: codes_fit_def)

text \<open>\<open>k\<close> is not pending when transaction \<open>i\<close> is checked.\<close>

definition clear_at :: "string set \<Rightarrow> Transaction list \<Rightarrow> Transaction list \<Rightarrow> nat \<Rightarrow> string \<Rightarrow> bool" where
  "clear_at P txs' txs i k \<longleftrightarrow> k \<notin> P \<and> (\<forall>j<i. tx_Valid (txs' ! j) \<longrightarrow> k \<notin> pending_of (txs ! j))"

lemma clear_at_0: "clear_at P txs' txs 0 k \<longleftrightarrow> k \<notin> P"
  by (simp add: clear_at_def)

lemma clear_at_Suc:
  "clear_at P (t' # txs') (t # txs) (Suc i) k \<longleftrightarrow>
     clear_at (if tx_Valid t' then P \<union> pending_of t else P) txs' txs i k"
  by (auto simp: clear_at_def All_less_Suc2)

lemma validateLoop_Cons:
  assumes "get_total get" and "codes_fit l"
    and "s = (if tx_ok l get tx then StatusCommitted else StatusMVCCConflict)"
    and "l1 = (if tx_ok l get tx then addPending l (tx_NsRWS tx) else l)"
    and "validateLoop l1 get txs = (txs', filt, e, l')"
  shows "\<exists>m. validateLoop l get (tx # txs) =
    (SetStatus s (codeFor l s) m tx # txs', word_of_int (codeFor l s) # filt, e, l')"
proof (cases "tx_ok l get tx")
  case True
  with checkTx_spec [OF assms(1), of l tx]
  have "checkTx l get (tx_NsRWS tx) = (StatusCommitted, emptyMsg, None)" by simp
  with True assms show ?thesis by (auto simp: codes_fit_def Let_def)
next
  case False
  with checkTx_spec [OF assms(1), of l tx] obtain m
    where "checkTx l get (tx_NsRWS tx) = (StatusMVCCConflict, m, None)" by auto
  with False assms show ?thesis by (auto simp: codes_fit_def Let_def)
qed

definition judged :: "MVCCValidator \<Rightarrow> record_getter \<Rightarrow> Transaction list \<Rightarrow> Transaction list \<Rightarrow> u8 list
    \<Rightarrow> nat \<Rightarrow> bool" where
  "judged l get txs txs' filt i \<longleftrightarrow>
     (\<exists>s m. txs' ! i = SetStatus s (codeFor l s) m (txs ! i)
        \<and> filt ! i = word_of_int (codeFor l s)
        \<and> s \<in> {StatusCommitted, StatusMVCCConflict}
        \<and> (s = StatusCommitted \<longleftrightarrow> (\<forall>(ns, r) \<in> set (reads_of (txs ! i)).
             read_valid (monotonicVersions l) (state_of get ns (r_Key r)) (r_Version r)
             \<and> clear_at (pendingWrites l) txs' txs i (pendingKey ns (r_Key r)))))"

lemma judged_0:
  assumes "s = (if tx_ok l get t then StatusCommitted else StatusMVCCConflict)"
  shows "judged l get (t # txs) (SetStatus s (codeFor l s) m t # txs') (word_of_int (codeFor l s) # filt) 0"
  using assms unfolding judged_def clear_at_0 tx_ok_def by (intro exI [of _ s] exI [of _ m]) auto

lemma judged_Suc:
  assumes "judged l1 get txs txs' filt i"
    and "l1 = (if tx_Valid t' then addPending l (tx_NsRWS t) else l)"
  shows "judged l get (t # txs) (t' # txs') (b # filt) (Suc i)"
  using assms by (cases "tx_Valid t'") (simp_all add: judged_def clear_at_Suc)

lemma validateLoop_judged:
  assumes "get_total get" and "codes_fit l" and "validateLoop l get txs = (txs', filt, e, l')"
  shows "e = None \<and> length txs' = length txs \<and> length filt = length txs
    \<and> (\<forall>i < length txs. judged l get txs txs' filt i)"
  using assms(2,3)
proof (induction txs arbitrary: l txs' filt e l')
  case Nil
  then show ?case by simp
next
  case (Cons t txs)
  let ?s = "if tx_ok l get t then StatusCommitted else StatusMVCCConflict"
  let ?l = "if tx_ok l get t then addPending l (tx_NsRWS t) else l"
  obtain us g d k where rest: "validateLoop ?l get txs = (us, g, d, k)" by (metis prod_cases4)
  have "codes_fit ?l" using Cons.prems(1) by simp
  note IH = Cons.IH [OF this rest]
  from validateLoop_Cons [OF assms(1) Cons.prems(1) refl refl rest] Cons.prems(2)
  obtain m where res: "txs' = SetStatus ?s (codeFor l ?s) m t # us"
      "filt = word_of_int (codeFor l ?s) # g" "e = d"
    by auto
  have "judged l get (t # txs) txs' filt i" if "i < Suc (length txs)" for i
  proof (cases i)
    case 0
    then show ?thesis unfolding res using judged_0 [OF refl] by blast
  next
    case (Suc j)
    with that IH have "judged ?l get txs us g j" by simp
    then show ?thesis unfolding res Suc by (rule judged_Suc) (simp add: tx_Valid_iff)
  qed
  with IH res show ?case by simp
qed

text \<open>A validation run, its outcome named.\<close>

lemma Validate_judged:
  assumes "get_total get" and "codes_fit l" and "Validate l get b = (b', filt, e, l')"
  shows "e = None" "length (b_Transactions b') = length (b_Transactions b)"
    "length filt = length (b_Transactions b)"
    "i < length (b_Transactions b) \<Longrightarrow>
       judged (l\<lparr>pendingWrites := {}\<rparr>) get (b_Transactions b) (b_Transactions b') filt i"
proof -
  from assms(3) have b': "validateLoop (l\<lparr>pendingWrites := {}\<rparr>) get (b_Transactions b) =
      (b_Transactions b', filt, e, l')"
    by (auto simp: Validate_def split: prod.splits)
  from assms(2) have "codes_fit (l\<lparr>pendingWrites := {}\<rparr>)" by simp
  note J = validateLoop_judged [OF assms(1) this b']
  from J show "e = None" "length (b_Transactions b') = length (b_Transactions b)"
    "length filt = length (b_Transactions b)"
    "i < length (b_Transactions b) \<Longrightarrow>
       judged (l\<lparr>pendingWrites := {}\<rparr>) get (b_Transactions b) (b_Transactions b') filt i"
    by simp_all
qed

lemma judgedE:
  assumes "judged (l\<lparr>pendingWrites := {}\<rparr>) get txs txs' filt i"
  obtains s m where "txs' ! i = SetStatus s (codeFor l s) m (txs ! i)"
    "filt ! i = word_of_int (codeFor l s)" "s \<in> {StatusCommitted, StatusMVCCConflict}"
    "s = StatusCommitted \<longleftrightarrow> (\<forall>(ns, r) \<in> set (reads_of (txs ! i)).
       read_valid (monotonicVersions l) (state_of get ns (r_Key r)) (r_Version r)
       \<and> clear_at {} txs' txs i (pendingKey ns (r_Key r)))"
proof -
  have upd: "monotonicVersions (l\<lparr>pendingWrites := {}\<rparr>) = monotonicVersions l"
    "pendingWrites (l\<lparr>pendingWrites := {}\<rparr>) = {}"
    by simp_all
  from assms show thesis
    unfolding judged_def codeFor_pendingWrites upd by (elim exE conjE) (rule that)
qed

lemma pending_of_exact:
  assumes "colon_free t" and "CHR '':'' \<notin> set ns"
  shows "pendingKey ns k \<in> pending_of t \<longleftrightarrow> (ns, k) \<in> written_keys t"
proof
  assume "pendingKey ns k \<in> pending_of t"
  then obtain ns' k' where w: "(ns', k') \<in> written_keys t" and eq: "pendingKey ns k = pendingKey ns' k'"
    by (auto simp: pending_of_def)
  from w assms(1) have "CHR '':'' \<notin> set ns'"
    by (auto simp: mem_written_keys colon_free_def)
  with joined_key_inj [of ns "CHR '':''" k ns' k'] assms(2) eq w show "(ns, k) \<in> written_keys t"
    by (simp add: pendingKey_def)
qed (force simp: pending_of_def)

lemma reads_of_colon_free:
  "colon_free t \<Longrightarrow> (ns, r) \<in> set (reads_of t) \<Longrightarrow> CHR '':'' \<notin> set ns"
  by (auto simp: colon_free_def reads_of_def)

subsection \<open>Properties\<close>

text \<open>
  C1: With a database that answers every read and codes that fit in a byte, \<open>Validate\<close> succeeds and
  accepts exactly the transactions it should: transaction \<open>i\<close> becomes committed if and only if each
  of its reads names the version of the live record (or its absence) and no earlier transaction of
  the block that was itself accepted wrote a key it reads; every other transaction becomes an MVCC
  conflict. Nothing but the status fields of the transactions changes, and the filter holds one
  byte per transaction, the raw code. The namespaces are free of the colon that joins a namespace
  and a key.
\<close>

theorem Validate_exact:
  assumes "get_total get" and "codes_fit l" and "\<forall>t \<in> set (b_Transactions b). colon_free t"
    and "Validate l get b = (b', filt, e, l')"
  shows "e = None \<and> length (b_Transactions b') = length (b_Transactions b)
    \<and> length filt = length (b_Transactions b)
    \<and> (\<forall>i < length (b_Transactions b). \<exists>s m.
         b_Transactions b' ! i = SetStatus s (codeFor l s) m (b_Transactions b ! i)
         \<and> filt ! i = word_of_int (codeFor l s)
         \<and> s = (if \<forall>(ns, r) \<in> set (reads_of (b_Transactions b ! i)).
              read_valid (monotonicVersions l) (state_of get ns (r_Key r)) (r_Version r)
              \<and> (\<forall>j<i. tx_Valid (b_Transactions b' ! j) \<longrightarrow>
                    (ns, r_Key r) \<notin> written_keys (b_Transactions b ! j))
            then StatusCommitted else StatusMVCCConflict))"
proof (intro conjI allI impI)
  note J = Validate_judged [OF assms(1,2,4)]
  show "e = None" "length (b_Transactions b') = length (b_Transactions b)"
    "length filt = length (b_Transactions b)"
    using J(1-3) by simp_all
  fix i assume i: "i < length (b_Transactions b)"
  let ?t = "b_Transactions b ! i"
  let ?clear = "\<lambda>(ns, r). \<forall>j<i. tx_Valid (b_Transactions b' ! j) \<longrightarrow>
      (ns, r_Key r) \<notin> written_keys (b_Transactions b ! j)"
  have exact: "clear_at {} (b_Transactions b') (b_Transactions b) i (pendingKey ns (r_Key r)) \<longleftrightarrow>
      ?clear (ns, r)" if "(ns, r) \<in> set (reads_of ?t)" for ns r
  proof -
    have "colon_free ?t" using assms(3) i by simp
    with that have "CHR '':'' \<notin> set ns" by (blast dest: reads_of_colon_free)
    moreover have "colon_free (b_Transactions b ! j)" if "j < i" for j
      using assms(3) i that by simp
    ultimately show ?thesis by (auto simp: clear_at_def pending_of_exact)
  qed
  from J(4) [OF i] obtain s m
    where t': "b_Transactions b' ! i = SetStatus s (codeFor l s) m ?t"
      and f: "filt ! i = word_of_int (codeFor l s)" and s: "s \<in> {StatusCommitted, StatusMVCCConflict}"
      and iff: "s = StatusCommitted \<longleftrightarrow> (\<forall>(ns, r) \<in> set (reads_of ?t).
             read_valid (monotonicVersions l) (state_of get ns (r_Key r)) (r_Version r)
             \<and> clear_at {} (b_Transactions b') (b_Transactions b) i (pendingKey ns (r_Key r)))"
    by (rule judgedE)
  have "s = (if \<forall>(ns, r) \<in> set (reads_of ?t).
              read_valid (monotonicVersions l) (state_of get ns (r_Key r)) (r_Version r)
              \<and> ?clear (ns, r) then StatusCommitted else StatusMVCCConflict)"
    using s iff exact by (auto split: if_splits)
  with t' f show "\<exists>s m. b_Transactions b' ! i = SetStatus s (codeFor l s) m ?t
         \<and> filt ! i = word_of_int (codeFor l s)
         \<and> s = (if \<forall>(ns, r) \<in> set (reads_of ?t).
              read_valid (monotonicVersions l) (state_of get ns (r_Key r)) (r_Version r)
              \<and> (\<forall>j<i. tx_Valid (b_Transactions b' ! j) \<longrightarrow>
                    (ns, r_Key r) \<notin> written_keys (b_Transactions b ! j))
            then StatusCommitted else StatusMVCCConflict)"
    unfolding prod.case by blast
qed

text \<open>A block of two transactions for the witnesses: the first writes what the second reads.\<close>

definition sample_writer :: "string \<Rightarrow> string \<Rightarrow> Transaction" where
  "sample_writer ns k = zero_Transaction\<lparr>tx_NsRWS := [\<lparr>ns_Namespace = ns,
     ns_RWS = \<lparr>Reads = [], Writes = [\<lparr>w_Key = k, w_IsDelete = False, w_Value = ''v''\<rparr>]\<rparr>\<rparr>]\<rparr>"

definition sample_reader :: "string \<Rightarrow> string \<Rightarrow> Transaction" where
  "sample_reader ns k = zero_Transaction\<lparr>tx_NsRWS := [\<lparr>ns_Namespace = ns,
     ns_RWS = \<lparr>Reads = [\<lparr>r_Key = k, r_Version = None\<rparr>], Writes = []\<rparr>\<rparr>]\<rparr>"

definition sample_block :: "Transaction list \<Rightarrow> Block" where
  "sample_block txs = zero_Block\<lparr>b_Transactions := txs\<rparr>"

lemma sample_simps [simp]:
  "b_Transactions (sample_block txs) = txs"
  "reads_of (sample_writer ns k) = []"
  "reads_of (sample_reader ns k) = [(ns, \<lparr>r_Key = k, r_Version = None\<rparr>)]"
  "written_keys (sample_writer ns k) = {(ns, k)}"
  "written_keys (sample_reader ns k) = {}"
  "tx_NsRWS (sample_reader ns k) = [\<lparr>ns_Namespace = ns,
     ns_RWS = \<lparr>Reads = [\<lparr>r_Key = k, r_Version = None\<rparr>], Writes = []\<rparr>\<rparr>]"
  "tx_NsRWS (sample_writer ns k) = [\<lparr>ns_Namespace = ns,
     ns_RWS = \<lparr>Reads = [], Writes = [\<lparr>w_Key = k, w_IsDelete = False, w_Value = ''v''\<rparr>]\<rparr>\<rparr>]"
  by (simp_all add: sample_block_def sample_writer_def sample_reader_def zero_Transaction_def
      reads_of_def writes_of_def written_keys_def)

lemma codes_fit_default: "codes_fit (NewMVCCValidator mv)"
  by (simp add: codes_fit_def codeFor_def NewMVCCValidator_def UncustomizedCode_def)

theorem Validate_exact_witness:
  "\<exists>b' filt e l'. Validate (NewMVCCValidator True) (\<lambda>ns k. Inr None)
       (sample_block [sample_writer ''a'' ''k'', sample_reader ''a'' ''k'', sample_reader ''a'' ''z''])
     = (b', filt, e, l') \<and> e = None \<and> length filt = 3
     \<and> tx_Status (b_Transactions b' ! 0) = StatusCommitted
     \<and> tx_Status (b_Transactions b' ! 1) = StatusMVCCConflict"
proof -
  let ?get = "(\<lambda>ns k. Inr None) :: record_getter"
  let ?b = "sample_block [sample_writer ''a'' ''k'', sample_reader ''a'' ''k'', sample_reader ''a'' ''z'']"
  obtain b' filt e l' where v: "Validate (NewMVCCValidator True) ?get ?b = (b', filt, e, l')"
    by (metis prod_cases4)
  have tot: "get_total ?get" by (simp add: get_total_def)
  have col: "\<forall>t \<in> set (b_Transactions ?b). colon_free t" by (simp add: colon_free_def)
  note E = Validate_exact [OF tot codes_fit_default col v]
  from E have E0: "\<exists>s m. b_Transactions b' ! 0 =
      SetStatus s (codeFor (NewMVCCValidator True) s) m (sample_writer ''a'' ''k'') \<and> s = StatusCommitted"
    by (elim conjE allE [of _ 0]) auto
  then have t0: "tx_Status (b_Transactions b' ! 0) = StatusCommitted" by auto
  have "tx_Status (b_Transactions b' ! 1) = StatusMVCCConflict"
    using E t0 by (elim conjE allE [of _ 1]) (auto simp: tx_Valid_iff)
  with E v t0 show ?thesis by auto
qed

text \<open>
  The key under which a pending write is recorded does not determine its namespace: a write to
  key \<open>c\<close> of namespace \<open>a:b\<close> makes a later read of key \<open>b:c\<close> of namespace \<open>a\<close> in the same block an
  MVCC conflict, although no transaction wrote that key and the read names its committed version.
\<close>

theorem Validate_pending_collision:
  "let b = sample_block [sample_writer ''a:b'' ''c'', sample_reader ''a'' ''b:c''];
       (b', filt, e, l') = Validate (NewMVCCValidator True) (\<lambda>ns k. Inr None) b
   in tx_Status (b_Transactions b' ! 1) = StatusMVCCConflict
      \<and> (''a'', ''b:c'') \<notin> written_keys (b_Transactions b ! 0)
      \<and> list_all (\<lambda>(ns, r). read_valid True (state_of (\<lambda>ns k. Inr None) ns (r_Key r)) (r_Version r))
            (reads_of (b_Transactions b ! 1))"
  by (simp add: Validate_def NewMVCCValidator_def codeFor_def UncustomizedCode_def checkNs_def
      addPending_def pendingKey_def Let_def read_valid_def live_def state_of_def)

subsection \<open>Errors\<close>

text \<open>The codes a run of the loop can leave behind, whatever the database answers.\<close>

lemma checkCommitted_error:
  "checkCommitted get mv ns rs = (s, r, Some err) \<Longrightarrow> s = StatusUnknown"
  by (induction rs) (auto simp: Let_def split: sum.splits option.splits if_splits)

lemma checkNs_error: "checkNs l get ns rs = (s, r, Some err) \<Longrightarrow> s = StatusUnknown"
  by (auto simp: checkNs_def split: option.splits dest: checkCommitted_error)

lemma checkTx_error:
  "checkTx l get nss = (s, r, Some err) \<Longrightarrow> s = StatusUnknown \<and> r = err"
  by (induction nss) (auto split: prod.splits option.splits if_splits dest: checkNs_error)

text \<open>
  When \<open>Validate\<close> returns an error, it stopped at one transaction: the ones after it are
  untouched and have a zero in the filter, that one is not committed unless it already was
  before the call, and the filter still has one entry per transaction.
\<close>

theorem Validate_error:
  assumes "Validate l get b = (b', filt, Some err, l')"
  shows "length filt = length (b_Transactions b) \<and> length (b_Transactions b') = length (b_Transactions b)
    \<and> (\<exists>i < length (b_Transactions b).
          (b_Transactions b' ! i = b_Transactions b ! i \<and> filt ! i = 0
           \<or> tx_Status (b_Transactions b' ! i) = StatusUnknown \<and> tx_Reason (b_Transactions b' ! i) = err)
          \<and> (\<forall>j. i < j \<longrightarrow> j < length (b_Transactions b) \<longrightarrow>
                b_Transactions b' ! j = b_Transactions b ! j \<and> filt ! j = 0))"
proof -
  have "length filt = length txs \<and> length txs' = length txs \<and> (\<exists>i < length txs.
          (txs' ! i = txs ! i \<and> filt ! i = 0
           \<or> tx_Status (txs' ! i) = StatusUnknown \<and> tx_Reason (txs' ! i) = err)
          \<and> (\<forall>j. i < j \<longrightarrow> j < length txs \<longrightarrow> txs' ! j = txs ! j \<and> filt ! j = 0))"
    if "validateLoop k get txs = (txs', filt, Some err, l')" for k txs txs' filt
    using that
  proof (induction txs arbitrary: k txs' filt)
    case Nil
    then show ?case by simp
  next
    case (Cons t txs)
    obtain s r ve where ct: "checkTx k get (tx_NsRWS t) = (s, r, ve)" by (metis prod_cases3)
    show ?case
    proof (cases "codeFor k s < 0 \<or> codeFor k s > 255")
      case True
      with Cons.prems ct show ?thesis by (auto simp: Let_def intro!: exI [of _ 0] nth_replicate)
    next
      case fits: False
      show ?thesis
      proof (cases ve)
        case (Some x)
        with Cons.prems ct fits checkTx_error [of k get "tx_NsRWS t" s r x] show ?thesis
          by (auto simp: Let_def nth_Cons' intro!: exI [of _ 0])
      next
        case None
        obtain us g d k' where rest: "validateLoop
            (if s = StatusCommitted then addPending k (tx_NsRWS t) else k) get txs = (us, g, d, k')"
          by (metis prod_cases4)
        with Cons.prems ct fits None have res: "txs' = SetStatus s (codeFor k s) r t # us"
            "filt = word_of_int (codeFor k s) # g" "d = Some err" "k' = l'"
          by (auto simp: Let_def)
        note IH = Cons.IH [OF rest [unfolded res(3,4)]]
        then obtain i where "i < length txs"
          "us ! i = txs ! i \<and> g ! i = 0
             \<or> tx_Status (us ! i) = StatusUnknown \<and> tx_Reason (us ! i) = err"
          "\<forall>j. i < j \<longrightarrow> j < length txs \<longrightarrow> us ! j = txs ! j \<and> g ! j = 0"
          by blast
        then show ?thesis unfolding res using IH
          by (intro conjI exI [of _ "Suc i"]) (auto simp: nth_Cons split: nat.splits)
      qed
    qed
  qed
  with assms show ?thesis by (auto simp: Validate_def split: prod.splits)
qed

theorem Validate_error_witness:
  "\<exists>b' filt err l'. Validate (NewMVCCValidator True) (\<lambda>ns k. Inl (Msg ''io'' []))
       (sample_block [sample_reader ''a'' ''k'', sample_writer ''a'' ''k'']) = (b', filt, Some err, l')
     \<and> length filt = 2"
proof -
  let ?get = "(\<lambda>ns k. Inl (Msg ''io'' [])) :: record_getter"
  let ?b = "sample_block [sample_reader ''a'' ''k'', sample_writer ''a'' ''k'']"
  have "\<exists>b' filt err l'. Validate (NewMVCCValidator True) ?get ?b = (b', filt, Some err, l')"
    by (simp add: Validate_def NewMVCCValidator_def codeFor_def UncustomizedCode_def checkNs_def Let_def)
  then obtain b' filt err l' where "Validate (NewMVCCValidator True) ?get ?b = (b', filt, Some err, l')"
    by blast
  with Validate_error [OF this] show ?thesis by simp
qed

end
