(* ===== verification/KVS.thy ===== *)
theory KVS
  imports MVCC
begin

section \<open>The world-state interfaces (state/kvs.go)\<close>

text \<open>
  \<open>state.KVS\<close> is the contract between a store that follows the chain and its clients: the block
  handler, the latest state, and snapshots that do not see the blocks committed after them. The
  operations are the locale's parameters, the promises of the interface's comments its
  assumptions. A snapshot may read through the store, so reading one takes the store as it is at
  the time of the read.
\<close>

definition handle_all :: "('db \<Rightarrow> Block \<Rightarrow> 'db \<times> goerror option) \<Rightarrow> 'db \<Rightarrow> Block list \<Rightarrow> 'db" where
  "handle_all handle db bs = foldl (\<lambda>db b. fst (handle db b)) db bs"

lemma handle_all_simps [simp]:
  "handle_all handle db [] = db"
  "handle_all handle db (b # bs) = handle_all handle (fst (handle db b)) bs"
  by (simp_all add: handle_all_def)

locale kvs =
  fixes inv :: "'db \<Rightarrow> bool"
    and handle :: "'db \<Rightarrow> Block \<Rightarrow> 'db \<times> goerror option"
    and accepts :: "Block \<Rightarrow> bool"
    and get :: "'db \<Rightarrow> record_getter"
    and block_number :: "'db \<Rightarrow> u64 res"
    and snapshot :: "'db \<Rightarrow> 'snap res"
    and snap_height :: "'snap \<Rightarrow> u64"
    and snap_get :: "'db \<Rightarrow> 'snap \<Rightarrow> record_getter"
  assumes handle_inv: "inv db \<Longrightarrow> accepts b \<Longrightarrow> handle db b = (db', e) \<Longrightarrow> inv db'"
    and get_answers: "inv db \<Longrightarrow> get_total (get db)"
    and snapshot_opens: "inv db \<Longrightarrow> \<exists>s. snapshot db = Inr s \<and> block_number db = Inr (snap_height s)"
    and snapshot_current: "inv db \<Longrightarrow> snapshot db = Inr s \<Longrightarrow> snap_get db s = get db"
    and snapshot_stable: "inv db \<Longrightarrow> handle db b = (db', e) \<Longrightarrow> snap_height s < b_Number b
           \<Longrightarrow> snap_get db' s = snap_get db s"
begin



lemma handle_all_inv:
  "inv db \<Longrightarrow> \<forall>b \<in> set bs. accepts b \<Longrightarrow> inv (handle_all handle db bs)"
proof (induction bs arbitrary: db)
  case (Cons b bs)
  then have "inv (fst (handle db b))" by (metis handle_inv list.set_intros(1) prod.collapse)
  with Cons show ?case by simp
qed simp

lemma snapshot_stable_all:
  "inv db \<Longrightarrow> \<forall>b \<in> set bs. accepts b \<and> snap_height s < b_Number b
     \<Longrightarrow> snap_get (handle_all handle db bs) s = snap_get db s"
proof (induction bs arbitrary: db)
  case (Cons b bs)
  then have "inv (fst (handle db b))" by (metis handle_inv list.set_intros(1) prod.collapse)
  with Cons have "snap_get (handle_all handle db (b # bs)) s = snap_get (fst (handle db b)) s" by simp
  also have "\<dots> = snap_get db s"
    using Cons.prems by (metis list.set_intros(1) prod.collapse snapshot_stable)
  finally show ?case .
qed simp

lemma snapshot_isolation:
  assumes "inv db" and "snapshot db = Inr s"
    and "\<forall>b \<in> set bs. accepts b \<and> snap_height s < b_Number b"
  shows "snap_get (handle_all handle db bs) s = get db"
  using assms by (simp add: snapshot_stable_all snapshot_current)

lemma get_state_of: "inv db \<Longrightarrow> get db ns k = Inr (state_of (get db) ns k)"
  by (rule get_total_state_of [OF get_answers])

end

end
