(* ===== verification/Versioned_DB.thy ===== *)
theory Versioned_DB
  imports KVS "HOL-Library.Product_Lexorder" "HOL-Library.Sublist"
begin

section \<open>The versioned world state (state/db.go)\<close>

text \<open>
  \<open>VersionedDB\<close> keeps every write of every committed block as a row of a SQLite table, with a
  version counter per key. The model has the two tables as the code declares them: the rows in the
  order they were inserted, and the last block of each channel. A statement of the code is the
  function it computes on the tables; \<open>BeginTx\<close>, \<open>Commit\<close> and the deferred \<open>Rollback\<close> are the
  choice between the updated and the old tables. Failures of the storage itself (a full disk, a
  cancelled context) are not modelled: an operation fails only when a value does not fit.

  The driver converts Go values on the way: a \<open>uint64\<close> with its high bit set is refused as a
  parameter, and a negative integer is refused by \<open>Scan\<close> into a \<open>uint64\<close>.
\<close>

subsection \<open>Tables\<close>

record row =
  row_channel :: string
  row_namespace :: string
  row_key :: string
  row_version_block :: int64
  row_version_tx :: int64
  row_version :: int64
  row_value :: bytes
  row_is_delete :: bool
  row_tx_id :: string

record VersionedDB =
  db_channel :: string
  worldstate :: "row list"
  channel_progress :: "string \<rightharpoonup> int64"

definition NewWriteDB :: "string \<Rightarrow> VersionedDB" where
  "NewWriteDB ch = \<lparr>db_channel = ch, worldstate = [], channel_progress = Map.empty\<rparr>"

definition bind_u64 :: "u64 \<Rightarrow> int64 res" where
  "bind_u64 n =
     (if uint n \<ge> 2 ^ 63 then Inl (Msg ''uint64 values with high bit set are not supported'' [])
      else Inr (uint n))"

definition scan_u64 :: "int64 \<Rightarrow> u64 res" where
  "scan_u64 i =
     (if i < 0 then Inl (Msg ''converting driver.Value type int64 to a uint64: invalid syntax'' [])
      else Inr (word_of_int i))"

subsection \<open>UpdateWorldState\<close>

definition same_key :: "string \<Rightarrow> string \<Rightarrow> string \<Rightarrow> row \<Rightarrow> bool" where
  "same_key ch ns k r \<longleftrightarrow> row_channel r = ch \<and> row_namespace r = ns \<and> row_key r = k"

definition next_version :: "string \<Rightarrow> string \<Rightarrow> string \<Rightarrow> row list \<Rightarrow> int64" where
  "next_version ch ns k rows =
     (case map row_version (filter (same_key ch ns k) rows) of
        [] \<Rightarrow> 0 | v # vs \<Rightarrow> foldl max v vs + 1)"

text \<open>
  One iteration of the innermost loop: the insert statement, which does nothing when the primary
  key exists, and then the comparison with the existing row.
\<close>

definition insertWrite :: "string \<Rightarrow> u64 \<Rightarrow> Transaction \<Rightarrow> string \<Rightarrow> KVWrite \<Rightarrow> row list \<Rightarrow> row list res" where
  "insertWrite ch number tx ns w rows =
     (case bind_u64 number of
        Inl err \<Rightarrow> Inl (Msg ''batch insert exec: %w'' [FErr err])
      | Inr blk \<Rightarrow>
          (case List.find (\<lambda>r. same_key ch ns (w_Key w) r \<and> row_version_block r = blk
                               \<and> row_version_tx r = tx_Number tx) rows of
             None \<Rightarrow> Inr (rows @ [\<lparr>row_channel = ch, row_namespace = ns, row_key = w_Key w,
                 row_version_block = blk, row_version_tx = tx_Number tx,
                 row_version = next_version ch ns (w_Key w) rows, row_value = w_Value w,
                 row_is_delete = w_IsDelete w, row_tx_id = tx_ID tx\<rparr>])
           | Some r \<Rightarrow>
               if row_value r \<noteq> w_Value w \<or> row_is_delete r \<noteq> w_IsDelete w \<or> row_tx_id r \<noteq> tx_ID tx
               then Inl (Msg (''conflicting write at channel=%s namespace=%s key=%s block=%d tx=%d: ''
                     @ ''existing (is_delete=%v tx_id=%s) differs from replayed (is_delete=%v tx_id=%s)'')
                   [FStr ch, FStr ns, FStr (w_Key w), FInt blk, FInt (tx_Number tx),
                    FInt (of_bool (row_is_delete r)), FStr (row_tx_id r),
                    FInt (of_bool (w_IsDelete w)), FStr (tx_ID tx)])
               else Inr rows))"

definition insertBlock :: "string \<Rightarrow> Block \<Rightarrow> row list \<Rightarrow> row list res" where
  "insertBlock ch b =
     for_each (\<lambda>tx rows.
         if tx_Valid tx then
           for_each (\<lambda>nsrws. for_each (insertWrite ch (b_Number b) tx (ns_Namespace nsrws))
                               (Writes (ns_RWS nsrws)))
             (tx_NsRWS tx) rows
         else Inr rows)
       (b_Transactions b)"

definition upsertProgress :: "string \<Rightarrow> int64 \<Rightarrow> (string \<rightharpoonup> int64) \<Rightarrow> (string \<rightharpoonup> int64)" where
  "upsertProgress ch n prog =
     (case prog ch of
        None \<Rightarrow> prog(ch \<mapsto> n)
      | Some lst \<Rightarrow> if n > lst then prog(ch \<mapsto> n) else prog)"

definition UpdateWorldState :: "VersionedDB \<Rightarrow> Block \<Rightarrow> VersionedDB \<times> goerror option" where
  "UpdateWorldState db b =
     (case insertBlock (db_channel db) b (worldstate db) of
        Inl err \<Rightarrow> (db, Some err)
      | Inr rows \<Rightarrow>
          (case bind_u64 (b_Number b) of
             Inl err \<Rightarrow> (db, Some (Msg ''update last block: %w'' [FErr err]))
           | Inr n \<Rightarrow>
               (db\<lparr>worldstate := rows,
                   channel_progress := upsertProgress (db_channel db) n (channel_progress db)\<rparr>, None)))"

definition db_Handle :: "VersionedDB \<Rightarrow> Block \<Rightarrow> VersionedDB \<times> goerror option" where
  "db_Handle db b = UpdateWorldState db b"

subsection \<open>Reads\<close>

text \<open>\<open>ORDER BY version DESC LIMIT 1\<close>\<close>

fun latest :: "row list \<Rightarrow> row option" where
  "latest [] = None"
| "latest (r # rs) =
     (case latest rs of None \<Rightarrow> Some r
      | Some m \<Rightarrow> if row_version m > row_version r then Some m else Some r)"

definition scanRow :: "row \<Rightarrow> WriteRecord res" where
  "scanRow r =
     (case scan_u64 (row_version_block r) of Inl e \<Rightarrow> Inl e | Inr blk \<Rightarrow>
      (case scan_u64 (row_version_tx r) of Inl e \<Rightarrow> Inl e | Inr tn \<Rightarrow>
      (case scan_u64 (row_version r) of Inl e \<Rightarrow> Inl e | Inr ver \<Rightarrow>
         Inr \<lparr>wr_Namespace = row_namespace r, wr_Key = row_key r, wr_BlockNum = blk, wr_TxNum = tn,
              wr_Version = ver, wr_Value = row_value r, wr_IsDelete = row_is_delete r,
              wr_TxID = row_tx_id r\<rparr>)))"

definition queryLatest :: "string \<Rightarrow> row list \<Rightarrow> WriteRecord option res" where
  "queryLatest wrap rows =
     (case latest rows of
        None \<Rightarrow> Inr None
      | Some r \<Rightarrow> (case scanRow r of Inl err \<Rightarrow> Inl (Msg wrap [FErr err]) | Inr w \<Rightarrow> Inr (Some w)))"

definition GetAt :: "VersionedDB \<Rightarrow> string \<Rightarrow> string \<Rightarrow> u64 \<Rightarrow> WriteRecord option res" where
  "GetAt db ns k lastBlock =
     (case bind_u64 lastBlock of
        Inl err \<Rightarrow> Inl (Msg ''get: %w'' [FErr err])
      | Inr h \<Rightarrow> queryLatest ''get: %w''
          (filter (\<lambda>r. same_key (db_channel db) ns k r \<and> row_version_block r \<le> h) (worldstate db)))"

definition db_Get :: "VersionedDB \<Rightarrow> string \<Rightarrow> string \<Rightarrow> WriteRecord option res" where
  "db_Get db ns k =
     queryLatest ''get current: %w'' (filter (same_key (db_channel db) ns k) (worldstate db))"

definition BlockNumber :: "VersionedDB \<Rightarrow> u64 res" where
  "BlockNumber db =
     (case channel_progress db (db_channel db) of
        None \<Rightarrow> Inr 0
      | Some n \<Rightarrow> if n < 0 then Inl (Msg ''invalid negative block number: %d'' [FInt n])
                  else Inr (word_of_int n))"

text \<open>
  A \<open>versionedSnapshot\<close> is the database and a height; it reads through the database as it is at
  the time of the read, so the model passes that database to its \<open>Get\<close>.
\<close>

definition Snapshot :: "VersionedDB \<Rightarrow> u64 res" where
  "Snapshot db = BlockNumber db"

definition SnapshotAt :: "VersionedDB \<Rightarrow> u64 \<Rightarrow> u64 res" where
  "SnapshotAt db blk = (case BlockNumber db of Inl e \<Rightarrow> Inl e | Inr n \<Rightarrow> Inr (min blk n))"

definition snapshot_Get :: "VersionedDB \<Rightarrow> u64 \<Rightarrow> string \<Rightarrow> string \<Rightarrow> WriteRecord option res" where
  "snapshot_Get db blk ns k = GetAt db ns k blk"

fun scanRows :: "row list \<Rightarrow> WriteRecord list res" where
  "scanRows [] = Inr []"
| "scanRows (r # rs) =
     (case scanRow r of Inl err \<Rightarrow> Inl (Msg ''scan history: %w'' [FErr err])
      | Inr w \<Rightarrow> (case scanRows rs of Inl e \<Rightarrow> Inl e | Inr ws \<Rightarrow> Inr (w # ws)))"

definition GetHistory :: "VersionedDB \<Rightarrow> string \<Rightarrow> string \<Rightarrow> WriteRecord list res" where
  "GetHistory db ns k =
     scanRows (sort_key (\<lambda>r. (row_version_block r, row_version_tx r))
       (filter (same_key (db_channel db) ns k) (worldstate db)))"

subsection \<open>Invariant\<close>

text \<open>
  What every database built by \<open>UpdateWorldState\<close> satisfies: the primary keys are distinct, the
  versions of a key count its rows from zero in insertion order, the stored integers are readable
  as \<open>uint64\<close>, and no row of a channel is above the channel's last block.
\<close>

abbreviation key_rows :: "VersionedDB \<Rightarrow> string \<Rightarrow> string \<Rightarrow> row list" where
  "key_rows db ns k \<equiv> filter (same_key (db_channel db) ns k) (worldstate db)"

definition row_pk :: "row \<Rightarrow> string \<times> string \<times> string \<times> int64 \<times> int64" where
  "row_pk r = (row_channel r, row_namespace r, row_key r, row_version_block r, row_version_tx r)"

definition counted :: "row list \<Rightarrow> bool" where
  "counted rows \<longleftrightarrow> map row_version rows = map int [0..<length rows]"

definition row_fits :: "row \<Rightarrow> bool" where
  "row_fits r \<longleftrightarrow> 0 \<le> row_version_block r \<and> row_version_block r < 2 ^ 63
     \<and> 0 \<le> row_version_tx r \<and> row_version_tx r < 2 ^ 63"

definition rows_inv :: "row list \<Rightarrow> bool" where
  "rows_inv rows \<longleftrightarrow> distinct (map row_pk rows)
     \<and> (\<forall>ch ns k. counted (filter (same_key ch ns k) rows)) \<and> (\<forall>r \<in> set rows. row_fits r)"

definition progress_inv :: "row list \<Rightarrow> (string \<rightharpoonup> int64) \<Rightarrow> bool" where
  "progress_inv rows prog \<longleftrightarrow>
     (\<forall>r \<in> set rows. \<exists>n. prog (row_channel r) = Some n \<and> row_version_block r \<le> n)
     \<and> (\<forall>ch n. prog ch = Some n \<longrightarrow> 0 \<le> n \<and> n < 2 ^ 63)"

definition db_inv :: "VersionedDB \<Rightarrow> bool" where
  "db_inv db \<longleftrightarrow> rows_inv (worldstate db) \<and> progress_inv (worldstate db) (channel_progress db)"

text \<open>
  The parsers number the transactions of a block by position, as an \<open>int64\<close>: no number is negative.
\<close>

abbreviation number_ok :: "int64 \<Rightarrow> bool" where
  "number_ok n \<equiv> 0 \<le> n \<and> n < 2 ^ 63"

definition numbers_ok :: "Block \<Rightarrow> bool" where
  "numbers_ok b \<longleftrightarrow> (\<forall>t \<in> set (b_Transactions b). number_ok (tx_Number t))"

subsection \<open>The loops as one loop\<close>

type_synonym block_write = "Transaction \<times> string \<times> KVWrite"

definition block_writes :: "Block \<Rightarrow> block_write list" where
  "block_writes b = concat (map (\<lambda>tx. map (Pair tx) (writes_of tx)) (filter tx_Valid (b_Transactions b)))"

definition insert1 :: "string \<Rightarrow> u64 \<Rightarrow> block_write \<Rightarrow> row list \<Rightarrow> row list res" where
  "insert1 ch n x = (case x of (tx, ns, w) \<Rightarrow> insertWrite ch n tx ns w)"

lemma insertTx_flat:
  "for_each (\<lambda>nsrws. for_each (insertWrite ch n tx (ns_Namespace nsrws)) (Writes (ns_RWS nsrws)))
     (tx_NsRWS tx) rows = for_each (insert1 ch n) (map (Pair tx) (writes_of tx)) rows"
  unfolding writes_of_def map_concat for_each_concat [symmetric] map_map
  by (simp add: for_each_map insert1_def comp_def)

lemma insertBlock_flat:
  "insertBlock ch b rows = for_each (insert1 ch (b_Number b)) (block_writes b) rows"
  unfolding insertBlock_def insertTx_flat for_each_filter block_writes_def for_each_concat ..

subsection \<open>One write\<close>

definition write_pk :: "string \<Rightarrow> u64 \<Rightarrow> block_write \<Rightarrow> string \<times> string \<times> string \<times> int64 \<times> int64" where
  "write_pk ch n x = (case x of (tx, ns, w) \<Rightarrow> (ch, ns, w_Key w, uint n, tx_Number tx))"

definition write_content :: "block_write \<Rightarrow> bytes \<times> bool \<times> string" where
  "write_content x = (case x of (tx, ns, w) \<Rightarrow> (w_Value w, w_IsDelete w, tx_ID tx))"

definition row_content :: "row \<Rightarrow> bytes \<times> bool \<times> string" where
  "row_content r = (row_value r, row_is_delete r, row_tx_id r)"

definition new_row :: "string \<Rightarrow> u64 \<Rightarrow> block_write \<Rightarrow> row list \<Rightarrow> row" where
  "new_row ch n x rows = (case x of (tx, ns, w) \<Rightarrow>
     \<lparr>row_channel = ch, row_namespace = ns, row_key = w_Key w,
      row_version_block = uint n, row_version_tx = tx_Number tx,
      row_version = next_version ch ns (w_Key w) rows, row_value = w_Value w,
      row_is_delete = w_IsDelete w, row_tx_id = tx_ID tx\<rparr>)"

lemma new_row_simps [simp]:
  "row_pk (new_row ch n x rows) = write_pk ch n x"
  "row_content (new_row ch n x rows) = write_content x"
  "row_channel (new_row ch n x rows) = ch"
  "row_version_block (new_row ch n x rows) = uint n"
  by (simp_all add: new_row_def row_pk_def write_pk_def row_content_def write_content_def split: prod.splits)

lemma insert1_unfold:
  assumes "uint n < 2 ^ 63"
  shows "\<exists>e. insert1 ch n x rows =
    (case List.find (\<lambda>r. row_pk r = write_pk ch n x) rows of
       None \<Rightarrow> Inr (rows @ [new_row ch n x rows])
     | Some r \<Rightarrow> if row_content r \<noteq> write_content x then Inl e else Inr rows)"
proof -
  obtain tx ns w where x: "x = (tx, ns, w)" by (cases x)
  have pk: "(\<lambda>r. same_key ch ns (w_Key w) r \<and> row_version_block r = uint n \<and> row_version_tx r = tx_Number tx)
      = (\<lambda>r. row_pk r = write_pk ch n x)"
    by (auto simp: x same_key_def row_pk_def write_pk_def)
  have b: "bind_u64 n = Inr (uint n)" using assms by (simp add: bind_u64_def)
  show ?thesis
    unfolding insert1_def insertWrite_def b x prod.case sum.case pk [unfolded x]
    by (auto simp: new_row_def row_content_def write_content_def split: option.splits)
qed

lemma insert1_new:
  assumes "uint n < 2 ^ 63" and "write_pk ch n x \<notin> row_pk ` set rows"
  shows "insert1 ch n x rows = Inr (rows @ [new_row ch n x rows])"
proof -
  have "\<not> (\<exists>r. r \<in> set rows \<and> row_pk r = write_pk ch n x)"
    using assms(2) by force
  then have "List.find (\<lambda>r. row_pk r = write_pk ch n x) rows = None"
    by (simp add: find_None_iff)
  with insert1_unfold [OF assms(1), of ch x rows] show ?thesis by auto
qed

lemma find_by_key:
  assumes "distinct (map f rows)" and "r \<in> set rows" and "f r = a"
  shows "List.find (\<lambda>r. f r = a) rows = Some r"
  using assms by (induction rows) (auto simp: rev_image_eqI)

lemma insert1_old:
  assumes "uint n < 2 ^ 63" and "distinct (map row_pk rows)" and "r \<in> set rows"
    and "row_pk r = write_pk ch n x"
  shows "if row_content r = write_content x then insert1 ch n x rows = Inr rows
         else \<exists>e. insert1 ch n x rows = Inl e"
  using insert1_unfold [OF assms(1), of ch x rows] find_by_key [OF assms(2-4)] by auto

lemma insert1_cases [consumes 2, case_names new old]:
  assumes "insert1 ch n x rows = Inr rows'" and "uint n < 2 ^ 63"
  obtains "rows' = rows @ [new_row ch n x rows]" "write_pk ch n x \<notin> row_pk ` set rows"
  | r where "rows' = rows" "r \<in> set rows" "row_pk r = write_pk ch n x" "row_content r = write_content x"
proof (cases "List.find (\<lambda>r. row_pk r = write_pk ch n x) rows")
  case None
  with insert1_unfold [OF assms(2), of ch x rows] assms(1)
  have "rows' = rows @ [new_row ch n x rows]" by auto
  moreover from None have "write_pk ch n x \<notin> row_pk ` set rows" by (auto simp: find_None_iff)
  ultimately show ?thesis by (rule that(1))
next
  case (Some r)
  with insert1_unfold [OF assms(2), of ch x rows] assms(1)
  have "rows' = rows" "row_content r = write_content x" by (auto split: if_splits)
  moreover from Some have "r \<in> set rows" "row_pk r = write_pk ch n x"
    by (auto simp: find_Some_iff)
  ultimately show ?thesis by (intro that(2))
qed

lemma insert1_big: "\<not> uint n < 2 ^ 63 \<Longrightarrow> \<exists>e. insert1 ch n x rows = Inl e"
  by (auto simp: insert1_def insertWrite_def bind_u64_def split: prod.splits)

subsection \<open>The invariant is kept\<close>

lemma counted_snoc: "counted (xs @ [r]) \<longleftrightarrow> counted xs \<and> row_version r = int (length xs)"
  by (auto simp: counted_def)

lemma foldl_max_upt: "foldl max 0 (map int [1..<Suc n]) = int n"
  by (induction n) auto

lemma next_version_counted:
  assumes "counted (filter (same_key ch ns k) rows)"
  shows "next_version ch ns k rows = int (length (filter (same_key ch ns k) rows))"
proof (cases "length (filter (same_key ch ns k) rows)")
  case 0
  then show ?thesis by (simp add: next_version_def)
next
  case (Suc n)
  with assms have "map row_version (filter (same_key ch ns k) rows) = 0 # map int [1..<Suc n]"
    by (simp add: counted_def upt_conv_Cons del: upt_Suc)
  with Suc foldl_max_upt [of n] show ?thesis by (simp add: next_version_def del: upt_Suc)
qed

lemma rows_inv_insert1:
  assumes "rows_inv rows" and "insert1 ch n x rows = Inr rows'"
    and "uint n < 2 ^ 63" and "number_ok (tx_Number (fst x))"
  shows "rows_inv rows'"
  using assms(2,3)
proof (cases rule: insert1_cases)
  case new
  obtain tx ns w where x: "x = (tx, ns, w)" by (cases x)
  let ?r = "new_row ch n x rows"
  have "counted (filter (same_key c m k) (rows @ [?r]))" for c m k
  proof (cases "same_key c m k ?r")
    case True
    then have cmk: "c = ch" "m = ns" "k = w_Key w" by (auto simp: x new_row_def same_key_def)
    have "row_version ?r = next_version c m k rows" by (simp add: x new_row_def cmk)
    with assms(1) True show ?thesis by (simp add: rows_inv_def counted_snoc next_version_counted)
  next
    case False
    with assms(1) show ?thesis by (simp add: rows_inv_def)
  qed
  moreover have "row_fits ?r" using assms(3,4) by (simp add: x row_fits_def new_row_def)
  ultimately show ?thesis using assms(1) new by (auto simp: rows_inv_def)
next
  case old
  with assms(1) show ?thesis by simp
qed

lemma rows_inv_for_each:
  assumes "for_each (insert1 ch n) xs rows = Inr rows'" and "rows_inv rows"
    and "uint n < 2 ^ 63" and "\<forall>x \<in> set xs. number_ok (tx_Number (fst x))"
  shows "rows_inv rows'"
  by (rule for_each_invariant [where P = rows_inv, OF assms(1,2)]) (use assms(3,4) rows_inv_insert1 in blast)

text \<open>Rows are only added, and only on the handle's channel at the block's height.\<close>

definition rows_at :: "string \<Rightarrow> int64 \<Rightarrow> row list \<Rightarrow> bool" where
  "rows_at ch n new \<longleftrightarrow> (\<forall>r \<in> set new. row_channel r = ch \<and> row_version_block r = n)"

lemma for_each_extends:
  assumes "for_each (insert1 ch n) xs rows = Inr rows'" and "uint n < 2 ^ 63"
  shows "\<exists>new. rows' = rows @ new \<and> rows_at ch (uint n) new"
proof (rule for_each_invariant [OF assms(1), where P = "\<lambda>t. \<exists>new. t = rows @ new \<and> rows_at ch (uint n) new"])
  show "\<exists>new. rows = rows @ new \<and> rows_at ch (uint n) new" by (simp add: rows_at_def)
next
  fix x t t' assume "\<exists>new. t = rows @ new \<and> rows_at ch (uint n) new" and i: "insert1 ch n x t = Inr t'"
  then obtain new where t: "t = rows @ new" "rows_at ch (uint n) new" by blast
  from i assms(2) show "\<exists>new. t' = rows @ new \<and> rows_at ch (uint n) new"
    by (cases rule: insert1_cases) (use t in \<open>auto simp: rows_at_def\<close>)
qed

lemma UpdateWorldState_cases [consumes 1, case_names ok failed]:
  assumes "UpdateWorldState db b = (db', e)"
  obtains new where "e = None" "uint (b_Number b) < 2 ^ 63"
      "for_each (insert1 (db_channel db) (b_Number b)) (block_writes b) (worldstate db) = Inr (worldstate db @ new)"
      "rows_at (db_channel db) (uint (b_Number b)) new"
      "db' = db\<lparr>worldstate := worldstate db @ new, channel_progress :=
         upsertProgress (db_channel db) (uint (b_Number b)) (channel_progress db)\<rparr>"
  | err where "e = Some err" "db' = db"
proof (cases e)
  case (Some err)
  with assms show ?thesis
    by (intro that(2)) (auto simp: UpdateWorldState_def split: sum.splits)
next
  case None
  with assms obtain rows where n: "uint (b_Number b) < 2 ^ 63"
    and f: "for_each (insert1 (db_channel db) (b_Number b)) (block_writes b) (worldstate db) = Inr rows"
    and d: "db' = db\<lparr>worldstate := rows, channel_progress :=
         upsertProgress (db_channel db) (uint (b_Number b)) (channel_progress db)\<rparr>"
    by (auto simp: UpdateWorldState_def insertBlock_flat bind_u64_def split: sum.splits if_splits)
  from for_each_extends [OF f n] obtain new
    where "rows = worldstate db @ new" "rows_at (db_channel db) (uint (b_Number b)) new" by blast
  with n f d None show ?thesis by (intro that(1)) auto
qed

lemma progress_inv_upsert:
  assumes "progress_inv rows prog" and "rows_at ch n new" and "0 \<le> n" and "n < 2 ^ 63"
  shows "progress_inv (rows @ new) (upsertProgress ch n prog)"
proof -
  have "\<exists>m. upsertProgress ch n prog (row_channel r) = Some m \<and> row_version_block r \<le> m"
    if "r \<in> set (rows @ new)" for r
    using that assms(1,2)
    by (fastforce simp: progress_inv_def rows_at_def upsertProgress_def split: option.splits)
  moreover have "0 \<le> m \<and> m < 2 ^ 63" if "upsertProgress ch n prog c = Some m" for c m
    using that assms(1,3,4)
    by (auto simp: progress_inv_def upsertProgress_def split: option.splits if_splits)
  ultimately show ?thesis by (auto simp: progress_inv_def)
qed

lemma block_writes_numbers:
  "numbers_ok b \<Longrightarrow> \<forall>x \<in> set (block_writes b). number_ok (tx_Number (fst x))"
  by (auto simp: numbers_ok_def block_writes_def)

lemma db_inv_UpdateWorldState [inv_intros]:
  assumes "db_inv db" and "numbers_ok b" and "UpdateWorldState db b = (db', e)"
  shows "db_inv db'"
  using assms(3)
proof (cases rule: UpdateWorldState_cases)
  case (ok new)
  with assms(1) rows_inv_for_each [OF ok(3) _ ok(2) block_writes_numbers [OF assms(2)]]
    progress_inv_upsert [OF _ ok(4), of "worldstate db" "channel_progress db"]
  show ?thesis by (simp add: db_inv_def)
next
  case failed
  with assms(1) show ?thesis by simp
qed

lemma db_inv_NewWriteDB [inv_intros]: "db_inv (NewWriteDB ch)"
  by (simp add: db_inv_def NewWriteDB_def rows_inv_def progress_inv_def counted_def)

subsection \<open>Reads against the history of a key\<close>

definition record_of :: "row \<Rightarrow> WriteRecord" where
  "record_of r = \<lparr>wr_Namespace = row_namespace r, wr_Key = row_key r,
     wr_BlockNum = word_of_int (row_version_block r), wr_TxNum = word_of_int (row_version_tx r),
     wr_Version = word_of_int (row_version r), wr_Value = row_value r,
     wr_IsDelete = row_is_delete r, wr_TxID = row_tx_id r\<rparr>"

definition last_record :: "row list \<Rightarrow> WriteRecord option" where
  "last_record rows = (if rows = [] then None else Some (record_of (last rows)))"

definition history :: "VersionedDB \<Rightarrow> string \<times> string \<Rightarrow> WriteRecord list" where
  "history db = (\<lambda>(ns, k). map record_of (key_rows db ns k))"

text \<open>Sublists of a counted list have strictly increasing versions, so the latest is the last.\<close>

definition ascending :: "row list \<Rightarrow> bool" where
  "ascending rows \<longleftrightarrow> sorted_wrt (<) (map row_version rows) \<and> (\<forall>r \<in> set rows. 0 \<le> row_version r)"

lemma ascending_counted: "counted rows \<Longrightarrow> ascending rows"
proof -
  assume c: "counted rows"
  have "sorted_wrt (<) (map int [0..<n])" for n by (simp add: sorted_wrt_map strict_sorted_iff)
  moreover from c have "row_version ` set rows = int ` {0..<length rows}"
    by (metis counted_def list.set_map set_upt)
  ultimately show ?thesis using c unfolding ascending_def
    by (metis counted_def image_eqI image_iff of_nat_0_le_iff)
qed

lemma ascending_filter: "ascending rows \<Longrightarrow> ascending (filter P rows)"
  by (auto simp: ascending_def sorted_wrt_map sorted_wrt_filter)

lemma latest_ascending:
  "ascending rows \<Longrightarrow> latest rows = (if rows = [] then None else Some (last rows))"
  by (induction rows) (fastforce simp: ascending_def split: option.splits if_splits)+

lemma scanRow_fits: "row_fits r \<Longrightarrow> 0 \<le> row_version r \<Longrightarrow> scanRow r = Inr (record_of r)"
  by (simp add: scanRow_def scan_u64_def record_of_def row_fits_def)

lemma queryLatest_ascending:
  assumes "ascending rows" and "\<forall>r \<in> set rows. row_fits r"
  shows "queryLatest wrap rows = Inr (last_record rows)"
  using assms latest_ascending [OF assms(1)] scanRow_fits [of "last rows"]
  by (auto simp: queryLatest_def last_record_def ascending_def)

lemma rows_inv_key:
  assumes "rows_inv rows"
  shows "ascending (filter (same_key ch ns k) rows)"
    and "\<forall>r \<in> set (filter (same_key ch ns k) rows). row_fits r"
  using assms by (auto simp: rows_inv_def intro: ascending_counted)

lemma db_Get_inv:
  assumes "db_inv db"
  shows "db_Get db ns k = Inr (last_record (key_rows db ns k))"
proof -
  from assms have "rows_inv (worldstate db)" by (simp add: db_inv_def)
  from queryLatest_ascending [OF rows_inv_key [OF this]] show ?thesis by (simp add: db_Get_def)
qed

lemma GetAt_inv:
  assumes "db_inv db" and "uint h < 2 ^ 63"
  shows "GetAt db ns k h =
    Inr (last_record (filter (\<lambda>r. row_version_block r \<le> uint h) (key_rows db ns k)))"
proof -
  have "filter (\<lambda>r. same_key (db_channel db) ns k r \<and> row_version_block r \<le> uint h) (worldstate db)
     = filter (\<lambda>r. row_version_block r \<le> uint h) (key_rows db ns k)"
    by (simp add: conj_commute)
  moreover have "queryLatest wrap (filter (\<lambda>r. row_version_block r \<le> uint h) (key_rows db ns k))
     = Inr (last_record (filter (\<lambda>r. row_version_block r \<le> uint h) (key_rows db ns k)))" for wrap
  proof (rule queryLatest_ascending [OF ascending_filter])
    from assms(1) have "rows_inv (worldstate db)" by (simp add: db_inv_def)
    from rows_inv_key [OF this] show "ascending (key_rows db ns k)"
      and "\<forall>r \<in> set (filter (\<lambda>r. row_version_block r \<le> uint h) (key_rows db ns k)). row_fits r"
      by auto
  qed
  ultimately show ?thesis using assms(2) by (simp add: GetAt_def bind_u64_def)
qed

lemma db_Get_history:
  assumes "db_inv db"
  shows "db_Get db ns k = Inr (if history db (ns, k) = [] then None else Some (last (history db (ns, k))))"
  using assms by (simp add: db_Get_inv last_record_def history_def last_map)

subsection \<open>Heights and snapshots\<close>

lemma BlockNumber_inv:
  assumes "db_inv db"
  shows "\<exists>n. BlockNumber db = Inr n \<and> uint n < 2 ^ 63
    \<and> (\<forall>r \<in> set (worldstate db). row_channel r = db_channel db \<longrightarrow> row_version_block r \<le> uint n)"
proof (cases "channel_progress db (db_channel db)")
  case None
  with assms show ?thesis by (fastforce simp: BlockNumber_def db_inv_def progress_inv_def)
next
  case (Some n)
  with assms have n: "0 \<le> n" "n < 2 ^ 63" by (auto simp: db_inv_def progress_inv_def)
  then have "uint (word_of_int n :: u64) = n" by (simp add: uint_word_of_int)
  with Some n assms show ?thesis by (fastforce simp: BlockNumber_def db_inv_def progress_inv_def)
qed

lemma BlockNumber_fresh:
  "uint n < 2 ^ 63 \<Longrightarrow> channel_progress db (db_channel db) = Some (uint n) \<Longrightarrow> BlockNumber db = Inr n"
  by (simp add: BlockNumber_def)

lemma Snapshot_current:
  assumes "db_inv db" and "Snapshot db = Inr s"
  shows "snapshot_Get db s ns k = db_Get db ns k"
proof -
  from BlockNumber_inv [OF assms(1)] assms(2) have s: "uint s < 2 ^ 63"
    "\<And>r. r \<in> set (key_rows db ns k) \<Longrightarrow> row_version_block r \<le> uint s"
    by (auto simp: Snapshot_def same_key_def)
  then have "filter (\<lambda>r. row_version_block r \<le> uint s) (key_rows db ns k) = key_rows db ns k"
    by (intro filter_True) blast
  with assms s show ?thesis by (simp add: snapshot_Get_def GetAt_inv db_Get_inv)
qed

lemma GetAt_stable:
  assumes "UpdateWorldState db b = (db', e)" and "h < b_Number b"
  shows "GetAt db' ns k h = GetAt db ns k h"
  using assms(1)
proof (cases rule: UpdateWorldState_cases)
  case (ok new)
  from assms(2) have "uint h < uint (b_Number b)" by (simp add: word_less_def)
  with ok have "filter (\<lambda>r. same_key (db_channel db) ns k r \<and> row_version_block r \<le> uint h) new = []"
    by (auto simp: filter_empty_conv rows_at_def)
  with ok show ?thesis by (simp add: GetAt_def bind_u64_def)
next
  case failed
  then show ?thesis by simp
qed

subsection \<open>The store is a KVS\<close>

lemma db_Get_total: "db_inv db \<Longrightarrow> get_total (db_Get db)"
  by (simp add: get_total_def db_Get_inv)

interpretation vdb: kvs db_inv db_Handle numbers_ok db_Get BlockNumber Snapshot "\<lambda>s. s" snapshot_Get
proof unfold_locales
  show "db_inv db'" if "db_inv db" "numbers_ok b" "db_Handle db b = (db', e)" for db b db' e
    using that by (auto simp: db_Handle_def intro: inv_intros)
  show "get_total (db_Get db)" if "db_inv db" for db
    using that by (rule db_Get_total)
  show "\<exists>s. Snapshot db = Inr s \<and> BlockNumber db = Inr s" if "db_inv db" for db
    using BlockNumber_inv [OF that] by (auto simp: Snapshot_def)
  show "snapshot_Get db s = db_Get db" if "db_inv db" "Snapshot db = Inr s" for db s
    using Snapshot_current [OF that] by (intro ext)
  show "snapshot_Get db' s = snapshot_Get db s"
    if "db_inv db" "db_Handle db b = (db', e)" "s < b_Number b" for db b db' e s
    using GetAt_stable that(2,3) by (intro ext) (simp add: db_Handle_def snapshot_Get_def)
qed

definition HandleAll :: "VersionedDB \<Rightarrow> Block list \<Rightarrow> VersionedDB" where
  "HandleAll db bs = foldl (\<lambda>db b. fst (db_Handle db b)) db bs"

lemma HandleAll_vdb: "HandleAll = handle_all db_Handle"
  by (intro ext) (simp add: HandleAll_def handle_all_def)

lemma HandleAll_simps [simp]:
  "HandleAll db [] = db"
  "HandleAll db (b # bs) = HandleAll (fst (db_Handle db b)) bs"
  by (simp_all add: HandleAll_def)

lemma db_Handle_channel [simp]: "db_channel (fst (db_Handle db b)) = db_channel db"
  by (auto simp: db_Handle_def UpdateWorldState_def split: sum.splits)

lemma HandleAll_channel [simp]: "db_channel (HandleAll db bs) = db_channel db"
  by (induction bs arbitrary: db) simp_all

text \<open>The height never goes down.\<close>

lemma upsertProgress_mono:
  "prog ch = Some n \<Longrightarrow> \<exists>m. upsertProgress c i prog ch = Some m \<and> n \<le> m"
  by (auto simp: upsertProgress_def split: option.splits)

lemma progress_mono_Handle:
  "channel_progress db ch = Some n \<Longrightarrow> \<exists>m. channel_progress (fst (db_Handle db b)) ch = Some m \<and> n \<le> m"
  using upsertProgress_mono by (fastforce simp: db_Handle_def UpdateWorldState_def split: sum.splits)

lemma progress_mono:
  "channel_progress db ch = Some n \<Longrightarrow> \<exists>m. channel_progress (HandleAll db bs) ch = Some m \<and> n \<le> m"
proof (induction bs arbitrary: db n)
  case (Cons b bs)
  from progress_mono_Handle [OF Cons.prems, of b] Cons.IH show ?case by (fastforce intro: order_trans)
qed simp

lemma BlockNumber_uint:
  assumes "db_inv db"
  shows "BlockNumber db =
    Inr (word_of_int (case channel_progress db (db_channel db) of None \<Rightarrow> 0 | Some n \<Rightarrow> n))"
  using assms by (force simp: BlockNumber_def db_inv_def progress_inv_def split: option.splits)

lemma progress_uint:
  assumes "db_inv db" and "channel_progress db ch = Some n"
  shows "uint (word_of_int n :: u64) = n"
proof -
  from assms have "0 \<le> n" "n < 2 ^ 63" by (auto simp: db_inv_def progress_inv_def)
  then show ?thesis by (simp add: uint_word_of_int)
qed

lemma BlockNumber_mono:
  assumes "db_inv db" and "BlockNumber db = Inr n" and "\<forall>b \<in> set bs. numbers_ok b"
  shows "\<exists>m. BlockNumber (HandleAll db bs) = Inr m \<and> n \<le> m"
proof -
  have inv': "db_inv (HandleAll db bs)" unfolding HandleAll_vdb by (rule vdb.handle_all_inv [OF assms(1,3)])
  show ?thesis
  proof (cases "channel_progress db (db_channel db)")
    case None
    then have "n = 0" using assms(1,2) by (simp add: BlockNumber_uint)
    then show ?thesis using BlockNumber_uint [OF inv'] by auto
  next
    case (Some i)
    from progress_mono [OF Some, of bs] obtain j
      where j: "channel_progress (HandleAll db bs) (db_channel db) = Some j" "i \<le> j" by blast
    have "n = word_of_int i" using assms(1,2) Some by (simp add: BlockNumber_uint)
    moreover have "(word_of_int i :: u64) \<le> word_of_int j"
      using progress_uint [OF assms(1) Some] progress_uint [OF inv' j(1)] j(2)
      by (simp add: word_le_def)
    ultimately show ?thesis using BlockNumber_uint [OF inv'] j(1) by simp
  qed
qed

text \<open>
  C12: A view of the database at the height of one moment is the state of that moment, for ever:
  after any number of later blocks, \<open>SnapshotAt\<close> still serves that height, and every read of it
  returns what \<open>Get\<close> returned then. In particular a snapshot opened then does not change.
\<close>

theorem SnapshotAt_time_travel:
  assumes "db_inv db" and "BlockNumber db = Inr n"
    and "\<forall>b \<in> set bs. numbers_ok b \<and> n < b_Number b"
  shows "SnapshotAt (HandleAll db bs) n = Inr n
    \<and> snapshot_Get (HandleAll db bs) n ns k = db_Get db ns k"
proof
  from assms(3) have ok: "\<forall>b \<in> set bs. numbers_ok b" by blast
  from BlockNumber_mono [OF assms(1,2) ok] show "SnapshotAt (HandleAll db bs) n = Inr n"
    by (auto simp: SnapshotAt_def min_def)
  from assms(2) have "Snapshot db = Inr n" by (simp add: Snapshot_def)
  from vdb.snapshot_isolation [OF assms(1) this assms(3)]
  show "snapshot_Get (HandleAll db bs) n ns k = db_Get db ns k" by (simp add: HandleAll_vdb)
qed

subsection \<open>Conflicting and repeated writes\<close>

text \<open>
  A cell is a primary key with the content stored or to be stored there. A block disagrees with the
  table when one of its cells has another content in the table or elsewhere in the block.
\<close>

definition clash :: "('p \<times> 'c) set \<Rightarrow> ('p \<times> 'c) set \<Rightarrow> bool" where
  "clash A B \<longleftrightarrow> (\<exists>p c c'. (p, c) \<in> B \<and> (p, c') \<in> A \<union> B \<and> c \<noteq> c')"

definition disagrees :: "string \<Rightarrow> u64 \<Rightarrow> row list \<Rightarrow> block_write list \<Rightarrow> bool" where
  "disagrees ch n rows xs \<longleftrightarrow> clash ((\<lambda>r. (row_pk r, row_content r)) ` set rows)
     ((\<lambda>x. (write_pk ch n x, write_content x)) ` set xs)"

lemma clash_insert_old: "(p, c) \<in> A \<Longrightarrow> clash A (insert (p, c) B) \<longleftrightarrow> clash A B \<or> (\<exists>c'. (p, c') \<in> A \<and> c \<noteq> c')"
  unfolding clash_def by blast

lemma clash_insert_new: "p \<notin> fst ` A \<Longrightarrow> clash A (insert (p, c) B) \<longleftrightarrow> clash (insert (p, c) A) B"
  unfolding clash_def by (force simp: image_iff)

lemma clash_insert_hit: "(p, c') \<in> A \<Longrightarrow> c \<noteq> c' \<Longrightarrow> clash A (insert (p, c) B)"
  unfolding clash_def by blast

lemma disagrees_Cons_old:
  assumes "distinct (map row_pk rows)" and "r \<in> set rows" and "row_pk r = write_pk ch n x"
  shows "disagrees ch n rows (x # xs) \<longleftrightarrow> disagrees ch n rows xs \<or> row_content r \<noteq> write_content x"
proof -
  let ?A = "(\<lambda>r. (row_pk r, row_content r)) ` set rows"
  have u: "(write_pk ch n x, c) \<in> ?A \<longleftrightarrow> c = row_content r" for c
    using assms by (force simp: image_iff distinct_map dest: inj_onD)
  show ?thesis
  proof (cases "row_content r = write_content x")
    case True
    with u clash_insert_old [of "write_pk ch n x" "write_content x" ?A] show ?thesis
      by (simp add: disagrees_def)
  next
    case False
    have "(write_pk ch n x, row_content r) \<in> ?A" by (simp add: u)
    from clash_insert_hit [OF this] False show ?thesis by (simp add: disagrees_def)
  qed
qed

lemma disagrees_Cons_new:
  assumes "write_pk ch n x \<notin> row_pk ` set rows"
  shows "disagrees ch n rows (x # xs) \<longleftrightarrow> disagrees ch n (rows @ [new_row ch n x rows]) xs"
  using assms by (simp add: disagrees_def clash_insert_new image_image)

lemma distinct_pk_insert1:
  assumes "insert1 ch n x rows = Inr rows'" and "uint n < 2 ^ 63" and "distinct (map row_pk rows)"
  shows "distinct (map row_pk rows')"
  using assms(1,2) by (cases rule: insert1_cases) (use assms(3) in auto)

lemma for_each_fails_iff:
  assumes "uint n < 2 ^ 63" and "distinct (map row_pk rows)"
  shows "(\<exists>e. for_each (insert1 ch n) xs rows = Inl e) \<longleftrightarrow> disagrees ch n rows xs"
  using assms(2)
proof (induction xs arbitrary: rows)
  case Nil
  then show ?case by (simp add: disagrees_def clash_def)
next
  case (Cons x xs)
  show ?case
  proof (cases "write_pk ch n x \<in> row_pk ` set rows")
    case False
    note new = insert1_new [OF assms(1) this]
    with Cons.IH [OF distinct_pk_insert1 [OF new assms(1) Cons.prems]]
    show ?thesis by (simp add: disagrees_Cons_new [OF False])
  next
    case True
    then obtain r where r: "r \<in> set rows" "row_pk r = write_pk ch n x" by (metis imageE)
    note old = insert1_old [OF assms(1) Cons.prems r]
    with Cons.IH [OF Cons.prems] disagrees_Cons_old [OF Cons.prems r, of xs] show ?thesis
      by (auto split: if_splits)
  qed
qed


text \<open>Every write of a committed block has its row, and a block whose writes all have rows is a no-op.\<close>

definition has_row :: "string \<Rightarrow> u64 \<Rightarrow> row list \<Rightarrow> block_write \<Rightarrow> bool" where
  "has_row ch n rows x \<longleftrightarrow> (\<exists>r \<in> set rows. row_pk r = write_pk ch n x \<and> row_content r = write_content x)"

lemma has_row_mono: "has_row ch n rows x \<Longrightarrow> set rows \<subseteq> set rows' \<Longrightarrow> has_row ch n rows' x"
  unfolding has_row_def by blast

lemma for_each_has_row:
  assumes "for_each (insert1 ch n) xs rows = Inr rows'" and "uint n < 2 ^ 63"
  shows "\<forall>x \<in> set xs. has_row ch n rows' x"
  using assms(1)
proof (induction xs arbitrary: rows)
  case (Cons x xs)
  then obtain t where t: "insert1 ch n x rows = Inr t" "for_each (insert1 ch n) xs t = Inr rows'"
    by (auto split: sum.splits)
  from t(1) assms(2) have "has_row ch n t x"
    by (cases rule: insert1_cases) (auto simp: has_row_def)
  moreover from for_each_extends [OF t(2) assms(2)] have "set t \<subseteq> set rows'" by auto
  ultimately show ?case using Cons.IH [OF t(2)] has_row_mono by auto
qed simp

lemma for_each_noop:
  assumes "\<forall>x \<in> set xs. has_row ch n rows x" and "distinct (map row_pk rows)" and "uint n < 2 ^ 63"
  shows "for_each (insert1 ch n) xs rows = Inr rows"
  using assms(1)
proof (induction xs)
  case (Cons x xs)
  then obtain r where "r \<in> set rows" "row_pk r = write_pk ch n x" "row_content r = write_content x"
    by (auto simp: has_row_def)
  with insert1_old [OF assms(3,2)] have "insert1 ch n x rows = Inr rows" by metis
  with Cons show ?case by simp
qed simp

lemma worldstate_grows: "set (worldstate db) \<subseteq> set (worldstate (HandleAll db bs))"
proof (induction bs arbitrary: db)
  case (Cons b bs)
  obtain db' e where h: "UpdateWorldState db b = (db', e)" by fastforce
  then have "set (worldstate db) \<subseteq> set (worldstate db')"
    by (cases rule: UpdateWorldState_cases) auto
  with Cons.IH [of db'] h show ?case by (simp add: db_Handle_def)
qed simp

lemma UpdateWorldState_replay:
  assumes "db_inv db" and "numbers_ok b" and "UpdateWorldState db b = (db1, None)"
    and "\<forall>b \<in> set bs. numbers_ok b"
  shows "UpdateWorldState (HandleAll db1 bs) b = (HandleAll db1 bs, None)"
proof -
  let ?db = "HandleAll db1 bs" and ?n = "uint (b_Number b)"
  have "db_inv db1" using assms(1-3) by (rule db_inv_UpdateWorldState)
  then have inv: "db_inv ?db" unfolding HandleAll_vdb by (rule vdb.handle_all_inv [OF _ assms(4)])
  from assms(3) obtain new where n: "?n < 2 ^ 63"
    and f: "for_each (insert1 (db_channel db) (b_Number b)) (block_writes b) (worldstate db) = Inr (worldstate db1)"
    and ch: "db_channel db1 = db_channel db"
    and p: "channel_progress db1 = upsertProgress (db_channel db) ?n (channel_progress db)"
    by (cases rule: UpdateWorldState_cases) auto
  have "\<exists>m. channel_progress db1 (db_channel db) = Some m \<and> ?n \<le> m"
    unfolding p by (auto simp: upsertProgress_def split: option.splits)
  with progress_mono [of db1 "db_channel db" _ bs]
  obtain m where m: "channel_progress ?db (db_channel db) = Some m" "?n \<le> m" by (meson order_trans)
  have "\<forall>x \<in> set (block_writes b). has_row (db_channel db) (b_Number b) (worldstate ?db) x"
    using for_each_has_row [OF f n] has_row_mono [OF _ worldstate_grows] by blast
  from for_each_noop [OF this _ n] inv
  have "insertBlock (db_channel ?db) b (worldstate ?db) = Inr (worldstate ?db)"
    by (simp add: insertBlock_flat ch db_inv_def rows_inv_def)
  with n m ch show ?thesis
    by (simp add: UpdateWorldState_def bind_u64_def upsertProgress_def)
qed

text \<open>
  C13: Redelivery is harmless. Once a block has been committed, handing it to the database again
  succeeds and changes nothing, also after any number of other blocks, in whatever order.
\<close>

theorem UpdateWorldState_idempotent:
  assumes "db_inv db" and "numbers_ok b" and "UpdateWorldState db b = (db1, None)"
    and "\<forall>b \<in> set bs. numbers_ok b"
  shows "UpdateWorldState (HandleAll db1 bs) b = (HandleAll db1 bs, None)"
  using assms by (rule UpdateWorldState_replay)

subsection \<open>Refinement of an append-only history\<close>

text \<open>
  The abstract store maps a namespace and a key to the list of its records. A committed write
  appends one record, whose version is the number of records before it.
\<close>

type_synonym world = "string \<times> string \<Rightarrow> WriteRecord list"

definition append_write :: "u64 \<Rightarrow> block_write \<Rightarrow> world \<Rightarrow> world" where
  "append_write n x H = (case x of (tx, ns, w) \<Rightarrow>
     H((ns, w_Key w) := H (ns, w_Key w) @
       [\<lparr>wr_Namespace = ns, wr_Key = w_Key w, wr_BlockNum = n, wr_TxNum = word_of_int (tx_Number tx),
         wr_Version = of_nat (length (H (ns, w_Key w))), wr_Value = w_Value w,
         wr_IsDelete = w_IsDelete w, wr_TxID = tx_ID tx\<rparr>]))"

definition commit_block :: "Block \<Rightarrow> world \<Rightarrow> world" where
  "commit_block b = fold (append_write (b_Number b)) (block_writes b)"

definition rows_world :: "string \<Rightarrow> row list \<Rightarrow> world" where
  "rows_world ch rows = (\<lambda>(ns, k). map record_of (filter (same_key ch ns k) rows))"

lemma history_rows: "history db = rows_world (db_channel db) (worldstate db)"
  by (simp add: history_def rows_world_def)

lemma rows_world_new:
  assumes "rows_inv rows"
  shows "rows_world ch (rows @ [new_row ch n x rows]) = append_write n x (rows_world ch rows)"
proof -
  obtain tx ns w where x: "x = (tx, ns, w)" by (cases x)
  have "next_version ch ns (w_Key w) rows = int (length (filter (same_key ch ns (w_Key w)) rows))"
    using assms by (intro next_version_counted) (simp add: rows_inv_def)
  then have "rows_world ch (rows @ [new_row ch n x rows]) (m, k) = append_write n x (rows_world ch rows) (m, k)"
    for m k
    by (cases "(m, k) = (ns, w_Key w)")
      (auto simp: x rows_world_def append_write_def new_row_def record_of_def
        same_key_def)
  then show ?thesis by (intro ext) (metis surj_pair)
qed

lemma for_each_fresh:
  assumes "uint n < 2 ^ 63" and "rows_inv rows" and "\<forall>x \<in> set xs. number_ok (tx_Number (fst x))"
    and "distinct (map (write_pk ch n) xs)"
    and "\<forall>x \<in> set xs. write_pk ch n x \<notin> row_pk ` set rows"
  shows "\<exists>rows'. for_each (insert1 ch n) xs rows = Inr rows'
    \<and> rows_world ch rows' = fold (append_write n) xs (rows_world ch rows)"
  using assms(2-)
proof (induction xs arbitrary: rows)
  case (Cons x xs)
  let ?rows = "rows @ [new_row ch n x rows]"
  have ins: "insert1 ch n x rows = Inr ?rows" using Cons.prems(4) by (intro insert1_new assms(1)) auto
  have "rows_inv ?rows" using rows_inv_insert1 [OF Cons.prems(1) ins assms(1)] Cons.prems(2) by simp
  moreover have "\<forall>x \<in> set xs. write_pk ch n x \<notin> row_pk ` set ?rows"
    using Cons.prems(3,4) by (auto simp: image_iff)
  ultimately have "\<exists>rows'. for_each (insert1 ch n) xs ?rows = Inr rows'
      \<and> rows_world ch rows' = fold (append_write n) xs (rows_world ch ?rows)"
    using Cons.prems by (intro Cons.IH) auto
  with ins Cons.prems(1) show ?case by (simp add: rows_world_new)
qed simp

definition next_block :: "VersionedDB \<Rightarrow> Block \<Rightarrow> bool" where
  "next_block db b \<longleftrightarrow> uint (b_Number b) < 2 ^ 63
     \<and> (case channel_progress db (db_channel db) of None \<Rightarrow> True | Some n \<Rightarrow> n < uint (b_Number b))"

definition single_writes :: "Block \<Rightarrow> bool" where
  "single_writes b \<longleftrightarrow> distinct (map (\<lambda>(tx, ns, w). (tx_Number tx, ns, w_Key w)) (block_writes b))"

lemma next_block_fresh:
  assumes "db_inv db" and "next_block db b" and "r \<in> set (worldstate db)" and "row_channel r = db_channel db"
  shows "row_version_block r < uint (b_Number b)"
  using assms by (fastforce simp: db_inv_def progress_inv_def next_block_def)

lemma single_writes_pk:
  assumes "single_writes b"
  shows "distinct (map (write_pk ch n) (block_writes b))"
proof -
  let ?f = "\<lambda>(tx, ns, w). (tx_Number tx, ns, w_Key w)"
  let ?g = "\<lambda>(t, ns, k). (ch, ns, k, uint n, t)"
  have "map (write_pk ch n) (block_writes b) = map ?g (map ?f (block_writes b))"
    by (simp add: write_pk_def split_beta)
  also have "distinct \<dots>"
    unfolding distinct_map [of ?g] using assms by (auto simp: single_writes_def inj_on_def)
  finally show ?thesis .
qed

lemma UpdateWorldState_commits:
  assumes "db_inv db" and "numbers_ok b" and "next_block db b" and "single_writes b"
  shows "\<exists>db'. UpdateWorldState db b = (db', None) \<and> history db' = commit_block b (history db)
    \<and> BlockNumber db' = Inr (b_Number b)"
proof -
  let ?ch = "db_channel db" and ?n = "b_Number b"
  have n: "uint ?n < 2 ^ 63" using assms(3) by (simp add: next_block_def)
  have "write_pk ?ch ?n x \<notin> row_pk ` set (worldstate db)" for x
    using next_block_fresh [OF assms(1,3)] by (force simp: write_pk_def row_pk_def split: prod.splits)
  with for_each_fresh [OF n _ block_writes_numbers [OF assms(2)] single_writes_pk [OF assms(4)]] assms(1)
  obtain rows' where r: "for_each (insert1 ?ch ?n) (block_writes b) (worldstate db) = Inr rows'"
      "rows_world ?ch rows' = fold (append_write ?n) (block_writes b) (rows_world ?ch (worldstate db))"
    unfolding db_inv_def by meson
  let ?db' = "db\<lparr>worldstate := rows', channel_progress := upsertProgress ?ch (uint ?n) (channel_progress db)\<rparr>"
  have "UpdateWorldState db b = (?db', None)"
    using n r(1) by (simp add: UpdateWorldState_def insertBlock_flat bind_u64_def)
  moreover have "history ?db' = commit_block b (history db)"
    using r(2) by (simp add: history_rows commit_block_def)
  moreover have "BlockNumber ?db' = Inr ?n"
    using assms(3) n by (intro BlockNumber_fresh)
      (auto simp: upsertProgress_def next_block_def split: option.splits)
  ultimately show ?thesis by blast
qed


subsection \<open>The order of a history\<close>

text \<open>
  When blocks arrive in increasing order and the valid transactions of each are numbered in
  increasing order, the rows of a key are inserted in the order of block and transaction.
\<close>

definition row_pos :: "row \<Rightarrow> int64 \<times> int64" where
  "row_pos r = (row_version_block r, row_version_tx r)"

definition in_order :: "string \<Rightarrow> row list \<Rightarrow> bool" where
  "in_order ch rows \<longleftrightarrow> (\<forall>ns k. sorted_wrt (<) (map row_pos (filter (same_key ch ns k) rows)))"

definition numbered :: "Block \<Rightarrow> bool" where
  "numbered b \<longleftrightarrow> sorted (map tx_Number (filter tx_Valid (b_Transactions b)))"

lemma sorted_block_writes:
  assumes "sorted (map tx_Number txs)"
  shows "sorted (map (\<lambda>x. tx_Number (fst x)) (concat (map (\<lambda>tx. map (Pair tx) (writes_of tx)) txs)))"
  using assms by (induction txs) (auto simp: sorted_append comp_def map_replicate_const)

lemma in_order_insert1:
  assumes "insert1 ch n x rows = Inr rows'" and "uint n < 2 ^ 63" and "in_order ch rows"
    and "\<forall>r \<in> set rows. row_channel r = ch \<longrightarrow> row_pos r \<le> (uint n, tx_Number (fst x))"
  shows "in_order ch rows'"
  using assms(1,2)
proof (cases rule: insert1_cases)
  case new
  obtain tx ns w where x: "x = (tx, ns, w)" by (cases x)
  let ?r = "new_row ch n x rows"
  have pos: "row_pos ?r = (uint n, tx_Number (fst x))" by (simp add: x new_row_def row_pos_def)
  have "row_pos r < row_pos ?r" if r: "r \<in> set rows" "same_key ch m k r" "same_key ch m k ?r" for r m k
  proof -
    have "row_pk r \<noteq> row_pk ?r" using r(1) new(2) by force
    with r have "row_pos r \<noteq> row_pos ?r" by (auto simp: row_pk_def row_pos_def same_key_def)
    moreover have "row_pos r \<le> row_pos ?r" using assms(4) r unfolding pos by (simp add: same_key_def)
    ultimately show ?thesis by simp
  qed
  with assms(3) new(1) show ?thesis by (auto simp: in_order_def sorted_wrt_append)
next
  case old
  with assms(3) show ?thesis by simp
qed

lemma in_order_for_each:
  assumes "for_each (insert1 ch n) xs rows = Inr rows'" and "uint n < 2 ^ 63" and "in_order ch rows"
    and "sorted (map (\<lambda>x. tx_Number (fst x)) xs)"
    and "\<forall>r \<in> set rows. row_channel r = ch \<longrightarrow> (\<forall>x \<in> set xs. row_pos r \<le> (uint n, tx_Number (fst x)))"
  shows "in_order ch rows'"
  using assms(1,3-)
proof (induction xs arbitrary: rows)
  case (Cons x xs)
  then obtain t where t: "insert1 ch n x rows = Inr t" "for_each (insert1 ch n) xs t = Inr rows'"
    by (auto split: sum.splits)
  have "in_order ch t" using in_order_insert1 [OF t(1) assms(2) Cons.prems(2)] Cons.prems(4) by simp
  moreover have "\<forall>r \<in> set t. row_channel r = ch \<longrightarrow> (\<forall>y \<in> set xs. row_pos r \<le> (uint n, tx_Number (fst y)))"
    using t(1) assms(2)
  proof (cases rule: insert1_cases)
    case new
    have "row_pos (new_row ch n x rows) = (uint n, tx_Number (fst x))"
      by (cases x) (simp add: new_row_def row_pos_def)
    with new Cons.prems(3,4) show ?thesis by auto
  next
    case old
    with Cons.prems(4) show ?thesis by simp
  qed
  ultimately show ?case using Cons.IH [OF t(2)] Cons.prems(3) by simp
qed simp

lemma in_order_UpdateWorldState:
  assumes "db_inv db" and "in_order (db_channel db) (worldstate db)" and "next_block db b" and "numbered b"
    and "UpdateWorldState db b = (db', e)"
  shows "in_order (db_channel db') (worldstate db')"
  using assms(5)
proof (cases rule: UpdateWorldState_cases)
  case (ok new)
  have "sorted (map (\<lambda>x. tx_Number (fst x)) (block_writes b))"
    unfolding block_writes_def using assms(4) by (intro sorted_block_writes) (simp add: numbered_def)
  from in_order_for_each [OF ok(3,2) assms(2) this] next_block_fresh [OF assms(1,3)] ok(5)
  show ?thesis by (auto simp: row_pos_def)
next
  case failed
  with assms(2) show ?thesis by simp
qed

lemma scanRows_inv:
  "\<forall>r \<in> set rows. row_fits r \<and> 0 \<le> row_version r \<Longrightarrow> scanRows rows = Inr (map record_of rows)"
  by (induction rows) (auto simp: scanRow_fits)

lemma GetHistory_in_order:
  assumes "db_inv db" and "in_order (db_channel db) (worldstate db)"
  shows "GetHistory db ns k = Inr (history db (ns, k))"
proof -
  have "sorted (map row_pos (key_rows db ns k))"
    using assms(2) by (auto simp: in_order_def strict_sorted_iff)
  then have "sort_key row_pos (key_rows db ns k) = key_rows db ns k"
    by (rule sort_key_id_if_sorted)
  moreover have "\<forall>r \<in> set (key_rows db ns k). row_fits r \<and> 0 \<le> row_version r"
    using rows_inv_key [of "worldstate db" "db_channel db" ns k] assms(1)
    by (auto simp: db_inv_def ascending_def)
  ultimately show ?thesis
    using scanRows_inv by (simp add: GetHistory_def history_def flip: row_pos_def)
qed

fun next_blocks :: "VersionedDB \<Rightarrow> Block list \<Rightarrow> bool" where
  "next_blocks db [] \<longleftrightarrow> True"
| "next_blocks db (b # bs) \<longleftrightarrow>
     next_block db b \<and> numbered b \<and> numbers_ok b \<and> next_blocks (fst (db_Handle db b)) bs"

lemma next_blocks_in_order:
  assumes "db_inv db" and "in_order (db_channel db) (worldstate db)" and "next_blocks db bs"
  shows "db_inv (HandleAll db bs) \<and> in_order (db_channel db) (worldstate (HandleAll db bs))"
  using assms
proof (induction bs arbitrary: db)
  case (Cons b bs)
  obtain db' e where h: "UpdateWorldState db b = (db', e)" by fastforce
  then have d: "db_Handle db b = (db', e)" by (simp add: db_Handle_def)
  with db_Handle_channel [of db b] have ch: "db_channel db' = db_channel db" by simp
  from Cons.prems have "db_inv db'" by (auto intro: db_inv_UpdateWorldState [OF _ _ h])
  moreover from Cons.prems have "in_order (db_channel db') (worldstate db')"
    by (auto intro: in_order_UpdateWorldState [OF _ _ _ _ h])
  ultimately show ?case using Cons.IH [of db'] Cons.prems(3) d ch by simp
qed simp

text \<open>
  C15: For a database that was fed blocks in increasing order, \<open>GetHistory\<close> returns every record of
  the key, in the order the writes were committed: record \<open>i\<close> has version \<open>i\<close>, and the last one is
  what \<open>Get\<close> returns.
\<close>

theorem GetHistory_complete:
  assumes "next_blocks (NewWriteDB ch) bs" and "db = HandleAll (NewWriteDB ch) bs"
  shows "\<exists>h. GetHistory db ns k = Inr h \<and> h = history db (ns, k)
    \<and> (\<forall>i < length h. wr_Version (h ! i) = of_nat i)
    \<and> db_Get db ns k = Inr (if h = [] then None else Some (last h))"
proof -
  have "in_order ch (worldstate (NewWriteDB ch))" by (simp add: in_order_def NewWriteDB_def)
  with next_blocks_in_order [OF db_inv_NewWriteDB _ assms(1)] assms(2)
  have db: "db_inv db" "in_order (db_channel db) (worldstate db)" by (simp_all add: NewWriteDB_def)
  have "counted (key_rows db ns k)" using db(1) by (simp add: db_inv_def rows_inv_def)
  then have "row_version (key_rows db ns k ! i) = int i" if "i < length (key_rows db ns k)" for i
    using that unfolding counted_def by (metis add.left_neutral length_map nth_map nth_upt length_upt diff_zero)
  then have "\<forall>i < length (history db (ns, k)). wr_Version (history db (ns, k) ! i) = of_nat i"
    by (simp add: history_def record_of_def)
  with GetHistory_in_order [OF db] db_Get_history [OF db(1)] show ?thesis by blast
qed

subsection \<open>Witnesses\<close>

text \<open>A database after one committed block, and blocks that write the same key.\<close>

definition sample_commit :: "u64 \<Rightarrow> Block" where
  "sample_commit n = (sample_block [SetStatus StatusCommitted 0 emptyMsg (sample_writer ''ns'' ''k'')])\<lparr>b_Number := n\<rparr>"

definition sample_db :: VersionedDB where
  "sample_db = fst (UpdateWorldState (NewWriteDB ''ch'') (sample_commit 1))"

lemma sample_commit_writes [simp]:
  "block_writes (sample_commit n) = [(SetStatus StatusCommitted 0 emptyMsg (sample_writer ''ns'' ''k''),
      ''ns'', \<lparr>w_Key = ''k'', w_IsDelete = False, w_Value = ''v''\<rparr>)]"
  by (simp add: block_writes_def sample_commit_def sample_block_def zero_Block_def tx_Valid_iff writes_of_def)

lemma sample_commit_simps [simp]:
  "b_Number (sample_commit n) = n"
  "numbers_ok (sample_commit n)" "numbered (sample_commit n)"
  by (simp_all add: sample_commit_def numbers_ok_def numbered_def sample_writer_def
      zero_Transaction_def tx_Valid_iff sample_block_def)

lemma sample_commit_single [simp]: "single_writes (sample_commit n)"
  by (simp add: single_writes_def)

lemma sample_db_eq:
  "UpdateWorldState (NewWriteDB ''ch'') (sample_commit 1) = (sample_db, None)"
  "sample_db = \<lparr>db_channel = ''ch'', worldstate = [\<lparr>row_channel = ''ch'', row_namespace = ''ns'',
      row_key = ''k'', row_version_block = 1, row_version_tx = 0, row_version = 0, row_value = ''v'',
      row_is_delete = False, row_tx_id = ''''\<rparr>], channel_progress = [''ch'' \<mapsto> 1]\<rparr>"
  by (simp_all add: sample_db_def UpdateWorldState_def insertBlock_flat insert1_def insertWrite_def
      bind_u64_def NewWriteDB_def next_version_def upsertProgress_def sample_writer_def zero_Transaction_def)

lemma sample_db_inv: "db_inv sample_db"
  by (rule db_inv_UpdateWorldState [OF db_inv_NewWriteDB _ sample_db_eq(1)]) simp

lemma sample_db_height [simp]: "BlockNumber sample_db = Inr 1"
  by (simp add: sample_db_eq(2) BlockNumber_def)

theorem SnapshotAt_time_travel_witness:
  "snapshot_Get (HandleAll sample_db [sample_commit 2]) 1 ''ns'' ''k'' = db_Get sample_db ''ns'' ''k''
   \<and> db_Get sample_db ''ns'' ''k'' \<noteq> db_Get (HandleAll sample_db [sample_commit 2]) ''ns'' ''k''"
proof
  show "snapshot_Get (HandleAll sample_db [sample_commit 2]) 1 ''ns'' ''k'' = db_Get sample_db ''ns'' ''k''"
    using SnapshotAt_time_travel [OF sample_db_inv sample_db_height, of "[sample_commit 2]"] by simp
  show "db_Get sample_db ''ns'' ''k'' \<noteq> db_Get (HandleAll sample_db [sample_commit 2]) ''ns'' ''k''"
    by (simp add: db_Handle_def UpdateWorldState_def insertBlock_flat insert1_def insertWrite_def
        bind_u64_def sample_db_eq(2) next_version_def same_key_def db_Get_def queryLatest_def
        scanRow_def scan_u64_def sample_writer_def zero_Transaction_def)
qed


theorem UpdateWorldState_idempotent_witness:
  "UpdateWorldState (HandleAll sample_db [sample_commit 2]) (sample_commit 1)
     = (HandleAll sample_db [sample_commit 2], None)"
  by (rule UpdateWorldState_idempotent [OF db_inv_NewWriteDB _ sample_db_eq(1)]) simp_all


theorem GetHistory_complete_witness:
  "\<exists>h. GetHistory (HandleAll (NewWriteDB ''ch'') [sample_commit 1, sample_commit 2]) ''ns'' ''k'' = Inr h
     \<and> (\<forall>i < length h. wr_Version (h ! i) = of_nat i)"
proof -
  have "fst (db_Handle (NewWriteDB ''ch'') (sample_commit 1)) = sample_db"
    by (simp add: db_Handle_def sample_db_eq(1))
  then have "next_blocks (NewWriteDB ''ch'') [sample_commit 1, sample_commit 2]"
    by (simp add: next_block_def sample_db_eq(2)) (simp add: NewWriteDB_def)
  from GetHistory_complete [OF this refl] show ?thesis by blast
qed

end
