(* ===== verification/Sim_Store.thy ===== *)
theory Sim_Store
  imports KVS
begin

section \<open>The simulation store (state/sim.go)\<close>

text \<open>
  \<open>SimulationStore\<close> runs a transaction against a snapshot and records what it read and wrote. The
  snapshot's \<open>Get\<close> is an argument of \<open>GetState\<close>, so that it may read a store that moves on
  between two calls. A nil value is the empty byte string. The maps \<open>reads\<close> and \<open>writes\<close> are HOL
  maps; \<open>Result\<close> takes the orders in which Go happens to range over them.
\<close>

record Log =
  log_Address :: bytes
  log_Topics :: "bytes list"
  log_Data :: bytes

record SimulationStore =
  s_namespace :: string
  s_blockNum :: u64
  s_reads :: "string \<rightharpoonup> KVRead"
  s_writes :: "string \<rightharpoonup> KVWrite"
  s_logs :: "Log list"
  s_monotonicVersions :: bool

definition NewSimulationStore :: "string \<Rightarrow> u64 \<Rightarrow> bool \<Rightarrow> SimulationStore" where
  "NewSimulationStore ns blockNum mv =
     \<lparr>s_namespace = ns, s_blockNum = blockNum, s_reads = Map.empty, s_writes = Map.empty,
      s_logs = [], s_monotonicVersions = mv\<rparr>"

definition GetState :: "record_getter \<Rightarrow> SimulationStore \<Rightarrow> string \<Rightarrow> bytes res \<times> SimulationStore" where
  "GetState get s k =
     (case s_writes s k of
        Some w \<Rightarrow> if w_IsDelete w then (Inr '''', s) else (Inr (w_Value w), s)
      | None \<Rightarrow>
          (case get (s_namespace s) k of
             Inl err \<Rightarrow> (Inl err, s)
           | Inr None \<Rightarrow> (Inr '''', s\<lparr>s_reads := (s_reads s)(k \<mapsto> \<lparr>r_Key = k, r_Version = None\<rparr>)\<rparr>)
           | Inr (Some rec) \<Rightarrow>
               if wr_IsDelete rec then (Inr '''', s)
               else
                 (let ver = (if s_monotonicVersions s then \<lparr>v_BlockNum = wr_Version rec, v_TxNum = 0\<rparr>
                             else \<lparr>v_BlockNum = wr_BlockNum rec, v_TxNum = wr_TxNum rec\<rparr>)
                  in (Inr (wr_Value rec),
                      s\<lparr>s_reads := (s_reads s)(k \<mapsto> \<lparr>r_Key = k, r_Version = Some ver\<rparr>)\<rparr>))))"

definition DelState :: "SimulationStore \<Rightarrow> string \<Rightarrow> unit res \<times> SimulationStore" where
  "DelState s k =
     (Inr (), s\<lparr>s_writes := (s_writes s)(k \<mapsto> \<lparr>w_Key = k, w_IsDelete = True, w_Value = ''''\<rparr>)\<rparr>)"

definition PutState :: "SimulationStore \<Rightarrow> string \<Rightarrow> bytes \<Rightarrow> unit res \<times> SimulationStore" where
  "PutState s k v =
     (if length k = 0 then (Inl (Msg ''key is empty'' []), s)
      else if length v = 0 then DelState s k
      else (Inr (), s\<lparr>s_writes := (s_writes s)(k \<mapsto> \<lparr>w_Key = k, w_IsDelete = False, w_Value = v\<rparr>)\<rparr>))"

definition AddLog :: "SimulationStore \<Rightarrow> bytes \<Rightarrow> bytes list \<Rightarrow> bytes \<Rightarrow> SimulationStore" where
  "AddLog s address topics data =
     s\<lparr>s_logs := s_logs s @ [\<lparr>log_Address = address, log_Topics = topics, log_Data = data\<rparr>]\<rparr>"

definition sim_Result :: "string list \<Rightarrow> string list \<Rightarrow> SimulationStore \<Rightarrow> ReadWriteSet" where
  "sim_Result rks wks s =
     \<lparr>Reads = map (\<lambda>k. the (s_reads s k)) rks, Writes = map (\<lambda>k. the (s_writes s k)) wks\<rparr>"

definition Logs :: "SimulationStore \<Rightarrow> Log list" where
  "Logs s = s_logs s"

definition sim_Version :: "SimulationStore \<Rightarrow> u64" where
  "sim_Version s = s_blockNum s"

subsection \<open>Runs\<close>

text \<open>
  A transaction is any sequence of calls; each call carries the view its snapshot has at that
  moment. The responses are what the calls return.
\<close>

datatype sim_op = OpGet string | OpPut string bytes | OpDel string | OpLog bytes "bytes list" bytes

datatype sim_resp = RespVal "bytes res" | RespUnit "unit res" | RespNone

fun sim_step :: "record_getter \<Rightarrow> sim_op \<Rightarrow> SimulationStore \<Rightarrow> sim_resp \<times> SimulationStore" where
  "sim_step get (OpGet k) s = map_prod RespVal id (GetState get s k)"
| "sim_step get (OpPut k v) s = map_prod RespUnit id (PutState s k v)"
| "sim_step get (OpDel k) s = map_prod RespUnit id (DelState s k)"
| "sim_step get (OpLog a t d) s = (RespNone, AddLog s a t d)"

fun sim_run :: "(record_getter \<times> sim_op) list \<Rightarrow> SimulationStore \<Rightarrow> sim_resp list \<times> SimulationStore" where
  "sim_run [] s = ([], s)"
| "sim_run ((get, x) # xs) s =
     (case sim_step get x s of (r, s') \<Rightarrow> (case sim_run xs s' of (rs, s'') \<Rightarrow> (r # rs, s'')))"

subsection \<open>Specification: an overlay\<close>

text \<open>
  What the transaction sees is a map from keys to values in which an absent or deleted key has the
  empty value. It starts as the snapshot and its own writes go on top.
\<close>

type_synonym view = "string \<Rightarrow> bytes"

definition value_of :: "WriteRecord option \<Rightarrow> bytes" where
  "value_of r = (case live r of Some w \<Rightarrow> wr_Value w | None \<Rightarrow> '''')"

definition sim_view :: "record_getter \<Rightarrow> SimulationStore \<Rightarrow> view" where
  "sim_view get s = (\<lambda>k. case s_writes s k of
      Some w \<Rightarrow> if w_IsDelete w then '''' else w_Value w
    | None \<Rightarrow> value_of (state_of get (s_namespace s) k))"

fun view_step :: "sim_op \<Rightarrow> view \<Rightarrow> sim_resp \<times> view" where
  "view_step (OpGet k) A = (RespVal (Inr (A k)), A)"
| "view_step (OpPut k v) A =
     (if k = '''' then (RespUnit (Inl (Msg ''key is empty'' [])), A) else (RespUnit (Inr ()), A(k := v)))"
| "view_step (OpDel k) A = (RespUnit (Inr ()), A(k := ''''))"
| "view_step (OpLog a t d) A = (RespNone, A)"

fun view_run :: "sim_op list \<Rightarrow> view \<Rightarrow> sim_resp list \<times> view" where
  "view_run [] A = ([], A)"
| "view_run (x # xs) A =
     (case view_step x A of (r, A') \<Rightarrow> (case view_run xs A' of (rs, A'') \<Rightarrow> (r # rs, A'')))"

lemma GetState_view:
  assumes "get_total get" and "GetState get s k = (v, s')"
  shows "v = Inr (sim_view get s k)" and "s_writes s' = s_writes s" and "s_namespace s' = s_namespace s"
    and "s_monotonicVersions s' = s_monotonicVersions s"
  using assms(2) get_total_state_of [OF assms(1), of "s_namespace s" k]
  by (auto simp: GetState_def sim_view_def value_of_def live_def Let_def
      split: option.splits if_splits sum.splits)

lemma sim_view_update [simp]:
  "sim_view get (s\<lparr>s_writes := (s_writes s)(k \<mapsto> w)\<rparr>) =
     (sim_view get s)(k := if w_IsDelete w then '''' else w_Value w)"
  "sim_view get (s\<lparr>s_logs := l\<rparr>) = sim_view get s"
  by (auto simp: sim_view_def fun_eq_iff split: option.split)

lemma map_prod_id_eq [simp]: "map_prod f id p = (r, s) \<longleftrightarrow> (\<exists>v. p = (v, s) \<and> r = f v)"
  by (cases p) auto

lemma sim_step_view:
  assumes "get_total get" and "sim_step get x s = (r, s')"
  shows "view_step x (sim_view get s) = (r, sim_view get s')"
proof (cases x)
  case (OpGet k)
  obtain v t where g: "GetState get s k = (v, t)" by fastforce
  note gv = GetState_view [OF assms(1) g]
  have "sim_view get t = sim_view get s" unfolding sim_view_def gv(2,3) ..
  with OpGet g gv(1) assms(2) show ?thesis by simp
next
  case (OpPut k v)
  with assms(2) show ?thesis by (auto simp: PutState_def DelState_def split: if_splits)
next
  case (OpDel k)
  with assms(2) show ?thesis by (auto simp: DelState_def)
next
  case (OpLog a t d)
  with assms(2) show ?thesis by (auto simp: AddLog_def)
qed

lemma sim_run_view:
  assumes "get_total get" and "\<forall>(g, x) \<in> set xs. g = get" and "sim_run xs s = (rs, s')"
  shows "view_run (map snd xs) (sim_view get s) = (rs, sim_view get s')"
  using assms(2,3)
proof (induction xs arbitrary: s rs)
  case (Cons gx xs)
  then obtain x where gx: "gx = (get, x)" by auto
  obtain r t where st: "sim_step get x s = (r, t)" by fastforce
  obtain us where run: "sim_run xs t = (us, s')" and rs: "rs = r # us"
    using Cons.prems gx st by (auto split: prod.splits)
  from Cons.IH [OF _ run] Cons.prems(1) have "view_run (map snd xs) (sim_view get t) = (us, sim_view get s')"
    by simp
  with sim_step_view [OF assms(1) st] show ?case by (simp add: gx rs)
qed simp

subsection \<open>What is recorded\<close>

text \<open>
  The version a read of a record names, and the keys a sequence of calls reads before it writes
  them.
\<close>

definition read_version :: "bool \<Rightarrow> WriteRecord option \<Rightarrow> Version option" where
  "read_version mv r = map_option (\<lambda>w. if mv then \<lparr>v_BlockNum = wr_Version w, v_TxNum = 0\<rparr>
     else \<lparr>v_BlockNum = wr_BlockNum w, v_TxNum = wr_TxNum w\<rparr>) (live r)"

definition tombstone :: "WriteRecord option \<Rightarrow> bool" where
  "tombstone r \<longleftrightarrow> (\<exists>w. r = Some w \<and> wr_IsDelete w)"

fun first_reads :: "sim_op list \<Rightarrow> string set \<Rightarrow> string set" where
  "first_reads [] W = {}"
| "first_reads (OpGet k # xs) W = (if k \<in> W then {} else {k}) \<union> first_reads xs W"
| "first_reads (OpPut k v # xs) W = first_reads xs (if k = '''' then W else insert k W)"
| "first_reads (OpDel k # xs) W = first_reads xs (insert k W)"
| "first_reads (OpLog a t d # xs) W = first_reads xs W"

lemma read_valid_read_version [simp]: "read_valid mv r (read_version mv r)"
  by (auto simp: read_valid_def read_version_def version_matches_def split: option.splits)

lemma GetState_reads:
  assumes "get_total get" and "GetState get s k = (v, s')"
  shows "s_reads s' = (if k \<notin> dom (s_writes s) \<and> \<not> tombstone (state_of get (s_namespace s) k)
     then (s_reads s)(k \<mapsto> \<lparr>r_Key = k, r_Version =
            read_version (s_monotonicVersions s) (state_of get (s_namespace s) k)\<rparr>)
     else s_reads s)"
  using assms(2) get_total_state_of [OF assms(1), of "s_namespace s" k]
  by (auto simp: GetState_def tombstone_def read_version_def live_def Let_def
      split: option.splits if_splits sum.splits)

definition sim_frame :: "SimulationStore \<Rightarrow> SimulationStore \<Rightarrow> bool" where
  "sim_frame s s' \<longleftrightarrow> s_namespace s' = s_namespace s \<and> s_monotonicVersions s' = s_monotonicVersions s
     \<and> s_blockNum s' = s_blockNum s"

lemma sim_step_frame: "sim_step get x s = (r, s') \<Longrightarrow> sim_frame s s'"
  by (cases x) (auto simp: sim_frame_def GetState_def PutState_def DelState_def AddLog_def Let_def
      split: option.splits if_splits sum.splits)

lemma sim_run_frame: "sim_run xs s = (rs, s') \<Longrightarrow> sim_frame s s'"
proof (induction xs arbitrary: s rs)
  case (Cons gx xs)
  then show ?case by (cases gx) (fastforce split: prod.splits dest: sim_step_frame simp: sim_frame_def)
qed (simp add: sim_frame_def)

text \<open>The read map after a run: the first reads that did not hit a tombstone, with the snapshot's versions.\<close>

definition reads_from :: "record_getter \<Rightarrow> string \<Rightarrow> bool \<Rightarrow> string set \<Rightarrow> (string \<rightharpoonup> KVRead)" where
  "reads_from get ns mv K = (\<lambda>k. if k \<in> K \<and> \<not> tombstone (state_of get ns k)
     then Some \<lparr>r_Key = k, r_Version = read_version mv (state_of get ns k)\<rparr> else None)"

lemma reads_from_empty [simp]: "reads_from get ns mv {} = Map.empty"
  by (simp add: reads_from_def)

lemma reads_from_Un: "reads_from get ns mv (K \<union> L) = reads_from get ns mv K ++ reads_from get ns mv L"
  by (auto simp: reads_from_def map_add_def fun_eq_iff)

lemma sim_step_reads:
  assumes "get_total get" and "sim_step get x s = (r, s')"
  shows "s_reads s' = s_reads s ++ reads_from get (s_namespace s) (s_monotonicVersions s) (first_reads [x] (dom (s_writes s)))"
proof (cases x)
  case (OpGet k)
  with assms(2) obtain v where "GetState get s k = (v, s')" by auto
  from GetState_reads [OF assms(1) this] OpGet show ?thesis
    by (auto simp: reads_from_def map_add_def fun_eq_iff)
qed (use assms(2) in \<open>auto simp: PutState_def DelState_def AddLog_def split: if_splits\<close>)

lemma first_reads_Cons:
  assumes "get_total get" and "sim_step get x s = (r, s')"
  shows "first_reads (x # xs) (dom (s_writes s)) = first_reads [x] (dom (s_writes s)) \<union> first_reads xs (dom (s_writes s'))"
proof (cases x)
  case (OpGet k)
  with assms(2) obtain v where "GetState get s k = (v, s')" by auto
  from GetState_view(2) [OF assms(1) this] OpGet show ?thesis by simp
qed (use assms(2) in \<open>auto simp: PutState_def DelState_def AddLog_def split: if_splits\<close>)

lemma sim_run_reads:
  assumes "get_total get" and "\<forall>(g, x) \<in> set xs. g = get" and "sim_run xs s = (rs, s')"
  shows "s_reads s' = s_reads s ++ reads_from get (s_namespace s) (s_monotonicVersions s)
           (first_reads (map snd xs) (dom (s_writes s)))"
  using assms(2,3)
proof (induction xs arbitrary: s rs)
  case Nil
  then show ?case by (simp add: reads_from_empty)
next
  case (Cons gx xs)
  then obtain x where gx: "gx = (get, x)" by auto
  obtain r t where st: "sim_step get x s = (r, t)" by fastforce
  obtain us where run: "sim_run xs t = (us, s')"
    using Cons.prems gx st by (auto split: prod.splits)
  note b = sim_step_frame [OF st, unfolded sim_frame_def]
  have "s_reads s' = s_reads t ++ reads_from get (s_namespace s) (s_monotonicVersions s)
      (first_reads (map snd xs) (dom (s_writes t)))"
    using Cons.IH [OF _ run] Cons.prems(1) b by simp
  then show ?case
    unfolding gx list.map snd_conv first_reads_Cons [OF assms(1) st, of "map snd xs"] reads_from_Un
      sim_step_reads [OF assms(1) st] by simp
qed

lemma sim_step_writes:
  "sim_step get x s = (r, s') \<Longrightarrow> \<forall>k w. s_writes s k = Some w \<longrightarrow> w_Key w = k \<and> (w_IsDelete w \<longleftrightarrow> w_Value w = '''')
     \<Longrightarrow> \<forall>k w. s_writes s' k = Some w \<longrightarrow> w_Key w = k \<and> (w_IsDelete w \<longleftrightarrow> w_Value w = '''')"
  by (cases x) (auto simp: GetState_def PutState_def DelState_def AddLog_def Let_def
      split: option.splits if_splits sum.splits)

lemma sim_run_writes:
  assumes "sim_run xs s = (rs, s')"
    and "\<forall>k w. s_writes s k = Some w \<longrightarrow> w_Key w = k \<and> (w_IsDelete w \<longleftrightarrow> w_Value w = '''')"
  shows "\<forall>k w. s_writes s' k = Some w \<longrightarrow> w_Key w = k \<and> (w_IsDelete w \<longleftrightarrow> w_Value w = '''')"
  using assms
proof (induction xs arbitrary: s rs)
  case (Cons gx xs)
  obtain g x where gx: "gx = (g, x)" by fastforce
  obtain r t where st: "sim_step g x s = (r, t)" by fastforce
  obtain us where run: "sim_run xs t = (us, s')"
    using Cons.prems(1) gx st by (auto split: prod.splits)
  from Cons.IH [OF run sim_step_writes [OF st Cons.prems(2)]] show ?case .
qed simp

lemma NewSimulationStore_simps [simp]:
  "s_namespace (NewSimulationStore ns n mv) = ns" "s_reads (NewSimulationStore ns n mv) = Map.empty"
  "s_writes (NewSimulationStore ns n mv) = Map.empty" "s_monotonicVersions (NewSimulationStore ns n mv) = mv"
  "s_blockNum (NewSimulationStore ns n mv) = n" "s_logs (NewSimulationStore ns n mv) = []"
  by (simp_all add: NewSimulationStore_def)


subsection \<open>Simulating on a store that moves on\<close>

text \<open>
  The calls of a simulation on a snapshot of a store, with the blocks the store handles before each
  call: every call reads the snapshot through the store of its moment.
\<close>

fun sim_calls :: "('db \<Rightarrow> Block \<Rightarrow> 'db \<times> goerror option) \<Rightarrow> ('db \<Rightarrow> 'snap \<Rightarrow> record_getter) \<Rightarrow> 'db \<Rightarrow> 'snap
    \<Rightarrow> (Block list \<times> sim_op) list \<Rightarrow> (record_getter \<times> sim_op) list" where
  "sim_calls handle snap_get db s [] = []"
| "sim_calls handle snap_get db s ((bs, x) # rest) =
     (snap_get (handle_all handle db bs) s, x) # sim_calls handle snap_get (handle_all handle db bs) s rest"

lemma sim_calls_ops [simp]: "map snd (sim_calls handle snap_get db s steps) = map snd steps"
  by (induction steps arbitrary: db) auto

text \<open>A store that simulations run on: what the laws of \<open>kvs\<close> give a \<open>SimulationStore\<close>.\<close>

locale simulated_kvs = kvs
begin

lemma sim_calls_stable:
  assumes "inv db" and "\<forall>(bs, x) \<in> set steps. \<forall>b \<in> set bs. accepts b \<and> snap_height s < b_Number b"
  shows "\<forall>(g, x) \<in> set (sim_calls handle snap_get db s steps). g = snap_get db s"
  using assms
proof (induction steps arbitrary: db)
  case (Cons p steps)
  obtain bs x where p: "p = (bs, x)" by fastforce
  let ?db = "handle_all handle db bs"
  have bs: "\<forall>b \<in> set bs. accepts b \<and> snap_height s < b_Number b" using Cons.prems(2) p by auto
  then have "snap_get ?db s = snap_get db s" by (rule snapshot_stable_all [OF Cons.prems(1)])
  moreover have "inv ?db" using bs Cons.prems(1) by (intro handle_all_inv) auto
  moreover have "\<forall>(bs, x) \<in> set steps. \<forall>b \<in> set bs. accepts b \<and> snap_height s < b_Number b"
    using Cons.prems(2) by simp
  ultimately have "\<forall>(g, x) \<in> set (sim_calls handle snap_get ?db s steps). g = snap_get db s"
    using Cons.IH [of ?db] by simp
  then show ?case using \<open>snap_get ?db s = snap_get db s\<close> by (simp add: p)
qed simp

lemma simulation_reads_valid:
  assumes "inv db" and "snapshot db = Inr s"
    and "\<forall>(bs, x) \<in> set steps. \<forall>b \<in> set bs. accepts b \<and> snap_height s < b_Number b"
    and "sim_run (sim_calls handle snap_get db s steps) (NewSimulationStore ns n mv) = (rs, st)"
    and "enumerates rks (s_reads st)" and "r \<in> set (Reads (sim_Result rks wks st))"
  shows "r_Version r = read_version mv (state_of (get db) ns (r_Key r))
    \<and> \<not> tombstone (state_of (get db) ns (r_Key r))"
proof -
  have "\<forall>(g, x) \<in> set (sim_calls handle snap_get db s steps). g = get db"
    using sim_calls_stable [OF assms(1,3)] snapshot_current [OF assms(1,2)] by auto
  from sim_run_reads [OF get_answers [OF assms(1)] this assms(4)]
  have "s_reads st = reads_from (get db) ns mv (first_reads (map snd steps) {})" by simp
  note reads = this
  from assms(5,6) obtain k where "s_reads st k = Some r"
    by (auto simp: sim_Result_def enumerates_def)
  with reads show ?thesis by (auto simp: reads_from_def split: if_splits)
qed

end

subsection \<open>Witness\<close>

definition sample_calls :: "(record_getter \<times> sim_op) list" where
  "sample_calls = [((\<lambda>ns k. Inr None), OpGet ''a''), ((\<lambda>ns k. Inr None), OpPut ''a'' ''1''),
     ((\<lambda>ns k. Inr None), OpGet ''a'')]"


end
