(* ===== verification/Commit_Flow.thy ===== *)
theory Commit_Flow
  imports Versioned_DB Sim_Store
begin

section \<open>From simulation to commit\<close>

text \<open>
  The simulation store, the validator and the database together implement optimistic concurrency
  control. This theory relates the versions that one component records to the ones another
  compares: a version names at most one row of a key.
\<close>

interpretation vsim: simulated_kvs db_inv db_Handle numbers_ok db_Get BlockNumber Snapshot "\<lambda>s. s" snapshot_Get
  by unfold_locales

subsection \<open>A version names one row\<close>

lemma key_rows_extend:
  assumes "UpdateWorldState db b = (db', e)"
  shows "\<exists>ext. key_rows db' ns k = key_rows db ns k @ ext"
  using assms by (cases rule: UpdateWorldState_cases) auto

lemma key_rows_HandleAll: "\<exists>ext. key_rows (HandleAll db bs) ns k = key_rows db ns k @ ext"
proof (induction bs arbitrary: db)
  case (Cons b bs)
  obtain db' e where h: "UpdateWorldState db b = (db', e)" by fastforce
  from Cons.IH [of db'] key_rows_extend [OF h, of ns k] h show ?case by (auto simp: db_Handle_def)
qed simp

lemma state_of_db_Get:
  assumes "db_inv db"
  shows "state_of (db_Get db) ns k = last_record (key_rows db ns k)"
  using assms by (simp add: state_of_def db_Get_inv)

lemma last_counted: "counted rows \<Longrightarrow> rows \<noteq> [] \<Longrightarrow> row_version (last rows) = int (length rows) - 1"
  by (cases rows rule: rev_cases) (auto simp: counted_snoc)

lemma word_of_int_inj_u64:
  assumes "word_of_int a = (word_of_int b :: u64)" and "0 \<le> a" "a < 2 ^ 64" "0 \<le> b" "b < 2 ^ 64"
  shows "a = b"
proof -
  have "uint (word_of_int a :: u64) = a" "uint (word_of_int b :: u64) = b"
    using assms(2-) by (simp_all add: uint_word_of_int)
  with assms(1) show ?thesis by metis
qed

lemma same_version_same_row:
  assumes "rows_inv rows" and "key = filter (same_key ch ns k) rows" and "key = old @ ext"
    and "old \<noteq> []" and "length key < 2 ^ 64"
    and "version_matches mv (record_of (last key))
      (if mv then \<lparr>v_BlockNum = wr_Version (record_of (last old)), v_TxNum = 0\<rparr>
       else \<lparr>v_BlockNum = wr_BlockNum (record_of (last old)), v_TxNum = wr_TxNum (record_of (last old))\<rparr>)"
  shows "last key = last old"
proof (cases mv)
  case True
  have c: "counted key" using assms(1,2) by (simp add: rows_inv_def)
  then have "counted old" using assms(3)
    by (metis counted_def length_map map_append take_map take_upt append_eq_conv_conj add_0 le_add1 length_append)
  with c assms(3,4) last_counted have v: "row_version (last key) = int (length key) - 1"
    "row_version (last old) = int (length old) - 1" by auto
  have "word_of_int (row_version (last key)) = (word_of_int (row_version (last old)) :: u64)"
    using assms(6) True by (simp add: version_matches_def record_of_def)
  then have "length key = length old"
    unfolding v using word_of_int_inj_u64 [of "int (length key) - 1" "int (length old) - 1"] assms(3-5)
    by (cases old; cases key) auto
  with assms(3) show ?thesis by simp
next
  case False
  let ?a = "last key" and ?b = "last old"
  have "key \<noteq> []" using assms(3,4) by simp
  then have mem: "?a \<in> set key" by (rule last_in_set)
  have "?b \<in> set key" using assms(3) last_in_set [OF assms(4)] by simp
  with mem have in_rows: "?a \<in> set rows" "?b \<in> set rows" and same: "same_key ch ns k ?a" "same_key ch ns k ?b"
    using assms(2) by auto
  then have fit: "row_fits ?a" "row_fits ?b" using assms(1) by (auto simp: rows_inv_def)
  have "word_of_int (row_version_block ?a) = (word_of_int (row_version_block ?b) :: u64)"
    "word_of_int (row_version_tx ?a) = (word_of_int (row_version_tx ?b) :: u64)"
    using assms(6) False by (simp_all add: version_matches_def record_of_def)
  then have "row_version_block ?a = row_version_block ?b" "row_version_tx ?a = row_version_tx ?b"
    using fit word_of_int_inj_u64 by (auto simp: row_fits_def)
  with same have "row_pk ?a = row_pk ?b" by (simp add: row_pk_def same_key_def)
  with in_rows assms(1) show ?thesis by (auto simp: rows_inv_def distinct_map dest: inj_onD)
qed

definition short_histories :: "VersionedDB \<Rightarrow> bool" where
  "short_histories db \<longleftrightarrow> length (worldstate db) < 2 ^ 64"

text \<open>A recorded read stays valid exactly as long as the live record of its key does not change.\<close>

lemma read_valid_iff_unchanged:
  assumes "db_inv db" and "\<forall>b \<in> set bs. numbers_ok b" and "short_histories (HandleAll db bs)"
    and "\<not> tombstone (state_of (db_Get db) ns k)"
  shows "read_valid mv (state_of (db_Get (HandleAll db bs)) ns k) (read_version mv (state_of (db_Get db) ns k))
    \<longleftrightarrow> live (state_of (db_Get (HandleAll db bs)) ns k) = live (state_of (db_Get db) ns k)"
    (is "?valid \<longleftrightarrow> ?same")
proof
  assume ?same
  then show ?valid using read_valid_read_version [of mv "state_of (db_Get db) ns k"]
    by (simp add: read_valid_def)
next
  assume v: ?valid
  let ?db = "HandleAll db bs"
  have inv: "db_inv ?db" unfolding HandleAll_vdb by (rule vdb.handle_all_inv [OF assms(1,2)])
  obtain ext where ext: "key_rows ?db ns k = key_rows db ns k @ ext"
    using key_rows_HandleAll by blast
  note st = state_of_db_Get [OF assms(1), of ns k] state_of_db_Get [OF inv, of ns k]
  show ?same
  proof (cases "key_rows db ns k = []")
    case True
    then have "live (state_of (db_Get db) ns k) = None" by (simp add: st last_record_def live_def)
    with v show ?thesis by (simp add: read_valid_def read_version_def split: option.splits)
  next
    case False
    with assms(4) have l: "live (state_of (db_Get db) ns k) = Some (record_of (last (key_rows db ns k)))"
      by (simp add: st last_record_def live_def tombstone_def)
    from False ext have "key_rows ?db ns k \<noteq> []" by simp
    then have st2: "state_of (db_Get ?db) ns k = Some (record_of (last (key_rows ?db ns k)))"
      by (simp add: st last_record_def)
    have len: "length (key_rows ?db ns k) < 2 ^ 64"
      using assms(3) unfolding short_histories_def by (rule order.strict_trans1 [OF length_filter_le])
    have "rows_inv (worldstate ?db)" using inv by (simp add: db_inv_def)
    from same_version_same_row [OF this refl ext False len, of mv] v
    have "last (key_rows ?db ns k) = last (key_rows db ns k)"
      unfolding read_valid_def read_version_def l st2
      by (auto simp: live_def split: option.splits if_splits)
    with st2 have "state_of (db_Get ?db) ns k = Some (record_of (last (key_rows db ns k)))" by simp
    with l show ?thesis by (auto simp: live_def split: option.splits if_splits)
  qed
qed

subsection \<open>What an accepted transaction read\<close>

lemma pendingKey_pending_of: "(ns, k) \<in> written_keys t \<Longrightarrow> pendingKey ns k \<in> pending_of t"
  by (force simp: pending_of_def)

lemma Validate_accepts:
  assumes "get_total get" and "codes_fit l" and "Validate l get b = (b', filt, e, l')"
    and "i < length (b_Transactions b)" and "tx_Valid (b_Transactions b' ! i)"
    and "(ns, r) \<in> set (reads_of (b_Transactions b ! i))"
  shows "read_valid (monotonicVersions l) (state_of get ns (r_Key r)) (r_Version r)
    \<and> (\<forall>j < i. tx_Valid (b_Transactions b' ! j) \<longrightarrow> (ns, r_Key r) \<notin> written_keys (b_Transactions b ! j))"
proof -
  from Validate_judged [OF assms(1-3)] assms(4)
  have "judged (l\<lparr>pendingWrites := {}\<rparr>) get (b_Transactions b) (b_Transactions b') filt i" by blast
  with assms(5,6) show ?thesis
    by (elim judgedE) (fastforce simp: tx_Valid_iff clear_at_def dest: pendingKey_pending_of)
qed

lemma Validate_single:
  assumes "get_total get" and "codes_fit l" and "Validate l get b = (b', filt, e, l')"
    and "b_Transactions b = [t]"
  shows "\<exists>t'. b_Transactions b' = [t'] \<and> e = None
    \<and> tx_Status t' = (if \<forall>(ns, r) \<in> set (reads_of t).
          read_valid (monotonicVersions l) (state_of get ns (r_Key r)) (r_Version r)
        then StatusCommitted else StatusMVCCConflict)"
proof -
  note V = Validate_judged [OF assms(1-3)]
  then have len: "length (b_Transactions b') = 1" using assms(4) by simp
  then obtain t' where t': "b_Transactions b' = [t']" by (cases "b_Transactions b'") auto
  from V assms(4) have "judged (l\<lparr>pendingWrites := {}\<rparr>) get [t] [t'] filt 0" by (simp add: t')
  then show ?thesis using V t' by (elim judgedE) (auto simp: clear_at_def)
qed

lemma fold_append_write_other:
  "\<forall>(tx, m, w) \<in> set xs. (m, w_Key w) \<noteq> (ns, k) \<Longrightarrow> fold (append_write n) xs H (ns, k) = H (ns, k)"
  by (induction xs arbitrary: H) (auto simp: append_write_def)

lemma commit_block_other:
  assumes "\<forall>t \<in> set (b_Transactions b). tx_Valid t \<longrightarrow> (ns, k) \<notin> written_keys t"
  shows "commit_block b H (ns, k) = H (ns, k)"
  unfolding commit_block_def using assms
  by (intro fold_append_write_other) (force simp: block_writes_def written_keys_def)

definition head_record :: "WriteRecord list \<Rightarrow> WriteRecord option" where
  "head_record h = (if h = [] then None else Some (last h))"

lemma state_of_history: "db_inv db \<Longrightarrow> state_of (db_Get db) ns k = head_record (history db (ns, k))"
  by (simp add: state_of_def db_Get_history head_record_def)

definition prefix_block :: "nat \<Rightarrow> Block \<Rightarrow> Block" where
  "prefix_block i b = b\<lparr>b_Transactions := take i (b_Transactions b)\<rparr>"

lemma accepted_reads_serial:
  assumes "db_inv db" and "codes_fit l" and "Validate l (db_Get db) b = (b', filt, e, l')"
    and "i < length (b_Transactions b')" and "tx_Valid (b_Transactions b' ! i)"
    and "(ns, r) \<in> set (reads_of (b_Transactions b' ! i))"
  shows "read_valid (monotonicVersions l)
    (head_record (commit_block (prefix_block i b') (history db) (ns, r_Key r))) (r_Version r)"
proof -
  note V = Validate_judged [OF db_Get_total [OF assms(1)] assms(2,3)]
  then have len: "length (b_Transactions b') = length (b_Transactions b)" by blast
  have foot: "reads_of (b_Transactions b' ! j) = reads_of (b_Transactions b ! j)"
    "written_keys (b_Transactions b' ! j) = written_keys (b_Transactions b ! j)"
    if "j < length (b_Transactions b)" for j
    by (auto intro: judgedE [OF V(4) [OF that]])
  note A = Validate_accepts [OF db_Get_total [OF assms(1)] assms(2,3), of i ns r]
  have "commit_block (prefix_block i b') (history db) (ns, r_Key r) = history db (ns, r_Key r)"
  proof (rule commit_block_other, intro ballI impI)
    fix t assume "t \<in> set (b_Transactions (prefix_block i b'))" and v: "tx_Valid t"
    then obtain j where "j < i" "t = b_Transactions b' ! j"
      using assms(4) by (auto simp: prefix_block_def in_set_conv_nth)
    then show "(ns, r_Key r) \<notin> written_keys t"
      using A assms(4-6) v foot len by auto
  qed
  then show ?thesis using A assms(4-6) foot len by (simp flip: state_of_history [OF assms(1)])
qed

text \<open>The database and the validator agree on which transactions of a block count.\<close>

lemma commit_block_prefix:
  "commit_block (prefix_block (Suc i) b) H = (if i < length (b_Transactions b)
     then commit_block (prefix_block i b \<lparr>b_Transactions := [b_Transactions b ! i]\<rparr>) (commit_block (prefix_block i b) H)
     else commit_block (prefix_block i b) H)"
  by (simp add: commit_block_def prefix_block_def block_writes_def take_Suc_conv_app_nth)

end
