(* ===== verification/Proto.thy ===== *)
theory Proto
  imports Block_Types
begin

section \<open>Wire messages and codecs\<close>

text \<open>
  The protobuf messages of Fabric and Fabric-X come from other repositories. Each message the code
  touches is a record of the fields the code reads or sets; a message pointer that may be nil is an
  option, and an \<open>optional\<close> scalar too. A repeated field decoded from bytes holds no nil element.

  How a message is encoded is not in this repository. The codecs, the header-type and metadata-index
  constants and the hash functions are the fields of one record, \<open>protos\<close> (in three parts), an argument of every
  definition that uses them. \<open>codec_ok\<close> is the documented behaviour of a codec: what was marshalled
  unmarshals to the same message.
\<close>

subsection \<open>Common messages\<close>

record pb_Timestamp =
  ts_Seconds :: int64
  ts_Nanos :: int32

record pb_Envelope =
  env_Payload :: bytes
  env_Signature :: bytes

record pb_Header =
  hdr_ChannelHeader :: bytes
  hdr_SignatureHeader :: bytes

record pb_Payload =
  pl_Header :: "pb_Header option"
  pl_Data :: bytes

record pb_ChannelHeader =
  ch_Type :: int32
  ch_Timestamp :: "pb_Timestamp option"
  ch_ChannelId :: string
  ch_TxId :: string
  ch_Epoch :: u64
  ch_Extension :: bytes

record pb_SignatureHeader =
  sh_Creator :: bytes
  sh_Nonce :: bytes

record pb_Config =
  cfg_Sequence :: u64
  cfg_Groups :: bytes

record pb_ConfigEnvelope =
  ce_Config :: "pb_Config option"

record pb_BlockHeader =
  bh_Number :: u64
  bh_PreviousHash :: bytes
  bh_DataHash :: bytes

record pb_Block =
  blk_Header :: "pb_BlockHeader option"
  blk_Data :: "bytes list option"
  blk_Metadata :: "bytes list option"

subsection \<open>Proposals and responses\<close>

record pb_Proposal =
  prop_Header :: bytes
  prop_Payload :: bytes

record pb_SignedProposal =
  sp_ProposalBytes :: bytes
  sp_Signature :: bytes

record pb_Response =
  rsp_Status :: int32
  rsp_Message :: string
  rsp_Payload :: bytes

record pb_Endorsement =
  end_Endorser :: bytes
  end_Signature :: bytes

record pb_ProposalResponse =
  pr_Version :: int32
  pr_Endorsement :: "pb_Endorsement option"
  pr_Payload :: bytes
  pr_Response :: "pb_Response option"

record pb_ChaincodeID =
  ccid_Name :: string
  ccid_Version :: string

record pb_ChaincodeSpec =
  cs_Type :: int32
  cs_ChaincodeId :: "pb_ChaincodeID option"
  cs_Input :: "bytes list option"

record pb_ChaincodeInvocationSpec =
  cis_ChaincodeSpec :: "pb_ChaincodeSpec option"

record pb_ChaincodeProposalPayload =
  cpp_Input :: bytes

subsection \<open>Fabric transactions\<close>

record pb_ChaincodeEndorsedAction =
  cea_ProposalResponsePayload :: bytes
  cea_Endorsements :: "pb_Endorsement list"

record pb_ChaincodeActionPayload =
  cap_ChaincodeProposalPayload :: bytes
  cap_Action :: "pb_ChaincodeEndorsedAction option"

record pb_Transaction =
  ptx_Actions :: "bytes list"

record pb_ProposalResponsePayload =
  prp_ProposalHash :: bytes
  prp_Extension :: bytes

record pb_ChaincodeAction =
  ca_Results :: bytes
  ca_Events :: bytes
  ca_Response :: "pb_Response option"
  ca_ChaincodeId :: "pb_ChaincodeID option"

record pb_ChaincodeEvent =
  ev_ChaincodeId :: string
  ev_TxId :: string
  ev_EventName :: string
  ev_Payload :: bytes

record pb_NsReadWriteSet =
  nrw_Namespace :: string
  nrw_Rwset :: bytes

record pb_TxReadWriteSet =
  trw_NsRwset :: "pb_NsReadWriteSet list"

record pb_KVRWSet =
  kvs_Reads :: "(string \<times> (u64 \<times> u64) option) list"
  kvs_Writes :: "(string \<times> bool \<times> bytes) list"

subsection \<open>Fabric-X transactions\<close>

record pb_Read =
  pr_Key :: bytes
  pr_Ver :: "u64 option"

record pb_ReadWrite =
  prw_Key :: bytes
  prw_Ver :: "u64 option"
  prw_Value :: bytes

record pb_Write =
  pw_Key :: bytes
  pw_Value :: bytes

record pb_TxNamespace =
  txn_NsId :: string
  txn_NsVersion :: u64
  txn_ReadsOnly :: "pb_Read list"
  txn_ReadWrites :: "pb_ReadWrite list"
  txn_BlindWrites :: "pb_Write list"

record pb_Identity =
  idn_MspId :: string
  idn_Creator :: bytes

type_synonym pb_Endorsements = "(bytes \<times> pb_Identity) list"

record pb_Tx =
  xtx_Metadata :: "bytes list"
  xtx_Namespaces :: "pb_TxNamespace list"
  xtx_Endorsements :: "pb_Endorsements list"

record pb_Metadata =
  md_InputArgs :: "bytes list"
  md_Event :: bytes
  md_EventName :: string
  md_Payload :: bytes

subsection \<open>Signers\<close>

text \<open>\<open>sdk.Signer\<close>: an interface of this repository whose implementations wrap an MSP.\<close>

record Signer =
  Sign :: "bytes \<Rightarrow> bytes res"
  Serialize :: "bytes res"

subsection \<open>The codecs\<close>

record common_protos =
  HeaderType_MESSAGE :: int32
  HeaderType_CONFIG :: int32
  HeaderType_ENDORSER_TRANSACTION :: int32
  TRANSACTIONS_FILTER :: nat
  um_Envelope :: "bytes \<Rightarrow> pb_Envelope res"
  um_Payload :: "bytes \<Rightarrow> pb_Payload res"
  ma_Payload :: "pb_Payload \<Rightarrow> bytes res"
  um_Header :: "bytes \<Rightarrow> pb_Header res"
  ma_Header :: "pb_Header \<Rightarrow> bytes res"
  um_ChannelHeader :: "bytes \<Rightarrow> pb_ChannelHeader res"
  ma_ChannelHeader :: "pb_ChannelHeader \<Rightarrow> bytes res"
  um_SignatureHeader :: "bytes \<Rightarrow> pb_SignatureHeader res"
  ma_SignatureHeader :: "pb_SignatureHeader \<Rightarrow> bytes res"
  um_ConfigEnvelope :: "bytes \<Rightarrow> pb_ConfigEnvelope res"
  ma_Config :: "pb_Config \<Rightarrow> bytes res"
  BlockHeaderHash :: "pb_BlockHeader \<Rightarrow> bytes"
  ComputeTxID :: "bytes \<Rightarrow> bytes \<Rightarrow> string"

record fabric_protos = common_protos +
  um_Proposal :: "bytes \<Rightarrow> pb_Proposal res"
  um_ChaincodeProposalPayload :: "bytes \<Rightarrow> pb_ChaincodeProposalPayload res"
  um_ChaincodeInvocationSpec :: "bytes \<Rightarrow> pb_ChaincodeInvocationSpec res"
  um_Transaction :: "bytes \<Rightarrow> pb_Transaction res"
  um_ChaincodeActionPayload :: "bytes \<Rightarrow> pb_ChaincodeActionPayload res"
  um_ProposalResponsePayload :: "bytes \<Rightarrow> pb_ProposalResponsePayload res"
  um_ChaincodeAction :: "bytes \<Rightarrow> pb_ChaincodeAction res"
  um_ChaincodeEvent :: "bytes \<Rightarrow> pb_ChaincodeEvent res"
  ma_ChaincodeEvent :: "pb_ChaincodeEvent \<Rightarrow> bytes res"
  um_TxReadWriteSet :: "bytes \<Rightarrow> pb_TxReadWriteSet res"
  ma_TxReadWriteSet :: "pb_TxReadWriteSet \<Rightarrow> bytes res"
  um_KVRWSet :: "bytes \<Rightarrow> pb_KVRWSet res"
  ma_KVRWSet :: "pb_KVRWSet \<Rightarrow> bytes res"
  ChaincodeSpec_CAR :: int32
  CreateChaincodeProposal ::
    "string \<Rightarrow> int32 \<Rightarrow> string \<Rightarrow> pb_ChaincodeInvocationSpec \<Rightarrow> bytes \<Rightarrow> bytes \<Rightarrow> pb_Proposal res"
  GetProposalHash1 :: "pb_Header \<Rightarrow> bytes \<Rightarrow> bytes res"
  GetBytesProposalResponsePayload ::
    "bytes \<Rightarrow> pb_Response \<Rightarrow> bytes \<Rightarrow> bytes \<Rightarrow> pb_ChaincodeID \<Rightarrow> bytes res"

record protos = fabric_protos +
  um_Tx :: "bytes \<Rightarrow> pb_Tx res"
  ma_Tx :: "pb_Tx \<Rightarrow> bytes res"
  um_Metadata :: "bytes \<Rightarrow> pb_Metadata res"
  ma_Metadata :: "pb_Metadata \<Rightarrow> bytes res"
  um_Identity :: "bytes \<Rightarrow> pb_Identity res"
  ASN1Marshal :: "pb_TxNamespace \<Rightarrow> string \<Rightarrow> bytes list \<Rightarrow> bytes res"

definition codec_ok :: "('m \<Rightarrow> bytes res) \<Rightarrow> (bytes \<Rightarrow> 'm res) \<Rightarrow> bool" where
  "codec_ok marshal unmarshal \<longleftrightarrow> (\<forall>m b. marshal m = Inr b \<longrightarrow> unmarshal b = Inr m)"

definition header_types_ok :: "protos \<Rightarrow> bool" where
  "header_types_ok pb \<longleftrightarrow>
     distinct [HeaderType_ENDORSER_TRANSACTION pb, HeaderType_CONFIG pb, HeaderType_MESSAGE pb]"

lemma codec_okD: "codec_ok marshal unmarshal \<Longrightarrow> marshal m = Inr b \<Longrightarrow> unmarshal b = Inr m"
  by (simp add: codec_ok_def)

lemma header_types_okD [dest]:
  "header_types_ok pb \<Longrightarrow> HeaderType_MESSAGE pb \<noteq> HeaderType_CONFIG pb"
  "header_types_ok pb \<Longrightarrow> HeaderType_ENDORSER_TRANSACTION pb \<noteq> HeaderType_CONFIG pb"
  "header_types_ok pb \<Longrightarrow> HeaderType_ENDORSER_TRANSACTION pb \<noteq> HeaderType_MESSAGE pb"
  by (auto simp: header_types_ok_def)

text \<open>A codec for one message, the smallest one that satisfies \<open>codec_ok\<close>.\<close>

definition marshal_only :: "'m \<Rightarrow> bytes \<Rightarrow> 'm \<Rightarrow> bytes res" where
  "marshal_only m b x = (if x = m then Inr b else Inl (Msg ''marshal'' []))"

definition unmarshal_only :: "'m \<Rightarrow> bytes \<Rightarrow> bytes \<Rightarrow> 'm res" where
  "unmarshal_only m b c = (if c = b then Inr m else Inl (Msg ''unmarshal'' []))"

lemma codec_only_ok: "codec_ok (marshal_only m b) (unmarshal_only m b)"
  by (simp add: codec_ok_def marshal_only_def unmarshal_only_def)

subsection \<open>Results that may panic\<close>

definition res_bind :: "'a res \<Rightarrow> (goerror \<Rightarrow> goerror) \<Rightarrow> ('a \<Rightarrow> 'b result) \<Rightarrow> 'b result" where
  "res_bind r wrap f = (case r of Inl e \<Rightarrow> Err (wrap e) | Inr x \<Rightarrow> f x)"

definition wrap :: "string \<Rightarrow> goerror \<Rightarrow> goerror" where
  "wrap fmt e = Msg fmt [FErr e]"

lemma res_bind_simps [simp]:
  "res_bind (Inl e) w f = Err (w e)"
  "res_bind (Inr x) w f = f x"
  by (simp_all add: res_bind_def)

lemma res_bind_eq_Ok: "res_bind r w f = Ok y \<longleftrightarrow> (\<exists>x. r = Inr x \<and> f x = Ok y)"
  by (cases r) simp_all

end
