(* ===== verification/Fabricx_Codec.thy ===== *)
theory Fabricx_Codec
  imports Proto
begin

section \<open>Fabric-X transactions: encoding and decoding\<close>

text \<open>
  \<open>endorsement/fabricx/builder.go\<close> turns a read/write set into an \<open>applicationpb.Tx\<close> and
  \<open>blocks/fabricx/decode.go\<close> turns one back into the SDK's types. This theory has both directions
  and their round trips. The order in which Go ranges over the reads that were not written is the
  argument \<open>ks\<close>.
\<close>

subsection \<open>Metadata (blocks/fabricx/decode.go)\<close>

record Metadata =
  meta_Event :: bytes
  meta_EventName :: string
  meta_Payload :: bytes
  meta_InputArgs :: "bytes list"

definition zero_Metadata :: Metadata where
  "zero_Metadata = \<lparr>meta_Event = '''', meta_EventName = '''', meta_Payload = '''', meta_InputArgs = []\<rparr>"

definition EncodeMetadata :: "protos \<Rightarrow> Metadata \<Rightarrow> bytes list res" where
  "EncodeMetadata pb m =
     (case ma_Metadata pb \<lparr>md_InputArgs = meta_InputArgs m, md_Event = meta_Event m,
             md_EventName = meta_EventName m, md_Payload = meta_Payload m\<rparr> of
        Inl err \<Rightarrow> Inl (Msg ''marshal metadata: %w'' [FErr err])
      | Inr b \<Rightarrow> Inr [b])"

definition DecodeMetadata :: "protos \<Rightarrow> bytes list \<Rightarrow> Metadata" where
  "DecodeMetadata pb metadata =
     (case metadata of
        [] \<Rightarrow> zero_Metadata
      | b # _ \<Rightarrow>
          (case um_Metadata pb b of
             Inl err \<Rightarrow> zero_Metadata
           | Inr pm \<Rightarrow> \<lparr>meta_Event = md_Event pm, meta_EventName = md_EventName pm,
                       meta_Payload = md_Payload pm, meta_InputArgs = md_InputArgs pm\<rparr>))"

subsection \<open>Namespaces (blocks/fabricx/decode.go)\<close>

definition decodeVersion :: "u64 option \<Rightarrow> Version option" where
  "decodeVersion v = map_option (\<lambda>n. \<lparr>v_BlockNum = n, v_TxNum = 0\<rparr>) v"

definition decodeNamespace :: "pb_TxNamespace \<Rightarrow> NsReadWriteSet" where
  "decodeNamespace ns =
     \<lparr>ns_Namespace = txn_NsId ns,
      ns_RWS = \<lparr>Reads =
          map (\<lambda>r. \<lparr>r_Key = pr_Key r, r_Version = decodeVersion (pr_Ver r)\<rparr>) (txn_ReadsOnly ns)
          @ map (\<lambda>rw. \<lparr>r_Key = prw_Key rw, r_Version = decodeVersion (prw_Ver rw)\<rparr>) (txn_ReadWrites ns),
        Writes =
          map (\<lambda>bw. \<lparr>w_Key = pw_Key bw, w_IsDelete = False, w_Value = pw_Value bw\<rparr>) (txn_BlindWrites ns)
          @ map (\<lambda>rw. \<lparr>w_Key = prw_Key rw, w_IsDelete = False, w_Value = prw_Value rw\<rparr>) (txn_ReadWrites ns)\<rparr>\<rparr>"

definition DecodeNamespaces :: "pb_TxNamespace list \<Rightarrow> NsReadWriteSet list" where
  "DecodeNamespaces namespaces = map decodeNamespace namespaces"

subsection \<open>buildTx (endorsement/fabricx/builder.go)\<close>

definition readByKey :: "KVRead list \<Rightarrow> (string \<rightharpoonup> KVRead)" where
  "readByKey reads = foldl (\<lambda>m r. m(r_Key r \<mapsto> r)) Map.empty reads"

text \<open>The loop over the writes: the read-writes, the blind writes and the reads that are left.\<close>

fun splitWrites :: "KVWrite list \<Rightarrow> (string \<rightharpoonup> KVRead)
    \<Rightarrow> pb_ReadWrite list \<times> pb_Write list \<times> (string \<rightharpoonup> KVRead)" where
  "splitWrites [] R = ([], [], R)"
| "splitWrites (w # ws) R =
     (let v = (if w_IsDelete w then '''' else w_Value w) in
      case R (w_Key w) of
        Some r \<Rightarrow>
          (case splitWrites ws (R(w_Key w := None)) of (rws, bws, R') \<Rightarrow>
             (\<lparr>prw_Key = w_Key w, prw_Ver = map_option v_BlockNum (r_Version r), prw_Value = v\<rparr> # rws, bws, R'))
      | None \<Rightarrow>
          (case splitWrites ws R of (rws, bws, R') \<Rightarrow> (rws, \<lparr>pw_Key = w_Key w, pw_Value = v\<rparr> # bws, R')))"

definition buildTx :: "string list \<Rightarrow> ReadWriteSet \<Rightarrow> string \<Rightarrow> u64 \<Rightarrow> bytes list \<Rightarrow> pb_Tx" where
  "buildTx ks rws ns nsVersion metadata =
     (case splitWrites (Writes rws) (readByKey (Reads rws)) of (readWrites, blindWrites, rest) \<Rightarrow>
        \<lparr>xtx_Metadata = metadata,
         xtx_Namespaces = [\<lparr>txn_NsId = ns, txn_NsVersion = nsVersion,
           txn_ReadsOnly = sort_key pr_Key (map (\<lambda>k. \<lparr>pr_Key = r_Key (the (rest k)),
               pr_Ver = map_option v_BlockNum (r_Version (the (rest k)))\<rparr>) ks),
           txn_ReadWrites = sort_key prw_Key readWrites,
           txn_BlindWrites = sort_key pw_Key blindWrites\<rparr>],
         xtx_Endorsements = []\<rparr>)"

definition unwritten :: "ReadWriteSet \<Rightarrow> (string \<rightharpoonup> KVRead)" where
  "unwritten rws = snd (snd (splitWrites (Writes rws) (readByKey (Reads rws))))"

subsection \<open>The loop in closed form\<close>

text \<open>For read/write sets with one read and one write per key, as \<open>SimulationStore.Result\<close> builds.\<close>

definition rws_keys_ok :: "ReadWriteSet \<Rightarrow> bool" where
  "rws_keys_ok rws \<longleftrightarrow> distinct (map r_Key (Reads rws)) \<and> distinct (map w_Key (Writes rws))"

definition write_value :: "KVWrite \<Rightarrow> bytes" where
  "write_value w = (if w_IsDelete w then '''' else w_Value w)"

lemma readByKey_snoc: "readByKey (reads @ [r]) = (readByKey reads)(r_Key r \<mapsto> r)"
  by (simp add: readByKey_def)

lemma readByKey_iff:
  assumes "distinct (map r_Key reads)"
  shows "readByKey reads k = Some r \<longleftrightarrow> r \<in> set reads \<and> r_Key r = k"
  using assms
proof (induction reads rule: rev_induct)
  case Nil
  then show ?case by (simp add: readByKey_def)
next
  case (snoc a reads)
  then have "r_Key a \<notin> r_Key ` set reads" by simp
  then have "r \<notin> set reads \<or> r_Key r \<noteq> r_Key a" by (metis image_eqI)
  with snoc show ?case by (auto simp: readByKey_snoc)
qed

lemma splitWrites_closed:
  assumes "distinct (map w_Key ws)"
  shows "splitWrites ws R =
    (map (\<lambda>w. \<lparr>prw_Key = w_Key w, prw_Ver = map_option v_BlockNum (r_Version (the (R (w_Key w)))),
                prw_Value = write_value w\<rparr>) (filter (\<lambda>w. R (w_Key w) \<noteq> None) ws),
     map (\<lambda>w. \<lparr>pw_Key = w_Key w, pw_Value = write_value w\<rparr>) (filter (\<lambda>w. R (w_Key w) = None) ws),
     R |` (- (w_Key ` set ws)))"
  using assms
proof (induction ws arbitrary: R)
  case (Cons w ws)
  let ?R = "R(w_Key w := None)"
  have other: "?R (w_Key u) = R (w_Key u)" if "u \<in> set ws" for u
    using Cons.prems that by (auto simp: rev_image_eqI)
  have IH: "splitWrites ws S =
    (map (\<lambda>w. \<lparr>prw_Key = w_Key w, prw_Ver = map_option v_BlockNum (r_Version (the (S (w_Key w)))),
                prw_Value = write_value w\<rparr>) (filter (\<lambda>w. S (w_Key w) \<noteq> None) ws),
     map (\<lambda>w. \<lparr>pw_Key = w_Key w, pw_Value = write_value w\<rparr>) (filter (\<lambda>w. S (w_Key w) = None) ws),
     S |` (- (w_Key ` set ws)))" for S
    using Cons by simp
  show ?case
  proof (cases "R (w_Key w)")
    case None
    then have "R |` (- (w_Key ` set ws)) = R |` (- insert (w_Key w) (w_Key ` set ws))"
      by (auto simp: restrict_map_def fun_eq_iff)
    with None show ?thesis by (simp add: IH write_value_def Let_def)
  next
    case (Some r)
    have rest: "?R |` (- (w_Key ` set ws)) = R |` (- insert (w_Key w) (w_Key ` set ws))"
      by (auto simp: restrict_map_def fun_eq_iff)
    have f: "filter (\<lambda>u. ?R (w_Key u) \<noteq> None) ws = filter (\<lambda>u. R (w_Key u) \<noteq> None) ws"
      "filter (\<lambda>u. ?R (w_Key u) = None) ws = filter (\<lambda>u. R (w_Key u) = None) ws"
      using other by (auto intro!: filter_cong simp del: fun_upd_apply)
    have m: "map (\<lambda>u. \<lparr>prw_Key = w_Key u, prw_Ver = map_option v_BlockNum (r_Version (the (?R (w_Key u)))),
                prw_Value = write_value u\<rparr>) (filter (\<lambda>u. R (w_Key u) \<noteq> None) ws)
       = map (\<lambda>u. \<lparr>prw_Key = w_Key u, prw_Ver = map_option v_BlockNum (r_Version (the (R (w_Key u)))),
                prw_Value = write_value u\<rparr>) (filter (\<lambda>u. R (w_Key u) \<noteq> None) ws)"
      using other by (intro map_cong refl) (simp del: fun_upd_apply)
    show ?thesis unfolding splitWrites.simps Let_def Some option.case IH f m rest prod.case
      by (simp add: Some write_value_def)
  qed
qed (simp add: restrict_map_def)

subsection \<open>Sorting makes the result canonical\<close>

definition rw_entry :: "(string \<rightharpoonup> KVRead) \<Rightarrow> KVWrite \<Rightarrow> pb_ReadWrite" where
  "rw_entry R w = \<lparr>prw_Key = w_Key w, prw_Ver = map_option v_BlockNum (r_Version (the (R (w_Key w)))),
     prw_Value = write_value w\<rparr>"

definition bw_entry :: "KVWrite \<Rightarrow> pb_Write" where
  "bw_entry w = \<lparr>pw_Key = w_Key w, pw_Value = write_value w\<rparr>"

definition ro_entry :: "KVRead \<Rightarrow> pb_Read" where
  "ro_entry r = \<lparr>pr_Key = r_Key r, pr_Ver = map_option v_BlockNum (r_Version r)\<rparr>"

lemma unwritten_closed:
  assumes "rws_keys_ok rws"
  shows "unwritten rws = readByKey (Reads rws) |` (- (w_Key ` set (Writes rws)))"
  using assms by (simp add: unwritten_def rws_keys_ok_def splitWrites_closed)

lemma buildTx_closed:
  assumes "rws_keys_ok rws"
  shows "buildTx ks rws ns v md =
    (let R = readByKey (Reads rws) in
     \<lparr>xtx_Metadata = md,
      xtx_Namespaces = [\<lparr>txn_NsId = ns, txn_NsVersion = v,
        txn_ReadsOnly = sort_key pr_Key (map (\<lambda>k. ro_entry (the (unwritten rws k))) ks),
        txn_ReadWrites = sort_key prw_Key (map (rw_entry R) (filter (\<lambda>w. R (w_Key w) \<noteq> None) (Writes rws))),
        txn_BlindWrites = sort_key pw_Key (map bw_entry (filter (\<lambda>w. R (w_Key w) = None) (Writes rws)))\<rparr>],
      xtx_Endorsements = []\<rparr>)"
  using assms unwritten_closed [OF assms]
  by (simp add: buildTx_def rws_keys_ok_def splitWrites_closed Let_def ro_entry_def bw_entry_def [abs_def]
      rw_entry_def [abs_def])

lemma readByKey_perm:
  assumes "mset reads = mset reads'" and "distinct (map r_Key reads)"
  shows "readByKey reads = readByKey reads'"
proof -
  have "distinct (map r_Key reads')" using assms by (metis mset_eq_imp_distinct_iff mset_map)
  then have "readByKey reads k = Some r \<longleftrightarrow> readByKey reads' k = Some r" for k r
    using assms mset_eq_setD [OF assms(1)] by (simp add: readByKey_iff)
  then show ?thesis by (intro ext) (metis option.exhaust)
qed

lemma unwritten_mem:
  assumes "rws_keys_ok rws"
  shows "unwritten rws k = Some r \<longleftrightarrow> r \<in> set (Reads rws) \<and> r_Key r = k \<and> k \<notin> w_Key ` set (Writes rws)"
  using assms by (auto simp: unwritten_closed restrict_map_def readByKey_iff rws_keys_ok_def)

lemma unwritten_the:
  assumes "rws_keys_ok rws" and "enumerates ks (unwritten rws)" and "k \<in> set ks"
  shows "unwritten rws k = Some (the (unwritten rws k))" and "r_Key (the (unwritten rws k)) = k"
proof -
  from assms(2,3) obtain r where r: "unwritten rws k = Some r" by (auto simp: enumerates_def)
  then show "unwritten rws k = Some (the (unwritten rws k))" by simp
  from r show "r_Key (the (unwritten rws k)) = k" using unwritten_mem [OF assms(1), of k r] by (metis option.sel)
qed

lemma distinct_of_keys: "distinct (map f xs) \<Longrightarrow> distinct xs"
  by (simp add: distinct_map)

lemma sort_entries_perm:
  assumes "mset xs = mset ys" and "distinct (map key (map f xs))"
  shows "sort_key key (map f xs) = sort_key key (map f ys)"
  using assms by (intro sort_key_perm_unique) simp_all

text \<open>
  C22: What the endorsers sign does not depend on the order in which Go ranges over its maps. For a
  read/write set with one read and one write per key, \<open>buildTx\<close> returns the same transaction for
  every order of the reads, of the writes and of the map iteration.
\<close>

theorem buildTx_deterministic:
  assumes "rws_keys_ok rws" and "mset (Reads rws) = mset (Reads rws')" and "mset (Writes rws) = mset (Writes rws')"
    and "enumerates ks (unwritten rws)" and "enumerates ks' (unwritten rws')"
  shows "buildTx ks rws ns v md = buildTx ks' rws' ns v md"
proof -
  have ok': "rws_keys_ok rws'" using assms(1-3) unfolding rws_keys_ok_def
    by (metis mset_eq_imp_distinct_iff mset_map)
  have R: "readByKey (Reads rws) = readByKey (Reads rws')"
    using assms(1,2) by (intro readByKey_perm) (simp_all add: rws_keys_ok_def)
  have W: "set (Writes rws) = set (Writes rws')" using assms(3) by (rule mset_eq_setD)
  have U: "unwritten rws = unwritten rws'" unfolding unwritten_closed [OF assms(1)] unwritten_closed [OF ok'] R W ..
  have ks: "mset ks = mset ks'" using assms(4,5) unfolding U by (rule enumerates_mset)
  have "map pr_Key (map (\<lambda>k. ro_entry (the (unwritten rws k))) ks) = ks"
    using unwritten_the [OF assms(1,4)] by (auto simp: ro_entry_def intro!: map_idI)
  then have 1: "sort_key pr_Key (map (\<lambda>k. ro_entry (the (unwritten rws k))) ks)
      = sort_key pr_Key (map (\<lambda>k. ro_entry (the (unwritten rws k))) ks')"
    using assms(4) by (intro sort_entries_perm ks) (simp add: enumerates_def)
  have d: "distinct (map w_Key (filter P (Writes rws)))" for P
    using assms(1) by (simp add: rws_keys_ok_def distinct_map_filter)
  have m: "mset (filter P (Writes rws)) = mset (filter P (Writes rws'))" for P using assms(3) by simp
  have 2: "sort_key prw_Key (map (rw_entry R) (filter P (Writes rws)))
      = sort_key prw_Key (map (rw_entry R) (filter P (Writes rws')))" for P R
    by (rule sort_entries_perm [OF m]) (use d [of P] in \<open>simp add: rw_entry_def comp_def\<close>)
  have 3: "sort_key pw_Key (map bw_entry (filter P (Writes rws)))
      = sort_key pw_Key (map bw_entry (filter P (Writes rws')))" for P
    by (rule sort_entries_perm [OF m]) (use d [of P] in \<open>simp add: bw_entry_def comp_def\<close>)
  show ?thesis unfolding buildTx_closed [OF assms(1)] buildTx_closed [OF ok'] Let_def U R 1 [unfolded U] 2 3 ..
qed

subsection \<open>Round trips\<close>

text \<open>What Fabric-X keeps of a read and of a write: the counter, and the value with a deletion emptied.\<close>

definition strip_read :: "KVRead \<Rightarrow> KVRead" where
  "strip_read r = \<lparr>r_Key = r_Key r, r_Version = decodeVersion (map_option v_BlockNum (r_Version r))\<rparr>"

definition strip_write :: "KVWrite \<Rightarrow> KVWrite" where
  "strip_write w = \<lparr>w_Key = w_Key w, w_IsDelete = False, w_Value = write_value w\<rparr>"

lemma readByKey_the:
  assumes "distinct (map r_Key reads)" and "w \<in> set (filter (\<lambda>w. readByKey reads (w_Key w) \<noteq> None) ws)"
  shows "the (readByKey reads (w_Key w)) \<in> set reads \<and> r_Key (the (readByKey reads (w_Key w))) = w_Key w"
proof -
  from assms(2) obtain r where "readByKey reads (w_Key w) = Some r" by auto
  with readByKey_iff [OF assms(1), of "w_Key w" r] show ?thesis by (metis option.sel)
qed

lemma reads_only_mset:
  assumes "rws_keys_ok rws" and "enumerates ks (unwritten rws)"
  shows "mset (map (\<lambda>k. the (unwritten rws k)) ks)
    = mset (filter (\<lambda>r. r_Key r \<notin> w_Key ` set (Writes rws)) (Reads rws))"
    (is "mset ?xs = mset (filter (\<lambda>r. r_Key r \<notin> ?W) _)")
proof -
  have dr: "distinct (map r_Key (Reads rws))" using assms(1) by (simp add: rws_keys_ok_def)
  show ?thesis
  proof (rule set_eq_iff_mset_eq_distinct [THEN iffD1])
    show "distinct (map (\<lambda>k. the (unwritten rws k)) ks)"
    proof (rule distinct_of_keys)
      have "map r_Key (map (\<lambda>k. the (unwritten rws k)) ks) = ks"
        unfolding map_map by (rule map_idI) (simp add: unwritten_the(2) [OF assms])
      then show "distinct (map r_Key (map (\<lambda>k. the (unwritten rws k)) ks))"
        using assms(2) by (simp only: enumerates_def)
    qed
    show "distinct (filter (\<lambda>r. r_Key r \<notin> ?W) (Reads rws))" using dr by (simp add: distinct_map)
    show "set (map (\<lambda>k. the (unwritten rws k)) ks) = set (filter (\<lambda>r. r_Key r \<notin> ?W) (Reads rws))"
    proof (intro set_eqI iffI)
      fix r assume "r \<in> set (map (\<lambda>k. the (unwritten rws k)) ks)"
      then obtain k where "k \<in> set ks" "r = the (unwritten rws k)" by auto
      with unwritten_the(1) [OF assms] have "unwritten rws k = Some r" by metis
      then show "r \<in> set (filter (\<lambda>r. r_Key r \<notin> ?W) (Reads rws))" using unwritten_mem [OF assms(1), of k r] by simp
    next
      fix r assume "r \<in> set (filter (\<lambda>r. r_Key r \<notin> ?W) (Reads rws))"
      then have r: "unwritten rws (r_Key r) = Some r" using unwritten_mem [OF assms(1), of "r_Key r" r] by simp
      then have "r_Key r \<in> set ks" using assms(2) by (auto simp: enumerates_def)
      then have "the (unwritten rws (r_Key r)) \<in> set (map (\<lambda>k. the (unwritten rws k)) ks)" by auto
      with r show "r \<in> set (map (\<lambda>k. the (unwritten rws k)) ks)" by simp
    qed
  qed
qed

lemma reads_written_mset:
  assumes "rws_keys_ok rws"
  shows "mset (map (\<lambda>w. the (readByKey (Reads rws) (w_Key w)))
      (filter (\<lambda>w. readByKey (Reads rws) (w_Key w) \<noteq> None) (Writes rws)))
    = mset (filter (\<lambda>r. r_Key r \<in> w_Key ` set (Writes rws)) (Reads rws))"
proof -
  let ?R = "readByKey (Reads rws)" and ?W = "w_Key ` set (Writes rws)"
  let ?rw = "filter (\<lambda>w. ?R (w_Key w) \<noteq> None) (Writes rws)"
  have dr: "distinct (map r_Key (Reads rws))" and dw: "distinct (map w_Key (Writes rws))"
    using assms by (simp_all add: rws_keys_ok_def)
  note Rmem = readByKey_the [OF dr, where ws = "Writes rws"]
  show ?thesis
  proof (rule set_eq_iff_mset_eq_distinct [THEN iffD1])
    have "map r_Key (map (\<lambda>w. the (?R (w_Key w))) ?rw) = map w_Key ?rw"
      unfolding map_map by (rule map_cong [OF refl]) (use Rmem in simp)
    moreover have "distinct (map w_Key ?rw)" using dw by (rule distinct_map_filter)
    ultimately have "distinct (map r_Key (map (\<lambda>w. the (?R (w_Key w))) ?rw))" by (rule ssubst)
    then show "distinct (map (\<lambda>w. the (?R (w_Key w))) ?rw)" by (rule distinct_of_keys)
    show "distinct (filter (\<lambda>r. r_Key r \<in> ?W) (Reads rws))" using dr by (simp add: distinct_map)
    show "set (map (\<lambda>w. the (?R (w_Key w))) ?rw) = set (filter (\<lambda>r. r_Key r \<in> ?W) (Reads rws))"
    proof (intro set_eqI iffI)
      fix r assume "r \<in> set (map (\<lambda>w. the (?R (w_Key w))) ?rw)"
      then show "r \<in> set (filter (\<lambda>r. r_Key r \<in> ?W) (Reads rws))" using Rmem by auto
    next
      fix r assume r: "r \<in> set (filter (\<lambda>r. r_Key r \<in> ?W) (Reads rws))"
      then obtain w where w: "w \<in> set (Writes rws)" "w_Key w = r_Key r" by force
      with r have "?R (w_Key w) = Some r" by (simp add: readByKey_iff [OF dr])
      then have "w \<in> set ?rw" "r = the (?R (w_Key w))" using w(1) by simp_all
      then show "r \<in> set (map (\<lambda>w. the (?R (w_Key w))) ?rw)" by (metis (no_types, lifting) image_eqI list.set_map)
    qed
  qed
qed

lemma filter_mset_parts: "filter_mset P M + filter_mset (\<lambda>x. \<not> P x) M = M"
  by (rule multiset_partition [symmetric])

lemma buildTx_decode:
  assumes "rws_keys_ok rws" and "enumerates ks (unwritten rws)"
  shows "\<exists>rws'. DecodeNamespaces (xtx_Namespaces (buildTx ks rws ns v md)) = [\<lparr>ns_Namespace = ns, ns_RWS = rws'\<rparr>]
    \<and> mset (Reads rws') = image_mset strip_read (mset (Reads rws))
    \<and> mset (Writes rws') = image_mset strip_write (mset (Writes rws))"
proof -
  let ?R = "readByKey (Reads rws)" and ?W = "w_Key ` set (Writes rws)"
  let ?rw = "filter (\<lambda>w. ?R (w_Key w) \<noteq> None) (Writes rws)" and ?bw = "filter (\<lambda>w. ?R (w_Key w) = None) (Writes rws)"
  have dr: "distinct (map r_Key (Reads rws))" and dw: "distinct (map w_Key (Writes rws))"
    using assms(1) by (simp_all add: rws_keys_ok_def)
  note Rmem = readByKey_the [OF dr, where ws = "Writes rws"]
  note ro = reads_only_mset [OF assms] and rw = reads_written_mset [OF assms(1)]
  define rws' where "rws' = ns_RWS (decodeNamespace (hd (xtx_Namespaces (buildTx ks rws ns v md))))"
  let ?dro = "\<lambda>r. \<lparr>r_Key = pr_Key r, r_Version = decodeVersion (pr_Ver r)\<rparr>"
  let ?drw = "\<lambda>rw. \<lparr>r_Key = prw_Key rw, r_Version = decodeVersion (prw_Ver rw)\<rparr>"
  have "mset (Reads rws') = mset (map ?dro (map (\<lambda>k. ro_entry (the (unwritten rws k))) ks))
      + mset (map ?drw (map (rw_entry ?R) ?rw))"
    unfolding rws'_def buildTx_closed [OF assms(1)] Let_def decodeNamespace_def
    by (simp add: image_mset.compositionality comp_def)
  also have "map ?dro (map (\<lambda>k. ro_entry (the (unwritten rws k))) ks) = map strip_read (map (\<lambda>k. the (unwritten rws k)) ks)"
    by (simp add: ro_entry_def strip_read_def)
  also have "map ?drw (map (rw_entry ?R) ?rw) = map strip_read (map (\<lambda>w. the (?R (w_Key w))) ?rw)"
    unfolding map_map by (rule map_cong [OF refl]) (use Rmem in \<open>simp add: rw_entry_def strip_read_def\<close>)
  also have "mset (map strip_read (map (\<lambda>k. the (unwritten rws k)) ks)) + mset (map strip_read (map (\<lambda>w. the (?R (w_Key w))) ?rw))
      = image_mset strip_read (mset (Reads rws))"
    unfolding mset_map [of strip_read] ro rw image_mset_union [symmetric] mset_filter
    using filter_mset_parts [of "\<lambda>r. r_Key r \<notin> ?W" "mset (Reads rws)"] by (simp only: not_not)
  finally have "mset (Reads rws') = image_mset strip_read (mset (Reads rws))" .
  moreover have "mset (Writes rws') = mset (map strip_write ?bw) + mset (map strip_write ?rw)"
    unfolding rws'_def buildTx_closed [OF assms(1)] Let_def decodeNamespace_def
    by (simp add: image_mset.compositionality comp_def bw_entry_def rw_entry_def strip_write_def [abs_def])
  moreover have "\<dots> = image_mset strip_write (mset (Writes rws))"
    unfolding mset_map mset_filter image_mset_union [symmetric] filter_mset_parts ..
  ultimately show ?thesis
    unfolding rws'_def by (auto simp: DecodeNamespaces_def buildTx_closed [OF assms(1)] Let_def decodeNamespace_def)
qed

text \<open>
  Encoding and decoding keep the read/write set. Decoding the namespaces of the transaction
  built from a set with one read and one write per key gives one namespace with exactly its reads and
  its writes, in which only the transaction number of a version is dropped and a deletion is a write
  of the empty value.
\<close>

theorem buildTx_DecodeNamespaces:
  assumes "rws_keys_ok rws" and "enumerates ks (unwritten rws)"
  shows "\<exists>rws'. DecodeNamespaces (xtx_Namespaces (buildTx ks rws ns v md)) = [\<lparr>ns_Namespace = ns, ns_RWS = rws'\<rparr>]
    \<and> mset (Reads rws') = image_mset strip_read (mset (Reads rws))
    \<and> mset (Writes rws') = image_mset strip_write (mset (Writes rws))"
  using assms by (rule buildTx_decode)

subsection \<open>Witnesses\<close>

text \<open>A set with a read, a read-write that deletes, and a blind write, in two orders.\<close>

definition sample_rws :: ReadWriteSet where
  "sample_rws = \<lparr>Reads = [\<lparr>r_Key = ''a'', r_Version = Some \<lparr>v_BlockNum = 3, v_TxNum = 0\<rparr>\<rparr>,
       \<lparr>r_Key = ''b'', r_Version = None\<rparr>],
     Writes = [\<lparr>w_Key = ''c'', w_IsDelete = False, w_Value = ''v''\<rparr>,
       \<lparr>w_Key = ''b'', w_IsDelete = True, w_Value = ''''\<rparr>]\<rparr>"

definition sample_rws_rev :: ReadWriteSet where
  "sample_rws_rev = \<lparr>Reads = rev (Reads sample_rws), Writes = rev (Writes sample_rws)\<rparr>"

lemma sample_rws_ok: "rws_keys_ok sample_rws"
  by (simp add: rws_keys_ok_def sample_rws_def)

lemma sample_rws_unwritten: "enumerates [''a''] (unwritten sample_rws)" "enumerates [''a''] (unwritten sample_rws_rev)"
  by (simp_all add: unwritten_def sample_rws_def sample_rws_rev_def readByKey_def enumerates_def Let_def)

theorem buildTx_deterministic_witness:
  "buildTx [''a''] sample_rws ''ns'' 0 [] = buildTx [''a''] sample_rws_rev ''ns'' 0 []
   \<and> length (txn_ReadWrites (hd (xtx_Namespaces (buildTx [''a''] sample_rws ''ns'' 0 [])))) = 1"
proof
  show "buildTx [''a''] sample_rws ''ns'' 0 [] = buildTx [''a''] sample_rws_rev ''ns'' 0 []"
    by (rule buildTx_deterministic [OF sample_rws_ok _ _ sample_rws_unwritten])
      (simp_all add: sample_rws_rev_def)
  show "length (txn_ReadWrites (hd (xtx_Namespaces (buildTx [''a''] sample_rws ''ns'' 0 [])))) = 1"
    by (simp add: buildTx_def sample_rws_def readByKey_def Let_def)
qed

theorem buildTx_DecodeNamespaces_witness:
  "\<exists>rws'. DecodeNamespaces (xtx_Namespaces (buildTx [''a''] sample_rws ''ns'' 0 [])) = [\<lparr>ns_Namespace = ''ns'', ns_RWS = rws'\<rparr>]
     \<and> image_mset r_Key (mset (Reads rws')) = {#''a'', ''b''#}
     \<and> image_mset w_Value (mset (Writes rws')) = {#''v'', ''''#}"
proof -
  from buildTx_DecodeNamespaces [OF sample_rws_ok sample_rws_unwritten(1), of "''ns''" 0 "[]"]
  obtain rws' where r: "DecodeNamespaces (xtx_Namespaces (buildTx [''a''] sample_rws ''ns'' 0 [])) = [\<lparr>ns_Namespace = ''ns'', ns_RWS = rws'\<rparr>]"
    "mset (Reads rws') = image_mset strip_read (mset (Reads sample_rws))"
    "mset (Writes rws') = image_mset strip_write (mset (Writes sample_rws))" by blast
  then show ?thesis
    by (intro exI [of _ rws']) (simp add: sample_rws_def strip_read_def strip_write_def write_value_def)
qed

end
