(* ===== verification/All_Tx.thy ===== *)
theory All_Tx
  imports Fabricx_Codec "HOL-Library.Sublist"
begin

section \<open>The feed of committed transactions (notification/all\_tx.go)\<close>

text \<open>
  \<open>AllTxStreamer.Stream\<close> runs two goroutines: the peer's receive loop, which puts every batch in a bounded
  queue, and one that takes batches out and runs the handlers on them. The model is a step relation over the
  queue, the two contexts and the program counters of the two goroutines. \<open>enqueued\<close> and \<open>handled\<close> are
  the logs of what went into the queue and of what all handlers have accepted.
\<close>

subsection \<open>Batches\<close>

record CommittedTxEvent =
  ce_Transaction :: Transaction
  ce_BlockNum :: u64
  ce_Endorsements :: "pb_Endorsements list"

record AllTxBatch =
  ba_BlockNumber :: u64
  ba_Hash :: bytes
  ba_ParentHash :: bytes
  ba_Events :: "CommittedTxEvent list"

record StreamAllRequest =
  sr_FilterNamespaces :: "string list"
  sr_FilterStatus :: "Status list"
  sr_IncludeReadWriteSets :: bool
  sr_IncludeEndorsements :: bool
  sr_IncludeMetadata :: bool

type_synonym 's batch_handler = "'s \<Rightarrow> AllTxBatch \<Rightarrow> 's \<times> goerror option"

fun handleBatch :: "'s batch_handler list \<Rightarrow> AllTxBatch \<Rightarrow> 's \<Rightarrow> 's \<times> goerror option" where
  "handleBatch [] batch s = (s, None)"
| "handleBatch (h # hs) batch s =
     (case h s batch of
        (s', Some err) \<Rightarrow> (s', Some (Msg ''handle batch %d: %w'' [FInt (uint (ba_BlockNumber batch)), FErr err]))
      | (s', None) \<Rightarrow> handleBatch hs batch s')"

definition DefaultQueueDepth :: nat where
  "DefaultQueueDepth = 64"

definition queueDepthFor :: "int \<Rightarrow> nat" where
  "queueDepthFor queueDepth = (if queueDepth \<le> 0 then DefaultQueueDepth else nat queueDepth)"

subsection \<open>The state of a Stream call\<close>

text \<open>
  The receive loop is between batches, blocked in \<open>ProcessBatch\<close> on a full queue, has returned, waits for the
  handlers after closing the queue, or \<open>Stream\<close> has returned. The handler goroutine is before its context
  check, in its \<open>select\<close>, or done with its error.
\<close>

datatype recv_pc = Receiving | Offering AllTxBatch | Ended "goerror option" | Waiting "goerror option" | StreamReturned "goerror option"

datatype hand_pc = HandCheck | HandSelect | HandDone "goerror option"

record 's stream_world =
  queue :: "AllTxBatch list"
  queueClosed :: bool
  callerDone :: bool
  streamCancelled :: bool
  recvPC :: recv_pc
  handPC :: hand_pc
  handState :: 's
  enqueued :: "AllTxBatch list"
  handled :: "AllTxBatch list"

definition streamStart :: "'s \<Rightarrow> 's stream_world" where
  "streamStart s = \<lparr>queue = [], queueClosed = False, callerDone = False, streamCancelled = False, recvPC = Receiving,
     handPC = HandCheck, handState = s, enqueued = [], handled = []\<rparr>"

definition streamCtxDone :: "'s stream_world \<Rightarrow> bool" where
  "streamCtxDone w \<longleftrightarrow> callerDone w \<or> streamCancelled w"

definition enqueue :: "AllTxBatch \<Rightarrow> 's stream_world \<Rightarrow> 's stream_world" where
  "enqueue batch w = w\<lparr>queue := queue w @ [batch], enqueued := enqueued w @ [batch], recvPC := Receiving\<rparr>"

text \<open>\<open>ProcessBatch\<close>: the send without waiting, or the wait on a full queue.\<close>

definition allTx_ProcessBatch :: "nat \<Rightarrow> AllTxBatch \<Rightarrow> 's stream_world \<Rightarrow> 's stream_world" where
  "allTx_ProcessBatch depth batch w =
     (if length (queue w) < depth then enqueue batch w else w\<lparr>recvPC := Offering batch\<rparr>)"

definition handlersDone :: "goerror option \<Rightarrow> 's stream_world \<Rightarrow> 's stream_world" where
  "handlersDone err w = w\<lparr>handPC := HandDone err, streamCancelled := True\<rparr>"

definition takeBatch :: "'s batch_handler list \<Rightarrow> 's stream_world \<Rightarrow> 's stream_world" where
  "takeBatch hs w =
     (case queue w of
        [] \<Rightarrow> w
      | batch # rest \<Rightarrow>
          (case handleBatch hs batch (handState w) of
             (s, None) \<Rightarrow> w\<lparr>queue := rest, handState := s, handled := handled w @ [batch], handPC := HandCheck\<rparr>
           | (s, Some err) \<Rightarrow> handlersDone (Some err) (w\<lparr>queue := rest, handState := s\<rparr>)))"

definition streamResult :: "goerror option \<Rightarrow> bool \<Rightarrow> goerror option \<Rightarrow> goerror option" where
  "streamResult handlerErr ctxErr streamErr =
     (if handlerErr \<noteq> None then handlerErr else if ctxErr then None else streamErr)"

inductive stream_step :: "nat \<Rightarrow> 's batch_handler list \<Rightarrow> 's stream_world \<Rightarrow> 's stream_world \<Rightarrow> bool"
  for depth hs where
  cancel: "stream_step depth hs w (w\<lparr>callerDone := True\<rparr>)"
| recv_batch: "recvPC w = Receiving \<Longrightarrow> stream_step depth hs w (allTx_ProcessBatch depth batch w)"
| recv_room: "recvPC w = Offering batch \<Longrightarrow> length (queue w) < depth \<Longrightarrow> stream_step depth hs w (enqueue batch w)"
| recv_abort: "recvPC w = Offering batch \<Longrightarrow> streamCtxDone w \<Longrightarrow> stream_step depth hs w (w\<lparr>recvPC := Ended (Some err)\<rparr>)"
| recv_end: "recvPC w = Receiving \<Longrightarrow> stream_step depth hs w (w\<lparr>recvPC := Ended err\<rparr>)"
| close: "recvPC w = Ended err \<Longrightarrow> stream_step depth hs w (w\<lparr>queueClosed := True, recvPC := Waiting err\<rparr>)"
| join: "recvPC w = Waiting err \<Longrightarrow> handPC w = HandDone handlerErr
    \<Longrightarrow> stream_step depth hs w (w\<lparr>recvPC := StreamReturned (streamResult handlerErr (callerDone w) err)\<rparr>)"
| check_done: "handPC w = HandCheck \<Longrightarrow> streamCtxDone w \<Longrightarrow> stream_step depth hs w (handlersDone None w)"
| check: "handPC w = HandCheck \<Longrightarrow> \<not> streamCtxDone w \<Longrightarrow> stream_step depth hs w (w\<lparr>handPC := HandSelect\<rparr>)"
| select_done: "handPC w = HandSelect \<Longrightarrow> streamCtxDone w \<Longrightarrow> stream_step depth hs w (handlersDone None w)"
| select_batch: "handPC w = HandSelect \<Longrightarrow> queue w \<noteq> [] \<Longrightarrow> stream_step depth hs w (takeBatch hs w)"
| select_closed: "handPC w = HandSelect \<Longrightarrow> queue w = [] \<Longrightarrow> queueClosed w \<Longrightarrow> stream_step depth hs w (handlersDone None w)"

subsection \<open>Order and completeness\<close>

fun handledAll :: "'s batch_handler list \<Rightarrow> AllTxBatch list \<Rightarrow> 's \<Rightarrow> 's option" where
  "handledAll hs [] s = Some s"
| "handledAll hs (b # bs) s = (case handleBatch hs b s of (s', None) \<Rightarrow> handledAll hs bs s' | _ \<Rightarrow> None)"

lemma handledAll_snoc:
  "handledAll hs (bs @ [b]) s = (case handledAll hs bs s of None \<Rightarrow> None
     | Some s' \<Rightarrow> (case handleBatch hs b s' of (s'', None) \<Rightarrow> Some s'' | _ \<Rightarrow> None))"
  by (induction hs bs s rule: handledAll.induct) (auto split: prod.splits option.splits)

definition stream_inv :: "nat \<Rightarrow> 's batch_handler list \<Rightarrow> 's \<Rightarrow> 's stream_world \<Rightarrow> bool" where
  "stream_inv depth hs s0 w \<longleftrightarrow> length (queue w) \<le> depth
     \<and> prefix (handled w) (enqueued w)
     \<and> ((\<forall>err. handPC w \<noteq> HandDone (Some err)) \<longrightarrow> enqueued w = handled w @ queue w \<and> handledAll hs (handled w) s0 = Some (handState w))
     \<and> (handPC w = HandDone None \<and> \<not> callerDone w \<longrightarrow> queue w = [] \<and> queueClosed w)
     \<and> (queueClosed w \<longleftrightarrow> (\<exists>err. recvPC w = Waiting err \<or> recvPC w = StreamReturned err))
     \<and> (streamCancelled w \<longleftrightarrow> (\<exists>err. handPC w = HandDone err))
     \<and> (\<forall>r. recvPC w = StreamReturned r \<longrightarrow> (\<exists>err. handPC w = HandDone err))"

lemma stream_inv_enqueue:
  assumes "stream_inv depth hs s0 w" and "recvPC w = Receiving \<or> recvPC w = Offering b'" and "length (queue w) < depth"
  shows "stream_inv depth hs s0 (enqueue b w)"
  using assms unfolding stream_inv_def enqueue_def by auto

lemma stream_inv_take:
  assumes "stream_inv depth hs s0 w" and "handPC w = HandSelect"
  shows "stream_inv depth hs s0 (takeBatch hs w)"
proof (cases "queue w")
  case (Cons b rest)
  obtain s e where h: "handleBatch hs b (handState w) = (s, e)" by fastforce
  with Cons assms show ?thesis
    by (cases e) (auto simp: takeBatch_def handlersDone_def stream_inv_def handledAll_snoc)
qed (use assms in \<open>simp add: takeBatch_def\<close>)

lemma stream_inv_step:
  assumes "stream_step depth hs w w'" and "stream_inv depth hs s0 w"
  shows "stream_inv depth hs s0 w'"
  using assms(1)
proof (cases rule: stream_step.cases)
  case (recv_batch batch)
  with assms(2) stream_inv_enqueue [OF assms(2), of _ batch] show ?thesis
    by (auto simp: allTx_ProcessBatch_def) (auto simp: stream_inv_def)
next
  case (recv_room batch)
  with assms(2) stream_inv_enqueue [OF assms(2)] show ?thesis by auto
next
  case select_batch
  with assms(2) stream_inv_take show ?thesis by auto
qed (use assms(2) in \<open>auto simp: stream_inv_def handlersDone_def streamCtxDone_def\<close>)

lemma stream_steps_inv:
  "(stream_step depth hs)\<^sup>*\<^sup>* (streamStart s0) w \<Longrightarrow> stream_inv depth hs s0 w"
proof (induction rule: rtranclp_induct)
  case base
  show ?case by (simp add: stream_inv_def streamStart_def)
next
  case (step y z)
  show ?case by (rule stream_inv_step [OF step(2,3)])
qed

text \<open>
  C21: Batches are handled in the order they were received, none twice and none skipped, and never more than the
  queue's depth are waiting. When \<open>Stream\<close> returns, the handler goroutine has exited; unless a handler failed or
  the caller cancelled, every batch that was received has then been handled.
\<close>

theorem stream_in_order:
  assumes "(stream_step depth hs)\<^sup>*\<^sup>* (streamStart s0) w"
  shows "(\<exists>rest. enqueued w = handled w @ rest) \<and> length (queue w) \<le> depth
    \<and> (\<forall>r. recvPC w = StreamReturned r \<longrightarrow> (\<exists>e. handPC w = HandDone e)
        \<and> (handPC w = HandDone None \<longrightarrow> \<not> callerDone w \<longrightarrow>
             handled w = enqueued w \<and> handledAll hs (enqueued w) s0 = Some (handState w)))"
  using stream_steps_inv [OF assms] unfolding stream_inv_def by (auto simp: prefix_def)

definition sample_batch :: AllTxBatch where
  "sample_batch = \<lparr>ba_BlockNumber = 1, ba_Hash = '''', ba_ParentHash = '''', ba_Events = []\<rparr>"

theorem stream_in_order_witness:
  "\<exists>w. (stream_step 1 [\<lambda>n b. (Suc n, None)])\<^sup>*\<^sup>* (streamStart 0) w \<and> recvPC w = StreamReturned None
     \<and> handled w = [sample_batch] \<and> enqueued w = [sample_batch] \<and> handState w = 1"
proof -
  let ?hs = "[\<lambda>n b. (Suc n, None)]"
  define w1 where "w1 = enqueue sample_batch (streamStart (0::nat))"
  define w2 where "w2 = w1\<lparr>recvPC := Ended None\<rparr>\<lparr>queueClosed := True, recvPC := Waiting None\<rparr>"
  define w3 where "w3 = takeBatch ?hs (w2\<lparr>handPC := HandSelect\<rparr>)"
  define w4 where "w4 = handlersDone None (w3\<lparr>handPC := HandSelect\<rparr>)"
  define w5 where "w5 = w4\<lparr>recvPC := StreamReturned (streamResult None (callerDone w4) None)\<rparr>"
  note defs = w1_def w2_def w3_def w4_def w5_def enqueue_def streamStart_def takeBatch_def handlersDone_def
    streamCtxDone_def streamResult_def
  have "stream_step 1 ?hs (streamStart 0) w1"
    using stream_step.recv_batch [of "streamStart 0" 1 ?hs sample_batch] by (simp add: w1_def streamStart_def allTx_ProcessBatch_def)
  moreover have "stream_step 1 ?hs w1 (w1\<lparr>recvPC := Ended None\<rparr>)" by (rule stream_step.recv_end) (simp add: defs)
  moreover have "stream_step 1 ?hs (w1\<lparr>recvPC := Ended None\<rparr>) w2" unfolding w2_def by (rule stream_step.close) simp
  moreover have "stream_step 1 ?hs w2 (w2\<lparr>handPC := HandSelect\<rparr>)" by (rule stream_step.check) (simp_all add: defs)
  moreover have "stream_step 1 ?hs (w2\<lparr>handPC := HandSelect\<rparr>) w3" unfolding w3_def by (rule stream_step.select_batch) (simp_all add: defs)
  moreover have "stream_step 1 ?hs w3 (w3\<lparr>handPC := HandSelect\<rparr>)" by (rule stream_step.check) (simp_all add: defs)
  moreover have "stream_step 1 ?hs (w3\<lparr>handPC := HandSelect\<rparr>) w4" unfolding w4_def by (rule stream_step.select_closed) (simp_all add: defs)
  moreover have "stream_step 1 ?hs w4 w5" unfolding w5_def by (rule stream_step.join) (simp_all add: defs)
  ultimately have s: "(stream_step 1 ?hs)\<^sup>*\<^sup>* (streamStart 0) w5" by (simp add: converse_rtranclp_into_rtranclp)
  have w5: "recvPC w5 = StreamReturned None" "handPC w5 = HandDone None" "\<not> callerDone w5" "enqueued w5 = [sample_batch]"
    by (simp_all add: defs)
  from stream_in_order [OF s] w5 have "handled w5 = [sample_batch]" "handledAll ?hs [sample_batch] 0 = Some (handState w5)" by auto
  with s w5 show ?thesis by (intro exI [of _ w5]) auto
qed

end
