(* ===== verification/Finality.thy ===== *)
theory Finality
  imports Status_Codes
begin

section \<open>Waiting for finality (notification/notifier.go, notification/finality.go)\<close>

text \<open>
  A \<open>FinalityListener\<close> hands the status of a transaction to whoever registered for it. Registrations,
  notifications of the stream and of the reconciliation, and receives of the callers run concurrently; the
  critical sections of the code are the steps of the model. Channels are numbered; a response channel has
  room for one event, the subscription channel for 256 batches. \<open>delivered\<close> is the history of each channel:
  every event that was ever sent on it.
\<close>

subsection \<open>Events and processors\<close>

record TxStatusEvent =
  te_TxID :: string
  te_BlockNum :: u64
  te_TxNum :: "32 word"
  te_Status :: Status
  te_RawCode :: int32
  te_Reason :: gomsg

definition te_Valid :: "TxStatusEvent \<Rightarrow> bool" where
  "te_Valid e = status_Valid (te_Status e)"

type_synonym 's status_handler = "'s \<Rightarrow> TxStatusEvent list \<Rightarrow> 's \<times> goerror option"

fun handleStatuses :: "'s status_handler list \<Rightarrow> TxStatusEvent list \<Rightarrow> 's \<Rightarrow> 's \<times> goerror option" where
  "handleStatuses [] events s = (s, None)"
| "handleStatuses (h # hs) events s =
     (case h s events of
        (s', Some err) \<Rightarrow> (s', Some (Msg ''handle batch: %w'' [FErr err]))
      | (s', None) \<Rightarrow> handleStatuses hs events s')"

definition ProcessStatuses :: "'s status_handler list \<Rightarrow> TxStatusEvent list \<Rightarrow> 's \<Rightarrow> 's \<times> goerror option" where
  "ProcessStatuses hs events s = (if length events = 0 then (s, None) else handleStatuses hs events s)"

definition ErrAlreadyRegistered :: goerror where
  "ErrAlreadyRegistered = Msg ''txID already registered'' []"

definition ErrTxRejected_Error :: "TxStatusEvent \<Rightarrow> gomsg" where
  "ErrTxRejected_Error e =
     Msg ''transaction %s rejected: %s'' [FStr (te_TxID e),
       FErr (if te_Reason e = emptyMsg then Msg (status_String (te_Status e)) [] else te_Reason e)]"

subsection \<open>The listener\<close>

record FinalityListener =
  fl_pending :: "string \<rightharpoonup> nat"
  fl_subCh :: "string list list"
  fl_buffer :: "nat \<Rightarrow> TxStatusEvent list"
  fl_next :: nat
  fl_owner :: "nat \<Rightarrow> string"
  fl_delivered :: "nat \<Rightarrow> TxStatusEvent list"

definition subChCap :: nat where "subChCap = 256"

definition NewFinalityListener :: FinalityListener where
  "NewFinalityListener = \<lparr>fl_pending = Map.empty, fl_subCh = [], fl_buffer = (\<lambda>_. []), fl_next = 0,
     fl_owner = (\<lambda>_. ''''), fl_delivered = (\<lambda>_. [])\<rparr>"

text \<open>\<open>Register\<close>: the critical section, the send on the subscription channel, and the way out when the context is done.\<close>

definition registerPending :: "string \<Rightarrow> FinalityListener \<Rightarrow> FinalityListener \<times> nat res" where
  "registerPending txID f =
     (case fl_pending f txID of
        Some _ \<Rightarrow> (f, Inl (Msg ''%w: %s'' [FErr ErrAlreadyRegistered, FStr txID]))
      | None \<Rightarrow>
          (f\<lparr>fl_pending := (fl_pending f)(txID \<mapsto> fl_next f), fl_owner := (fl_owner f)(fl_next f := txID),
             fl_next := Suc (fl_next f)\<rparr>, Inr (fl_next f)))"

definition sendSub :: "string list \<Rightarrow> FinalityListener \<Rightarrow> FinalityListener option" where
  "sendSub batch f =
     (if length (fl_subCh f) < subChCap then Some (f\<lparr>fl_subCh := fl_subCh f @ [batch]\<rparr>) else None)"

definition Unregister :: "string \<Rightarrow> FinalityListener \<Rightarrow> FinalityListener" where
  "Unregister txID f = f\<lparr>fl_pending := (fl_pending f)(txID := None)\<rparr>"

text \<open>
  \<open>Handle\<close> sends on a channel while it holds the lock. \<open>None\<close> is a send that blocks: the channel's buffer is full.
\<close>

fun fl_Handle :: "TxStatusEvent list \<Rightarrow> FinalityListener \<Rightarrow> FinalityListener option" where
  "fl_Handle [] f = Some f"
| "fl_Handle (e # es) f =
     (case fl_pending f (te_TxID e) of
        None \<Rightarrow> fl_Handle es f
      | Some ch \<Rightarrow>
          if fl_buffer f ch \<noteq> [] then None
          else fl_Handle es (f\<lparr>fl_buffer := (fl_buffer f)(ch := [e]), fl_delivered := (fl_delivered f)(ch := fl_delivered f ch @ [e]),
                 fl_pending := (fl_pending f)(te_TxID e := None)\<rparr>))"

text \<open>\<open>onConnect\<close> takes a snapshot of the pending ids, in the order of the map's iteration, and sends it unless it is empty.\<close>

definition onConnect :: "string list \<Rightarrow> FinalityListener \<Rightarrow> FinalityListener option" where
  "onConnect order f = (if order = [] then Some f else sendSub order f)"

definition reconcile :: "(string list \<Rightarrow> TxStatusEvent list res) option \<Rightarrow> string list \<Rightarrow> FinalityListener \<Rightarrow> FinalityListener option" where
  "reconcile querier txIDs f =
     (case querier of None \<Rightarrow> Some f | Some q \<Rightarrow>
     (case q txIDs of
        Inl _ \<Rightarrow> Some f
      | Inr events \<Rightarrow>
          (let final = filter (\<lambda>e. status_IsFinal (te_Status e)) events in
           if length final > 0 then fl_Handle final f else Some f)))"

definition receiveEvent :: "nat \<Rightarrow> FinalityListener \<Rightarrow> FinalityListener" where
  "receiveEvent ch f = f\<lparr>fl_buffer := (fl_buffer f)(ch := tl (fl_buffer f ch))\<rparr>"

definition takeSub :: "FinalityListener \<Rightarrow> FinalityListener" where
  "takeSub f = f\<lparr>fl_subCh := tl (fl_subCh f)\<rparr>"

subsection \<open>The reconnect loop\<close>

definition initBackoff :: int where "initBackoff = 500"
definition fl_maxBackoff :: int where "fl_maxBackoff = 30000"

text \<open>One iteration of \<open>Start\<close> changes the delay (in milliseconds): \<open>True\<close> is a session that ended in an error.\<close>

definition nextBackoff :: "bool \<Rightarrow> int \<Rightarrow> int" where
  "nextBackoff failed backoff =
     (if failed then (if backoff < fl_maxBackoff then backoff * 2 else backoff) else initBackoff)"

definition backoffAfter :: "bool list \<Rightarrow> int" where
  "backoffAfter sessions = fold nextBackoff sessions initBackoff"

subsection \<open>Concurrent use\<close>

text \<open>
  The steps of the callers, the stream and the reconnect loop; \<open>st_cancel\<close> is a \<open>Register\<close> or a
  \<open>WaitForFinality\<close> whose context ends, \<open>st_unregister\<close> the caller's own.
\<close>

inductive fin_step :: "FinalityListener \<Rightarrow> FinalityListener \<Rightarrow> bool" where
  register: "registerPending txID f = (f', Inr ch) \<Longrightarrow> fin_step f f'"
| queue: "sendSub [txID] f = Some f' \<Longrightarrow> fin_step f f'"
| unregister: "fin_step f (Unregister txID f)"
| handle: "fl_Handle events f = Some f' \<Longrightarrow> fin_step f f'"
| connect: "enumerates order (fl_pending f) \<Longrightarrow> onConnect order f = Some f' \<Longrightarrow> fin_step f f'"
| reconciled: "reconcile q txIDs f = Some f' \<Longrightarrow> fin_step f f'"
| receive: "fl_buffer f ch \<noteq> [] \<Longrightarrow> fin_step f (receiveEvent ch f)"
| drain: "fl_subCh f \<noteq> [] \<Longrightarrow> fin_step f (takeSub f)"

abbreviation fin_steps :: "FinalityListener \<Rightarrow> FinalityListener \<Rightarrow> bool" where
  "fin_steps \<equiv> fin_step\<^sup>*\<^sup>*"

subsection \<open>Every channel gets at most one event, its own\<close>

definition fin_inv :: "FinalityListener \<Rightarrow> bool" where
  "fin_inv f \<longleftrightarrow> (\<forall>tx ch. fl_pending f tx = Some ch \<longrightarrow> ch < fl_next f \<and> fl_owner f ch = tx \<and> fl_delivered f ch = [])
     \<and> (\<forall>ch \<ge> fl_next f. fl_delivered f ch = [])
     \<and> (\<forall>ch. length (fl_delivered f ch) \<le> 1 \<and> (\<forall>e \<in> set (fl_delivered f ch). te_TxID e = fl_owner f ch))
     \<and> (\<forall>ch. length (fl_buffer f ch) \<le> length (fl_delivered f ch))"

lemma fin_inv_pending:
  assumes "fin_inv f" and "fl_pending f tx = Some ch"
  shows "fl_owner f ch = tx" "fl_delivered f ch = []" "fl_buffer f ch = []" "ch < fl_next f"
  using assms by (auto simp: fin_inv_def) (metis le_zero_eq length_0_conv)

lemma fin_inv_deliver:
  assumes "fin_inv f" and "fl_pending f (te_TxID e) = Some ch"
  shows "fin_inv (f\<lparr>fl_buffer := (fl_buffer f)(ch := [e]), fl_delivered := (fl_delivered f)(ch := fl_delivered f ch @ [e]),
     fl_pending := (fl_pending f)(te_TxID e := None)\<rparr>)"
proof -
  note p = fin_inv_pending [OF assms]
  have "tx = te_TxID e" if "fl_pending f tx = Some ch" for tx using fin_inv_pending(1) [OF assms(1) that] p(1) by simp
  with assms(1) p show ?thesis by (auto simp: fin_inv_def)
qed

text \<open>The loop of \<open>Handle\<close> in closed form: the first event of a pending transaction resolves it.\<close>

definition resolves :: "TxStatusEvent list \<Rightarrow> FinalityListener \<Rightarrow> FinalityListener \<Rightarrow> bool" where
  "resolves es f f' \<longleftrightarrow> (\<forall>tx. case fl_pending f tx of
       None \<Rightarrow> fl_pending f' tx = None
     | Some ch \<Rightarrow> (case List.find (\<lambda>e. te_TxID e = tx) es of
           None \<Rightarrow> fl_pending f' tx = Some ch \<and> fl_delivered f' ch = fl_delivered f ch
         | Some e \<Rightarrow> fl_pending f' tx = None \<and> fl_delivered f' ch = fl_delivered f ch @ [e]))"

lemma fl_Handle_spec:
  assumes "fin_inv f"
  shows "\<exists>f'. fl_Handle es f = Some f' \<and> fin_inv f' \<and> resolves es f f'
    \<and> (\<forall>ch. ch \<notin> ran (fl_pending f) \<longrightarrow> fl_delivered f' ch = fl_delivered f ch)"
  using assms
proof (induction es f rule: fl_Handle.induct)
  case (1 f)
  then show ?case by (simp add: resolves_def split: option.splits)
next
  case (2 e es f)
  show ?case
  proof (cases "fl_pending f (te_TxID e)")
    case None
    with 2 obtain f' where "fl_Handle es f = Some f'" "fin_inv f'" "resolves es f f'"
      "\<forall>ch. ch \<notin> ran (fl_pending f) \<longrightarrow> fl_delivered f' ch = fl_delivered f ch" by auto
    with None show ?thesis by (auto simp: resolves_def split: option.splits) (metis option.distinct(1))+
  next
    case (Some ch)
    let ?f = "f\<lparr>fl_buffer := (fl_buffer f)(ch := [e]), fl_delivered := (fl_delivered f)(ch := fl_delivered f ch @ [e]),
       fl_pending := (fl_pending f)(te_TxID e := None)\<rparr>"
    note p = fin_inv_pending [OF "2.prems" Some]
    have own: "tx = te_TxID e" if "fl_pending f tx = Some ch" for tx
      using fin_inv_pending(1) [OF "2.prems" that] p(1) by simp
    have inv: "fin_inv ?f" using "2.prems" Some by (rule fin_inv_deliver)
    have nb: "\<not> fl_buffer f ch \<noteq> []" using p(3) by simp
    from "2.IH"(2) [OF Some nb inv] obtain f' where
      f': "fl_Handle es ?f = Some f'" "fin_inv f'" "resolves es ?f f'"
        "\<And>c. c \<notin> ran (fl_pending ?f) \<Longrightarrow> fl_delivered f' c = fl_delivered ?f c" by blast
    have ch: "ch \<notin> ran (fl_pending ?f)" using own by (auto simp: ran_def split: if_splits)
    have "resolves (e # es) f f'"
      unfolding resolves_def
    proof (intro allI)
      fix tx
      show "case fl_pending f tx of None \<Rightarrow> fl_pending f' tx = None
        | Some ch \<Rightarrow> (case List.find (\<lambda>e. te_TxID e = tx) (e # es) of
           None \<Rightarrow> fl_pending f' tx = Some ch \<and> fl_delivered f' ch = fl_delivered f ch
         | Some e \<Rightarrow> fl_pending f' tx = None \<and> fl_delivered f' ch = fl_delivered f ch @ [e])"
      proof (cases "tx = te_TxID e")
        case True
        with f'(3,4) ch Some show ?thesis by (auto simp: resolves_def dest: spec [of _ tx])
      next
        case False
        moreover from this own have "fl_pending f tx \<noteq> Some ch" by blast
        ultimately show ?thesis using f'(3) unfolding resolves_def
          by (auto dest!: spec [of _ tx] split: option.splits)
      qed
    qed
    moreover have "fl_delivered f' c = fl_delivered f c" if "c \<notin> ran (fl_pending f)" for c
      using f'(4) [of c] that Some by (auto simp: ran_def split: if_splits)
    ultimately show ?thesis using Some p(3) f'(1,2) by auto
  qed
qed

lemma fin_inv_step:
  assumes "fin_step f f'" and "fin_inv f"
  shows "fin_inv f'"
  using assms(1)
proof (cases rule: fin_step.cases)
  case (register txID ch)
  have "fl_pending f tx \<noteq> Some (fl_next f)" for tx using assms(2) by (auto simp: fin_inv_def)
  with register assms(2) show ?thesis
    by (auto simp: registerPending_def fin_inv_def less_Suc_eq split: option.splits if_splits)
next
  case (handle events)
  with fl_Handle_spec [OF assms(2), of events] show ?thesis by auto
next
  case (reconciled q txIDs)
  then show ?thesis using assms(2) fl_Handle_spec [OF assms(2)]
    by (auto simp: reconcile_def Let_def split: option.splits sum.splits if_splits) (metis option.inject)
next
  case (receive ch)
  with assms(2) show ?thesis by (auto simp: fin_inv_def receiveEvent_def le_diff_conv le_SucI)
qed (use assms(2) in \<open>auto simp: fin_inv_def sendSub_def Unregister_def onConnect_def takeSub_def split: if_splits\<close>)

lemma fin_steps_inv: "fin_steps NewFinalityListener f \<Longrightarrow> fin_inv f"
proof (induction rule: rtranclp_induct)
  case base
  show ?case by (simp add: fin_inv_def NewFinalityListener_def)
next
  case (step y z)
  with fin_inv_step show ?case by blast
qed

text \<open>
  C18: A registration is answered at most once and with its own transaction, and nothing ever blocks. In every
  state that concurrent registrations, cancellations, notifications, reconnects and receives can reach,
  \<open>Handle\<close> completes on any batch, every response channel has been sent at most one event, of the
  transaction it was made for, and no two pending transactions share a channel.
\<close>

theorem finality_exactly_once:
  assumes "fin_steps NewFinalityListener f"
  shows "fl_Handle events f \<noteq> None
    \<and> length (fl_delivered f ch) \<le> 1 \<and> (\<forall>e \<in> set (fl_delivered f ch). te_TxID e = fl_owner f ch)
    \<and> inj_on (fl_pending f) (dom (fl_pending f))"
proof -
  have inv: "fin_inv f" using assms by (rule fin_steps_inv)
  have "inj_on (fl_pending f) (dom (fl_pending f))"
    using fin_inv_pending(1) [OF inv] by (intro inj_onI) (metis domD)
  with inv fl_Handle_spec [OF inv, of events] show ?thesis by (auto simp: fin_inv_def)
qed

text \<open>
  No registered transaction is lost to an outage. When a stream is opened while a transaction is pending and
  the peer can be queried, the query asks for it, and if its answer has a final status for it, the channel has
  received a final event of the transaction and the entry is gone when the reconciliation is over.
\<close>

theorem finality_recovers:
  assumes "fin_steps NewFinalityListener f" and "fl_pending f txID = Some ch" and "enumerates order (fl_pending f)"
    and "q order = Inr events" and "e \<in> set events" and "te_TxID e = txID" and "status_IsFinal (te_Status e)"
  shows "txID \<in> set order \<and> (\<exists>f' e'. reconcile (Some q) order f = Some f' \<and> fl_pending f' txID = None
    \<and> fl_delivered f' ch = [e'] \<and> te_TxID e' = txID \<and> status_IsFinal (te_Status e'))"
proof -
  have inv: "fin_inv f" using assms(1) by (rule fin_steps_inv)
  let ?final = "filter (\<lambda>e. status_IsFinal (te_Status e)) events"
  obtain f' where f': "fl_Handle ?final f = Some f'" "resolves ?final f f'" using fl_Handle_spec [OF inv] by blast
  have "?final \<noteq> []" using assms(5,7) by (auto simp: filter_empty_conv)
  then have r: "reconcile (Some q) order f = Some f'" using assms(4) f'(1) by (simp add: reconcile_def Let_def)
  obtain e' where e': "List.find (\<lambda>e. te_TxID e = txID) ?final = Some e'"
    using assms(5-7) by (cases "List.find (\<lambda>e. te_TxID e = txID) ?final") (auto simp: find_None_iff)
  from find_Some_iff [THEN iffD1, OF this] have "e' \<in> set ?final" "te_TxID e' = txID" by (auto simp del: filter_set set_filter)
  moreover have "fl_pending f' txID = None \<and> fl_delivered f' ch = [e']"
    using f'(2) assms(2) e' fin_inv_pending(2) [OF inv assms(2)] by (auto simp: resolves_def dest!: spec [of _ txID])
  moreover have "txID \<in> set order" using assms(2,3) by (auto simp: enumerates_def)
  ultimately show ?thesis using r by auto
qed

text \<open>
  The reconnect delay starts at half a second, never exceeds 32 seconds, and is back to half a second after a
  session without an error; the largest value is taken after six failures in a row, so the delay does exceed
  the thirty seconds it is compared with.
\<close>

theorem finality_backoff:
  "500 \<le> backoffAfter sessions \<and> backoffAfter sessions \<le> 32000 \<and> backoffAfter (sessions @ [False]) = 500
   \<and> backoffAfter (replicate 6 True) = 32000"
proof -
  have "backoffAfter sessions \<in> {500, 1000, 2000, 4000, 8000, 16000, 32000}"
    unfolding backoffAfter_def
    by (induction sessions rule: rev_induct) (auto simp: nextBackoff_def initBackoff_def fl_maxBackoff_def)
  moreover have "backoffAfter (replicate 6 True) = 32000" by code_simp
  ultimately show ?thesis by (auto simp: backoffAfter_def nextBackoff_def initBackoff_def)
qed

subsection \<open>Witnesses\<close>

definition sample_event :: TxStatusEvent where
  "sample_event = \<lparr>te_TxID = ''t'', te_BlockNum = 1, te_TxNum = 0, te_Status = StatusCommitted, te_RawCode = 1, te_Reason = emptyMsg\<rparr>"

definition sample_listener :: FinalityListener where
  "sample_listener = fst (registerPending ''t'' NewFinalityListener)"

lemma sample_listener_eq:
  "registerPending ''t'' NewFinalityListener = (sample_listener, Inr 0)" "fl_pending sample_listener = [''t'' \<mapsto> 0]"
  by (simp_all add: sample_listener_def registerPending_def NewFinalityListener_def)

lemma sample_listener_reached: "fin_steps NewFinalityListener sample_listener"
  using fin_step.register [OF sample_listener_eq(1)] by blast

theorem finality_exactly_once_witness:
  "fl_Handle [sample_event, sample_event] sample_listener \<noteq> None"
  using finality_exactly_once [OF sample_listener_reached] by blast

theorem finality_recovers_witness:
  "\<exists>f' e'. reconcile (Some (\<lambda>_. Inr [sample_event])) [''t''] sample_listener = Some f' \<and> fl_delivered f' 0 = [e']"
proof -
  have "enumerates [''t''] (fl_pending sample_listener)" by (simp add: sample_listener_eq enumerates_def)
  from finality_recovers [OF sample_listener_reached _ this, of "''t''" 0 "\<lambda>_. Inr [sample_event]" "[sample_event]" sample_event]
  show ?thesis by (auto simp: sample_listener_eq sample_event_def status_IsFinal_def)
qed

end
