(* ===== verification/Sample_Protos.thy ===== *)
theory Sample_Protos
  imports Fabricx_Codec
begin

section \<open>A concrete set of codecs\<close>

text \<open>
  Codecs that know a handful of messages, for the witnesses of the theorems whose hypotheses are about
  codecs: one Fabric-X transaction on its way from invocation to block, one Fabric transaction, and one
  without an action.
\<close>

definition pick :: "(bytes \<times> 'm) list \<Rightarrow> bytes \<Rightarrow> 'm res" where
  "pick t b = (case map_of t b of Some m \<Rightarrow> Inr m | None \<Rightarrow> Inl (Msg ''unmarshal'' []))"

definition sample_channel_header :: pb_ChannelHeader where
  "sample_channel_header = \<lparr>ch_Type = 0, ch_Timestamp = Some \<lparr>ts_Seconds = 0, ts_Nanos = 0\<rparr>, ch_ChannelId = ''ch'',
     ch_TxId = ''txid'', ch_Epoch = 0, ch_Extension = ''''\<rparr>"

definition sample_header :: pb_Header where
  "sample_header = \<lparr>hdr_ChannelHeader = ''chdr'', hdr_SignatureHeader = ''shdr''\<rparr>"

definition sample_payload :: pb_Payload where
  "sample_payload = \<lparr>pl_Header = Some sample_header, pl_Data = ''tx2''\<rparr>"

definition sample_metadata :: pb_Metadata where
  "sample_metadata = \<lparr>md_InputArgs = [''f''], md_Event = '''', md_EventName = '''', md_Payload = ''ok''\<rparr>"

definition sample_identity :: pb_Identity where
  "sample_identity = \<lparr>idn_MspId = ''msp'', idn_Creator = ''cert''\<rparr>"

definition sample_tx :: pb_Tx where
  "sample_tx = buildTx [''a''] sample_rws ''ns'' 0 [''md'']"

definition sample_endorsed_tx :: pb_Tx where
  "sample_endorsed_tx = sample_tx\<lparr>xtx_Endorsements := [[(''sig'', sample_identity)]]\<rparr>"

definition sample_fabric_header :: pb_ChannelHeader where
  "sample_fabric_header = sample_channel_header\<lparr>ch_Type := 3\<rparr>"

definition sample_common :: common_protos where
  "sample_common = \<lparr>HeaderType_MESSAGE = 0, HeaderType_CONFIG = 1, HeaderType_ENDORSER_TRANSACTION = 3,
     TRANSACTIONS_FILTER = 2,
     um_Envelope = pick [(''env'', \<lparr>env_Payload = ''pl'', env_Signature = ''''\<rparr>),
       (''fenv'', \<lparr>env_Payload = ''fpl'', env_Signature = ''''\<rparr>), (''benv'', \<lparr>env_Payload = ''bpl'', env_Signature = ''''\<rparr>)],
     um_Payload = pick [(''pl'', sample_payload),
       (''fpl'', \<lparr>pl_Header = Some \<lparr>hdr_ChannelHeader = ''fchdr'', hdr_SignatureHeader = ''shdr''\<rparr>, pl_Data = ''ftx''\<rparr>),
       (''bpl'', \<lparr>pl_Header = Some \<lparr>hdr_ChannelHeader = ''fchdr'', hdr_SignatureHeader = ''shdr''\<rparr>, pl_Data = ''btx''\<rparr>)],
     ma_Payload = marshal_only sample_payload ''pl'',
     um_Header = pick [(''hdr'', sample_header), (''fhdr'', \<lparr>hdr_ChannelHeader = ''fchdr'', hdr_SignatureHeader = ''shdr''\<rparr>)],
     ma_Header = marshal_only sample_header ''hdr'',
     um_ChannelHeader = pick [(''chdr'', sample_channel_header), (''fchdr'', sample_fabric_header)],
     ma_ChannelHeader = marshal_only sample_channel_header ''chdr'',
     um_SignatureHeader = pick [(''shdr'', \<lparr>sh_Creator = ''id'', sh_Nonce = ''n''\<rparr>)],
     ma_SignatureHeader = (\<lambda>_. Inr ''shdr''),
     um_ConfigEnvelope = (\<lambda>_. Inr \<lparr>ce_Config = None\<rparr>),
     ma_Config = (\<lambda>_. Inr ''cfg''),
     BlockHeaderHash = (\<lambda>_. ''hash''),
     ComputeTxID = (\<lambda>_ _. ''txid'')\<rparr>"

definition sample_fabric :: fabric_protos where
  "sample_fabric = common_protos.extend sample_common
    (fabric_protos.fields
     (pick [(''prop'', \<lparr>prop_Header = ''fhdr'', prop_Payload = ''cpp''\<rparr>)])
     (\<lambda>_. Inr \<lparr>cpp_Input = ''cis''\<rparr>)
     (\<lambda>_. Inr \<lparr>cis_ChaincodeSpec = Some \<lparr>cs_Type = 4, cs_ChaincodeId = Some \<lparr>ccid_Name = ''ns'', ccid_Version = ''1''\<rparr>,
        cs_Input = Some [''f'']\<rparr>\<rparr>)
     (pick [(''ftx'', \<lparr>ptx_Actions = [''act'']\<rparr>), (''btx'', \<lparr>ptx_Actions = [''bad'']\<rparr>)])
     (pick [(''act'', \<lparr>cap_ChaincodeProposalPayload = ''cpp'',
         cap_Action = Some \<lparr>cea_ProposalResponsePayload = ''prp'', cea_Endorsements = []\<rparr>\<rparr>),
       (''bad'', \<lparr>cap_ChaincodeProposalPayload = ''cpp'', cap_Action = None\<rparr>)])
     (\<lambda>_. Inr \<lparr>prp_ProposalHash = ''h'', prp_Extension = ''ext''\<rparr>)
     (\<lambda>_. Inr \<lparr>ca_Results = ''res'', ca_Events = '''', ca_Response = None, ca_ChaincodeId = None\<rparr>)
     (\<lambda>_. Inr \<lparr>ev_ChaincodeId = '''', ev_TxId = '''', ev_EventName = '''', ev_Payload = ''''\<rparr>)
     (\<lambda>_. Inr ''ev'')
     (pick [(''res'', \<lparr>trw_NsRwset = [\<lparr>nrw_Namespace = ''ns'', nrw_Rwset = ''kv''\<rparr>]\<rparr>)])
     (marshal_only \<lparr>trw_NsRwset = [\<lparr>nrw_Namespace = ''ns'', nrw_Rwset = ''kv''\<rparr>]\<rparr> ''res'')
     (pick [(''kv'', \<lparr>kvs_Reads = [(''a'', Some (3, 0)), (''b'', None)], kvs_Writes = [(''b'', True, ''''), (''c'', False, ''v'')]\<rparr>)])
     (marshal_only \<lparr>kvs_Reads = [(''a'', Some (3, 0)), (''b'', None)], kvs_Writes = [(''b'', True, ''''), (''c'', False, ''v'')]\<rparr> ''kv'')
     4
     (\<lambda>_ _ _ _ _ _. Inr \<lparr>prop_Header = ''fhdr'', prop_Payload = ''cpp''\<rparr>)
     (\<lambda>_ _. Inr ''phash'')
     (\<lambda>_ _ _ _ _. Inr ''prp''))"

definition sample_pb :: protos where
  "sample_pb = fabric_protos.extend sample_fabric
    (protos.fields
     (pick [(''tx1'', sample_tx), (''tx2'', sample_endorsed_tx)])
     (\<lambda>t. if t = sample_tx then Inr ''tx1'' else if t = sample_endorsed_tx then Inr ''tx2'' else Inl (Msg ''marshal'' []))
     (pick [(''md'', sample_metadata)])
     (marshal_only sample_metadata ''md'')
     (\<lambda>_. Inr sample_identity)
     (\<lambda>_ _ _. Inr ''digest''))"

lemmas sample_pb_defs = sample_pb_def sample_fabric_def sample_common_def common_protos.defs fabric_protos.defs protos.defs

lemma pick_simps [simp]:
  "pick ((b, m) # t) c = (if c = b then Inr m else pick t c)"
  "pick [] c = Inl (Msg ''unmarshal'' [])"
  by (simp_all add: pick_def)

lemma sample_header_types: "header_types_ok sample_pb"
  by (simp add: header_types_ok_def sample_pb_defs)

definition sample_signer :: Signer where
  "sample_signer = \<lparr>Sign = (\<lambda>_. Inr ''sig''), Serialize = Inr ''id''\<rparr>"

lemma sample_pb_common [simp]:
  "HeaderType_MESSAGE sample_pb = 0" "HeaderType_CONFIG sample_pb = 1" "HeaderType_ENDORSER_TRANSACTION sample_pb = 3"
  "TRANSACTIONS_FILTER sample_pb = 2"
  "um_Envelope sample_pb = um_Envelope sample_common" "um_Payload sample_pb = um_Payload sample_common"
  "ma_Payload sample_pb = marshal_only sample_payload ''pl''"
  "um_Header sample_pb = um_Header sample_common" "ma_Header sample_pb = marshal_only sample_header ''hdr''"
  "um_ChannelHeader sample_pb = um_ChannelHeader sample_common"
  "ma_ChannelHeader sample_pb = marshal_only sample_channel_header ''chdr''"
  "um_SignatureHeader sample_pb = um_SignatureHeader sample_common" "ma_SignatureHeader sample_pb = (\<lambda>_. Inr ''shdr'')"
  "ComputeTxID sample_pb = (\<lambda>_ _. ''txid'')"
  by (simp_all add: sample_pb_defs)

lemma sample_common_um [simp]:
  "um_Envelope sample_common ''env'' = Inr \<lparr>env_Payload = ''pl'', env_Signature = ''''\<rparr>"
  "um_Envelope sample_common ''fenv'' = Inr \<lparr>env_Payload = ''fpl'', env_Signature = ''''\<rparr>"
  "um_Envelope sample_common ''benv'' = Inr \<lparr>env_Payload = ''bpl'', env_Signature = ''''\<rparr>"
  "um_Envelope sample_common ''junk'' = Inl (Msg ''unmarshal'' [])"
  "um_Payload sample_common ''pl'' = Inr sample_payload"
  "um_Payload sample_common ''fpl'' = Inr \<lparr>pl_Header = Some \<lparr>hdr_ChannelHeader = ''fchdr'', hdr_SignatureHeader = ''shdr''\<rparr>, pl_Data = ''ftx''\<rparr>"
  "um_Payload sample_common ''bpl'' = Inr \<lparr>pl_Header = Some \<lparr>hdr_ChannelHeader = ''fchdr'', hdr_SignatureHeader = ''shdr''\<rparr>, pl_Data = ''btx''\<rparr>"
  "um_Header sample_common ''hdr'' = Inr sample_header"
  "um_Header sample_common ''fhdr'' = Inr \<lparr>hdr_ChannelHeader = ''fchdr'', hdr_SignatureHeader = ''shdr''\<rparr>"
  "um_ChannelHeader sample_common ''chdr'' = Inr sample_channel_header"
  "um_ChannelHeader sample_common ''fchdr'' = Inr sample_fabric_header"
  "um_SignatureHeader sample_common ''shdr'' = Inr \<lparr>sh_Creator = ''id'', sh_Nonce = ''n''\<rparr>"
  by (simp_all add: sample_common_def)

lemma sample_message_simps [simp]:
  "ch_Type sample_channel_header = 0" "ch_TxId sample_channel_header = ''txid''"
  "ch_Type sample_fabric_header = 3" "ch_TxId sample_fabric_header = ''txid''"
  "ch_Epoch sample_fabric_header = 0" "ch_Timestamp sample_fabric_header = Some \<lparr>ts_Seconds = 0, ts_Nanos = 0\<rparr>"
  "ch_ChannelId sample_fabric_header = ''ch''"
  "hdr_ChannelHeader sample_header = ''chdr''" "hdr_SignatureHeader sample_header = ''shdr''"
  "pl_Header sample_payload = Some sample_header" "pl_Data sample_payload = ''tx2''"
  by (simp_all add: sample_channel_header_def sample_fabric_header_def sample_header_def sample_payload_def)

lemma sample_pb_fabric [simp]:
  "um_Transaction sample_pb ''ftx'' = Inr \<lparr>ptx_Actions = [''act'']\<rparr>"
  "um_Transaction sample_pb ''btx'' = Inr \<lparr>ptx_Actions = [''bad'']\<rparr>"
  "um_ChaincodeActionPayload sample_pb ''act'' = Inr \<lparr>cap_ChaincodeProposalPayload = ''cpp'',
         cap_Action = Some \<lparr>cea_ProposalResponsePayload = ''prp'', cea_Endorsements = []\<rparr>\<rparr>"
  "um_ChaincodeActionPayload sample_pb ''bad'' = Inr \<lparr>cap_ChaincodeProposalPayload = ''cpp'', cap_Action = None\<rparr>"
  "um_Proposal sample_pb ''prop'' = Inr \<lparr>prop_Header = ''fhdr'', prop_Payload = ''cpp''\<rparr>"
  "um_ChaincodeProposalPayload sample_pb b = Inr \<lparr>cpp_Input = ''cis''\<rparr>"
  "um_ChaincodeInvocationSpec sample_pb b = Inr \<lparr>cis_ChaincodeSpec = Some \<lparr>cs_Type = 4,
      cs_ChaincodeId = Some \<lparr>ccid_Name = ''ns'', ccid_Version = ''1''\<rparr>, cs_Input = Some [''f'']\<rparr>\<rparr>"
  "um_ProposalResponsePayload sample_pb b = Inr \<lparr>prp_ProposalHash = ''h'', prp_Extension = ''ext''\<rparr>"
  "um_ChaincodeAction sample_pb b = Inr \<lparr>ca_Results = ''res'', ca_Events = '''', ca_Response = None, ca_ChaincodeId = None\<rparr>"
  "um_TxReadWriteSet sample_pb ''res'' = Inr \<lparr>trw_NsRwset = [\<lparr>nrw_Namespace = ''ns'', nrw_Rwset = ''kv''\<rparr>]\<rparr>"
  "um_KVRWSet sample_pb ''kv'' = Inr \<lparr>kvs_Reads = [(''a'', Some (3, 0)), (''b'', None)], kvs_Writes = [(''b'', True, ''''), (''c'', False, ''v'')]\<rparr>"
  "GetProposalHash1 sample_pb h b = Inr ''phash''"
  by (simp_all add: sample_pb_defs)

lemma sample_pb_fabricx [simp]:
  "um_Tx sample_pb ''tx1'' = Inr sample_tx" "um_Tx sample_pb ''tx2'' = Inr sample_endorsed_tx"
  "um_Metadata sample_pb ''md'' = Inr sample_metadata" "ma_Metadata sample_pb = marshal_only sample_metadata ''md''"
  "um_Identity sample_pb b = Inr sample_identity" "ASN1Marshal sample_pb n t m = Inr ''digest''"
  "ma_Tx sample_pb sample_tx = Inr ''tx1''"
  by (simp_all add: sample_pb_defs)

lemma sample_tx_distinct: "sample_endorsed_tx \<noteq> sample_tx"
  by (simp add: sample_endorsed_tx_def sample_tx_def buildTx_def pb_Tx.equality split: prod.splits)

lemma sample_ma_endorsed [simp]: "ma_Tx sample_pb sample_endorsed_tx = Inr ''tx2''"
  using sample_tx_distinct by (simp add: sample_pb_defs)

end
