(* ===== verification/Block_Parsers.thy ===== *)
theory Block_Parsers
  imports Status_Codes Sample_Protos
begin

section \<open>The block parsers (blocks/fabric/parser.go, blocks/fabricx/parser.go)\<close>

text \<open>
  The two parsers have the same loop over the envelopes of a block and differ in how one envelope
  becomes a transaction and in the meaning of the filter bytes; the loop is one definition with these
  two as arguments. The clock is the argument \<open>now\<close>. A nil header, metadata or data dereferences a
  nil pointer, and so does a Fabric transaction without an action: those are \<open>Panic\<close>. Log messages
  are left out.
\<close>

subsection \<open>Fabric-X: one envelope\<close>

definition fabricx_ParseTx :: "protos \<Rightarrow> pb_Envelope \<Rightarrow> Transaction option result" where
  "fabricx_ParseTx pb env =
     res_bind (um_Payload pb (env_Payload env)) (wrap ''payload: %w'') (\<lambda>pl.
     case pl_Header pl of
       None \<Rightarrow> Err (Msg ''payload has no header'' [])
     | Some hdr \<Rightarrow>
     res_bind (um_ChannelHeader pb (hdr_ChannelHeader hdr)) (wrap ''channel header: %w'') (\<lambda>chdr.
     if ch_Type chdr \<noteq> HeaderType_MESSAGE pb then Ok None
     else
     res_bind (um_Tx pb (pl_Data pl)) (wrap ''transaction: %w'') (\<lambda>ptx.
     let md = DecodeMetadata pb (xtx_Metadata ptx) in
     Ok (Some (zero_Transaction\<lparr>tx_ID := ch_TxId chdr, tx_InputArgs := meta_InputArgs md,
        tx_Event := meta_Event md, tx_EventName := meta_EventName md, tx_Payload := meta_Payload md,
        tx_NsRWS := DecodeNamespaces (xtx_Namespaces ptx)\<rparr>)))))"

definition fabricx_statusForTx :: "committer_codes \<Rightarrow> bytes \<Rightarrow> nat \<Rightarrow> Status \<times> int32 \<times> gomsg" where
  "fabricx_statusForTx cc txFilter txNum =
     (if txNum \<ge> length txFilter then (StatusUnknown, 0, Msg ''missing tx filter entry'' [])
      else StatusFromCommitterStatus cc (of_char (txFilter ! txNum)))"

subsection \<open>Fabric: one envelope\<close>

definition decodeKVRWSet :: "string \<Rightarrow> pb_KVRWSet \<Rightarrow> NsReadWriteSet" where
  "decodeKVRWSet ns kvs =
     \<lparr>ns_Namespace = ns,
      ns_RWS = \<lparr>Reads = map (\<lambda>(k, v). \<lparr>r_Key = k, r_Version =
            map_option (\<lambda>(b, t). \<lparr>v_BlockNum = b, v_TxNum = t\<rparr>) v\<rparr>) (kvs_Reads kvs),
        Writes = map (\<lambda>(k, d, v). \<lparr>w_Key = k, w_IsDelete = d, w_Value = v\<rparr>) (kvs_Writes kvs)\<rparr>\<rparr>"

fun decodeNsRwsets :: "protos \<Rightarrow> pb_NsReadWriteSet list \<Rightarrow> NsReadWriteSet list result" where
  "decodeNsRwsets pb [] = Ok []"
| "decodeNsRwsets pb (ns # nss) =
     (if length (nrw_Namespace ns) = 0 then decodeNsRwsets pb nss
      else res_bind (um_KVRWSet pb (nrw_Rwset ns)) (wrap ''kvrwset: %w'') (\<lambda>kvs.
        case decodeNsRwsets pb nss of
          Ok xs \<Rightarrow> Ok (decodeKVRWSet (nrw_Namespace ns) kvs # xs) | Err e \<Rightarrow> Err e | Panic \<Rightarrow> Panic))"

text \<open>From the chaincode action payload on.\<close>

definition fabric_parseAction :: "protos \<Rightarrow> string \<Rightarrow> pb_ChaincodeActionPayload \<Rightarrow> Transaction option result" where
  "fabric_parseAction pb txid cap =
     res_bind (um_ChaincodeProposalPayload pb (cap_ChaincodeProposalPayload cap)) (wrap ''chaincode proposal payload: %w'') (\<lambda>cpp.
     res_bind (um_ChaincodeInvocationSpec pb (cpp_Input cpp)) (wrap ''chaincode invocation spec: %w'') (\<lambda>cis.
     let args = (case cis_ChaincodeSpec cis of Some sp \<Rightarrow> (case cs_Input sp of Some a \<Rightarrow> a | None \<Rightarrow> []) | None \<Rightarrow> []) in
     case cap_Action cap of
       None \<Rightarrow> Panic
     | Some action \<Rightarrow>
     res_bind (um_ProposalResponsePayload pb (cea_ProposalResponsePayload action)) (wrap ''proposal response payload: %w'') (\<lambda>prp.
     res_bind (um_ChaincodeAction pb (prp_Extension prp)) (wrap ''chaincode action: %w'') (\<lambda>ccAct.
     res_bind (if length (ca_Events ccAct) > 0
               then (case um_ChaincodeEvent pb (ca_Events ccAct) of Inl e \<Rightarrow> Inl e | Inr evt \<Rightarrow> Inr (ev_Payload evt, ev_EventName evt))
               else Inr ('''', '''')) (wrap ''chaincode event: %w'') (\<lambda>(event, eventName).
     let payload = (case ca_Response ccAct of Some r \<Rightarrow> rsp_Payload r | None \<Rightarrow> '''') in
     res_bind (um_TxReadWriteSet pb (ca_Results ccAct)) (wrap ''rwset: %w'') (\<lambda>txRWSet.
     case decodeNsRwsets pb (trw_NsRwset txRWSet) of
       Err e \<Rightarrow> Err e | Panic \<Rightarrow> Panic
     | Ok nsrws \<Rightarrow> Ok (Some (zero_Transaction\<lparr>tx_ID := txid, tx_InputArgs := args, tx_Event := event,
         tx_EventName := eventName, tx_Payload := payload, tx_NsRWS := nsrws\<rparr>))))))))"

definition fabric_ParseTx :: "protos \<Rightarrow> pb_Envelope \<Rightarrow> Transaction option result" where
  "fabric_ParseTx pb env =
     res_bind (um_Payload pb (env_Payload env)) (wrap ''payload: %w'') (\<lambda>pl.
     case pl_Header pl of
       None \<Rightarrow> Err (Msg ''payload has no header'' [])
     | Some hdr \<Rightarrow>
     res_bind (um_ChannelHeader pb (hdr_ChannelHeader hdr)) (wrap ''channel header: %w'') (\<lambda>chdr.
     if ch_Type chdr \<noteq> HeaderType_ENDORSER_TRANSACTION pb then Ok None
     else
     res_bind (um_Transaction pb (pl_Data pl)) (wrap ''transaction: %w'') (\<lambda>ptx.
     case ptx_Actions ptx of
       [act] \<Rightarrow> res_bind (um_ChaincodeActionPayload pb act) (wrap ''chaincode action payload: %w'')
          (fabric_parseAction pb (ch_TxId chdr))
     | _ \<Rightarrow> Err (Msg ''only one action per transaction is supported, tx contains %d''
          [FInt (int (length (ptx_Actions ptx)))]))))"

definition fabric_statusForTx :: "tx_validation_codes \<Rightarrow> bytes \<Rightarrow> nat \<Rightarrow> Status \<times> int32 \<times> gomsg" where
  "fabric_statusForTx pc txFilter txNum =
     (if txNum \<ge> length txFilter then (StatusUnknown, 0, Msg ''missing tx filter entry'' [])
      else StatusFromValidationCode pc (of_char (txFilter ! txNum)))"

subsection \<open>The loop over the block\<close>

datatype entry = Skip | ConfigEntry ConfigTransaction | TxEntry Transaction

text \<open>One iteration: what the envelope at position \<open>txNum\<close> adds to the block.\<close>

definition parseEntry :: "protos \<Rightarrow> (pb_Envelope \<Rightarrow> Transaction option result) \<Rightarrow> (nat \<Rightarrow> Status \<times> int32 \<times> gomsg)
    \<Rightarrow> u64 \<Rightarrow> nat \<Rightarrow> bytes \<Rightarrow> entry result" where
  "parseEntry pb parseTx statusForTx number txNum envBytes =
     (case um_Envelope pb envBytes of Inl _ \<Rightarrow> Ok Skip | Inr env \<Rightarrow>
     (case um_Payload pb (env_Payload env) of Inl _ \<Rightarrow> Ok Skip | Inr pl \<Rightarrow>
     (case pl_Header pl of None \<Rightarrow> Ok Skip | Some hdr \<Rightarrow>
     (case um_ChannelHeader pb (hdr_ChannelHeader hdr) of Inl _ \<Rightarrow> Ok Skip | Inr chdr \<Rightarrow>
     if ch_Type chdr = HeaderType_CONFIG pb then
       (case um_ConfigEnvelope pb (pl_Data pl) of
          Inl err \<Rightarrow> Err (Msg ''CONFIG [%d:%d]: config envelope: %w'' [FInt (uint number), FInt (int txNum), FErr err])
        | Inr ce \<Rightarrow>
            (case ce_Config ce of
               None \<Rightarrow> Err (Msg ''CONFIG [%d:%d]: missing config'' [FInt (uint number), FInt (int txNum)])
             | Some cfg \<Rightarrow>
                 (case ma_Config pb cfg of
                    Inl err \<Rightarrow> Err (Msg ''CONFIG [%d:%d]: marshal config: %w'' [FInt (uint number), FInt (int txNum), FErr err])
                  | Inr configBytes \<Rightarrow> Ok (ConfigEntry \<lparr>ct_Sequence = cfg_Sequence cfg, ct_Config = configBytes\<rparr>))))
     else
       (case parseTx env of
          Panic \<Rightarrow> Panic
        | Err _ \<Rightarrow> Ok Skip
        | Ok None \<Rightarrow> Ok Skip
        | Ok (Some tx) \<Rightarrow>
            (case statusForTx txNum of (status, code, reason) \<Rightarrow>
               Ok (TxEntry ((SetStatus status code reason tx)\<lparr>tx_Number := int txNum\<rparr>))))))))"

definition addEntry :: "Block \<Rightarrow> entry \<Rightarrow> Block" where
  "addEntry block e =
     (case e of Skip \<Rightarrow> block
      | ConfigEntry c \<Rightarrow> block\<lparr>b_ConfigTransaction := Some c\<rparr>
      | TxEntry tx \<Rightarrow> block\<lparr>b_Transactions := b_Transactions block @ [tx]\<rparr>)"

fun parseLoop :: "(nat \<Rightarrow> bytes \<Rightarrow> entry result) \<Rightarrow> nat \<Rightarrow> bytes list \<Rightarrow> Block \<Rightarrow> Block result" where
  "parseLoop f txNum [] block = Ok block"
| "parseLoop f txNum (envBytes # rest) block =
     (case f txNum envBytes of
        Panic \<Rightarrow> Panic | Err e \<Rightarrow> Err e
      | Ok e \<Rightarrow> parseLoop f (Suc txNum) rest (addEntry block e))"

definition parseBlock :: "protos \<Rightarrow> (pb_Envelope \<Rightarrow> Transaction option result) \<Rightarrow> (bytes \<Rightarrow> nat \<Rightarrow> Status \<times> int32 \<times> gomsg)
    \<Rightarrow> int64 \<Rightarrow> pb_Block \<Rightarrow> Block result" where
  "parseBlock pb parseTx statusForTx now b =
     (case blk_Header b of None \<Rightarrow> Panic | Some hdr \<Rightarrow>
     (case blk_Metadata b of None \<Rightarrow> Panic | Some metadata \<Rightarrow>
      if length metadata \<le> TRANSACTIONS_FILTER pb
      then Err (Msg ''block metadata missing TRANSACTIONS_FILTER'' [])
      else
        (case blk_Data b of None \<Rightarrow> Panic | Some data \<Rightarrow>
           parseLoop (parseEntry pb parseTx (statusForTx (metadata ! TRANSACTIONS_FILTER pb)) (bh_Number hdr)) 0 data
             (zero_Block\<lparr>b_Number := bh_Number hdr, b_Hash := BlockHeaderHash pb hdr,
                b_ParentHash := bh_PreviousHash hdr, b_Timestamp := now\<rparr>))))"

definition fabric_Parse :: "protos \<Rightarrow> tx_validation_codes \<Rightarrow> int64 \<Rightarrow> pb_Block \<Rightarrow> Block result" where
  "fabric_Parse pb pc = parseBlock pb (fabric_ParseTx pb) (fabric_statusForTx pc)"

definition fabricx_Parse :: "protos \<Rightarrow> committer_codes \<Rightarrow> int64 \<Rightarrow> pb_Block \<Rightarrow> Block result" where
  "fabricx_Parse pb cc = parseBlock pb (fabricx_ParseTx pb) (fabricx_statusForTx cc)"

subsection \<open>The loop in closed form\<close>

definition entry_txs :: "entry result \<Rightarrow> Transaction list" where
  "entry_txs e = (case e of Ok (TxEntry t) \<Rightarrow> [t] | _ \<Rightarrow> [])"

lemma parseLoop_closed:
  "parseLoop f n data block = Ok block' \<Longrightarrow>
     b_Transactions block' = b_Transactions block @ concat (map (\<lambda>(i, bs). entry_txs (f i bs)) (enumerate n data))
     \<and> b_Number block' = b_Number block \<and> b_Hash block' = b_Hash block
     \<and> b_ParentHash block' = b_ParentHash block \<and> b_Timestamp block' = b_Timestamp block
     \<and> (\<forall>(i, bs) \<in> set (enumerate n data). \<exists>e. f i bs = Ok e)"
proof (induction f n data block rule: parseLoop.induct)
  case (2 f n bs rest block)
  then obtain e where e: "f n bs = Ok e" "parseLoop f (Suc n) rest (addEntry block e) = Ok block'"
    by (auto split: result.splits)
  from "2.IH" [OF e] e(1) show ?case
    by (auto simp: addEntry_def entry_txs_def split: entry.splits)
qed simp

lemma parseEntry_tx:
  assumes "parseEntry pb parseTx statusForTx number i bs = Ok (TxEntry t)"
  shows "\<exists>env tx s c m. um_Envelope pb bs = Inr env \<and> parseTx env = Ok (Some tx) \<and> statusForTx i = (s, c, m)
    \<and> t = (SetStatus s c m tx)\<lparr>tx_Number := int i\<rparr>"
  using assms by (auto simp: parseEntry_def split: sum.splits option.splits if_splits result.splits prod.splits)

lemma sorted_enumerate_concat:
  assumes "\<And>i x t. t \<in> set (g i x) \<Longrightarrow> num t = int i" and "\<And>i x. length (g i x) \<le> 1"
  shows "sorted_wrt (<) (map num (concat (map (\<lambda>(i, x). g i x) (enumerate n xs))))
    \<and> (\<forall>t \<in> set (concat (map (\<lambda>(i, x). g i x) (enumerate n xs))). int n \<le> num t \<and> num t < int (n + length xs))"
proof (induction xs arbitrary: n)
  case (Cons x xs)
  have one: "g n x = [] \<or> (\<exists>t. g n x = [t])" using assms(2) [of n x] by (cases "g n x") auto
  have lt: "int n < num u" if "u \<in> set (concat (map (\<lambda>(i, x). g i x) (enumerate (Suc n) xs)))" for u
    using Cons.IH [of "Suc n"] that by force
  show ?case
  proof (cases "g n x")
    case Nil
    with Cons.IH [of "Suc n"] show ?thesis by force
  next
    case (Cons t ts)
    with one have g: "g n x = [t]" by auto
    with assms(1) [of t n x] have "num t = int n" by simp
    with g lt Cons.IH [of "Suc n"] show ?thesis by (auto simp: sorted_wrt_append) force+
  qed
qed simp

definition raw_number :: "pb_Block \<Rightarrow> u64" where
  "raw_number b = (case blk_Header b of Some h \<Rightarrow> bh_Number h | None \<Rightarrow> 0)"

definition raw_data :: "pb_Block \<Rightarrow> bytes list" where
  "raw_data b = (case blk_Data b of Some d \<Rightarrow> d | None \<Rightarrow> [])"

definition raw_filter :: "protos \<Rightarrow> pb_Block \<Rightarrow> bytes" where
  "raw_filter pb b = (case blk_Metadata b of Some m \<Rightarrow> m ! TRANSACTIONS_FILTER pb | None \<Rightarrow> '''')"

lemma parseBlock_closed:
  assumes "parseBlock pb parseTx st now b = Ok block"
  shows "b_Number block = raw_number b
    \<and> b_Transactions block = concat (map (\<lambda>(i, bs). entry_txs (parseEntry pb parseTx (st (raw_filter pb b)) (raw_number b) i bs))
        (enumerate 0 (raw_data b)))"
  using assms unfolding parseBlock_def
  by (auto simp: raw_number_def raw_data_def raw_filter_def zero_Block_def split: option.splits if_splits
      dest!: parseLoop_closed)

lemma entry_txs_number:
  "t \<in> set (entry_txs (parseEntry pb parseTx st number i bs)) \<Longrightarrow> tx_Number t = int i"
  by (auto simp: entry_txs_def dest!: parseEntry_tx [OF sym] split: result.splits entry.splits)

lemma entry_txs_le: "length (entry_txs e) \<le> 1"
  by (simp add: entry_txs_def split: result.splits entry.splits)

lemma parseBlock_numbers:
  assumes "parseBlock pb parseTx st now b = Ok block"
  shows "sorted_wrt (<) (map tx_Number (b_Transactions block))
    \<and> (\<forall>t \<in> set (b_Transactions block). 0 \<le> tx_Number t \<and> tx_Number t < int (length (raw_data b)))"
proof -
  let ?f = "\<lambda>i bs. entry_txs (parseEntry pb parseTx (st (raw_filter pb b)) (raw_number b) i bs)"
  have "b_Transactions block = concat (map (\<lambda>(i, x). ?f i x) (enumerate 0 (raw_data b)))"
    using parseBlock_closed [OF assms] by simp
  with sorted_enumerate_concat [of ?f tx_Number 0 "raw_data b", OF entry_txs_number entry_txs_le]
  show ?thesis by (simp only:) simp
qed

subsection \<open>The parser interface (blocks/processor.go)\<close>

text \<open>
  \<open>blocks.BlockParser\<close>: a parsed block keeps the number of the raw one, and its transactions are
  numbered by their positions in it.
\<close>

locale block_parser =
  fixes parse :: "'raw \<Rightarrow> Block result"
    and number :: "'raw \<Rightarrow> u64"
    and data :: "'raw \<Rightarrow> bytes list"
  assumes parse_number: "parse raw = Ok b \<Longrightarrow> b_Number b = number raw"
    and parse_sorted: "parse raw = Ok b \<Longrightarrow> sorted_wrt (<) (map tx_Number (b_Transactions b))"
    and parse_bound: "parse raw = Ok b \<Longrightarrow> t \<in> set (b_Transactions b)
          \<Longrightarrow> 0 \<le> tx_Number t \<and> tx_Number t < int (length (data raw))"
begin

lemma parse_distinct: "parse raw = Ok b \<Longrightarrow> distinct (map tx_Number (b_Transactions b))"
  using parse_sorted strict_sorted_iff by blast

lemma parse_length: "parse raw = Ok b \<Longrightarrow> length (b_Transactions b) \<le> length (data raw)"
proof -
  assume p: "parse raw = Ok b"
  let ?N = "tx_Number ` set (b_Transactions b)"
  have "?N \<subseteq> {0..<int (length (data raw))}" using parse_bound [OF p] by auto
  then have "card ?N \<le> card {0..<int (length (data raw))}" by (intro card_mono) auto
  moreover have "card ?N = length (b_Transactions b)"
    using distinct_card [OF parse_distinct [OF p]] by simp
  ultimately show ?thesis by simp
qed

end

interpretation fabric: block_parser "fabric_Parse pb pc now" raw_number raw_data
  by unfold_locales (auto simp: fabric_Parse_def dest: parseBlock_closed parseBlock_numbers)

interpretation fabricx: block_parser "fabricx_Parse pb cc now" raw_number raw_data
  by unfold_locales (auto simp: fabricx_Parse_def dest: parseBlock_closed parseBlock_numbers)

subsection \<open>Which transactions a parsed block has\<close>

definition transaction_header :: "protos \<Rightarrow> pb_Envelope \<Rightarrow> bool" where
  "transaction_header pb env \<longleftrightarrow> (\<exists>pl hdr chdr. um_Payload pb (env_Payload env) = Inr pl \<and> pl_Header pl = Some hdr
     \<and> um_ChannelHeader pb (hdr_ChannelHeader hdr) = Inr chdr \<and> ch_Type chdr \<noteq> HeaderType_CONFIG pb)"

definition checks_header :: "protos \<Rightarrow> (pb_Envelope \<Rightarrow> Transaction option result) \<Rightarrow> bool" where
  "checks_header pb parseTx \<longleftrightarrow> (\<forall>env tx. parseTx env = Ok (Some tx) \<longrightarrow> transaction_header pb env)"

lemma fabric_ParseTx_header:
  assumes "header_types_ok pb"
  shows "checks_header pb (fabric_ParseTx pb)"
  unfolding checks_header_def
proof (intro allI impI)
  fix env tx assume "fabric_ParseTx pb env = Ok (Some tx)"
  then obtain pl hdr chdr where "um_Payload pb (env_Payload env) = Inr pl" "pl_Header pl = Some hdr"
    "um_ChannelHeader pb (hdr_ChannelHeader hdr) = Inr chdr" "ch_Type chdr = HeaderType_ENDORSER_TRANSACTION pb"
    by (auto simp: fabric_ParseTx_def res_bind_eq_Ok split: option.splits if_splits)
  with assms show "transaction_header pb env" by (auto simp: transaction_header_def)
qed

lemma fabricx_ParseTx_header:
  assumes "header_types_ok pb"
  shows "checks_header pb (fabricx_ParseTx pb)"
  unfolding checks_header_def
proof (intro allI impI)
  fix env tx assume "fabricx_ParseTx pb env = Ok (Some tx)"
  then obtain pl hdr chdr where "um_Payload pb (env_Payload env) = Inr pl" "pl_Header pl = Some hdr"
    "um_ChannelHeader pb (hdr_ChannelHeader hdr) = Inr chdr" "ch_Type chdr = HeaderType_MESSAGE pb"
    by (auto simp: fabricx_ParseTx_def res_bind_eq_Ok split: option.splits if_splits)
  with assms show "transaction_header pb env" by (auto simp: transaction_header_def)
qed

text \<open>The transaction that the envelope at position \<open>i\<close> stands for, with the status of its filter entry.\<close>

definition tx_at :: "protos \<Rightarrow> (pb_Envelope \<Rightarrow> Transaction option result) \<Rightarrow> (nat \<Rightarrow> Status \<times> int32 \<times> gomsg)
    \<Rightarrow> bytes list \<Rightarrow> nat \<Rightarrow> Transaction \<Rightarrow> bool" where
  "tx_at pb parseTx st data i t \<longleftrightarrow> i < length data \<and> (\<exists>env tx s c m. um_Envelope pb (data ! i) = Inr env
     \<and> parseTx env = Ok (Some tx) \<and> st i = (s, c, m) \<and> t = (SetStatus s c m tx)\<lparr>tx_Number := int i\<rparr>)"

lemma parseEntry_iff:
  assumes "checks_header pb parseTx"
  shows "t \<in> set (entry_txs (parseEntry pb parseTx st number i bs)) \<longleftrightarrow>
    (\<exists>env tx s c m. um_Envelope pb bs = Inr env \<and> parseTx env = Ok (Some tx) \<and> st i = (s, c, m)
       \<and> t = (SetStatus s c m tx)\<lparr>tx_Number := int i\<rparr>)" (is "?L \<longleftrightarrow> ?R")
proof
  assume ?L
  then have "parseEntry pb parseTx st number i bs = Ok (TxEntry t)"
    by (auto simp: entry_txs_def split: result.splits entry.splits)
  then show ?R by (rule parseEntry_tx)
next
  assume ?R
  then obtain env tx s c m where e: "um_Envelope pb bs = Inr env" "parseTx env = Ok (Some tx)" "st i = (s, c, m)"
    "t = (SetStatus s c m tx)\<lparr>tx_Number := int i\<rparr>" by blast
  from assms e(2) have "transaction_header pb env" by (auto simp: checks_header_def)
  then obtain pl hdr chdr where "um_Payload pb (env_Payload env) = Inr pl" "pl_Header pl = Some hdr"
     "um_ChannelHeader pb (hdr_ChannelHeader hdr) = Inr chdr" "ch_Type chdr \<noteq> HeaderType_CONFIG pb"
    by (auto simp: transaction_header_def)
  with e show ?L by (simp add: parseEntry_def entry_txs_def)
qed

lemma parseBlock_exact:
  assumes "checks_header pb parseTx" and "parseBlock pb parseTx st now b = Ok block"
  shows "t \<in> set (b_Transactions block) \<longleftrightarrow> (\<exists>i. tx_at pb parseTx (st (raw_filter pb b)) (raw_data b) i t)"
proof -
  have "t \<in> set (b_Transactions block) \<longleftrightarrow> (\<exists>i < length (raw_data b).
      t \<in> set (entry_txs (parseEntry pb parseTx (st (raw_filter pb b)) (raw_number b) i (raw_data b ! i))))"
    using parseBlock_closed [OF assms(2)] by (force simp: in_set_enumerate_eq)
  then show ?thesis unfolding parseEntry_iff [OF assms(1)] tx_at_def by blast
qed


text \<open>
  The same for Fabric blocks and endorser transactions.
\<close>

theorem fabric_Parse_exact:
  assumes "header_types_ok pb" and "fabric_Parse pb pc now b = Ok block"
  shows "b_Number block = raw_number b \<and> sorted_wrt (<) (map tx_Number (b_Transactions block))
    \<and> (\<forall>t. t \<in> set (b_Transactions block) \<longleftrightarrow>
        (\<exists>i. tx_at pb (fabric_ParseTx pb) (fabric_statusForTx pc (raw_filter pb b)) (raw_data b) i t))"
  using parseBlock_exact [OF fabric_ParseTx_header [OF assms(1)] assms(2) [unfolded fabric_Parse_def]]
    fabric.parse_number [OF assms(2)] fabric.parse_sorted [OF assms(2)] by blast

text \<open>
  A Fabric transaction whose chaincode action payload has no action makes \<open>ParseTx\<close> dereference a
  nil pointer, and with it \<open>Parse\<close> of every block that contains it as the first entry.
\<close>

theorem fabric_Parse_panics:
  assumes "um_Envelope pb bs = Inr env" and "um_Payload pb (env_Payload env) = Inr pl" and "pl_Header pl = Some hdr"
    and "um_ChannelHeader pb (hdr_ChannelHeader hdr) = Inr chdr"
    and "ch_Type chdr = HeaderType_ENDORSER_TRANSACTION pb" and "header_types_ok pb"
    and "um_Transaction pb (pl_Data pl) = Inr \<lparr>ptx_Actions = [act]\<rparr>"
    and "um_ChaincodeActionPayload pb act = Inr cap" and "cap_Action cap = None"
    and "um_ChaincodeProposalPayload pb (cap_ChaincodeProposalPayload cap) = Inr cpp"
    and "um_ChaincodeInvocationSpec pb (cpp_Input cpp) = Inr cis"
    and "blk_Header b = Some h" and "blk_Metadata b = Some md" and "TRANSACTIONS_FILTER pb < length md"
    and "blk_Data b = Some (bs # rest)"
  shows "fabric_ParseTx pb env = Panic \<and> fabric_Parse pb pc now b = Panic"
proof -
  have p: "fabric_ParseTx pb env = Panic"
    using assms by (simp add: fabric_ParseTx_def fabric_parseAction_def)
  moreover have "ch_Type chdr \<noteq> HeaderType_CONFIG pb" using assms(5,6) by auto
  ultimately show ?thesis using assms(1-4,12-15)
    by (simp add: fabric_Parse_def parseBlock_def parseEntry_def)
qed

subsection \<open>Witnesses\<close>

definition sample_raw :: "bytes list \<Rightarrow> pb_Block" where
  "sample_raw data = \<lparr>blk_Header = Some \<lparr>bh_Number = 7, bh_PreviousHash = ''prev'', bh_DataHash = ''dh''\<rparr>,
     blk_Data = Some data, blk_Metadata = Some ['''', '''', [CHR 0x01, CHR 0x00]]\<rparr>"

lemma sample_raw_simps [simp]:
  "raw_number (sample_raw data) = 7" "raw_data (sample_raw data) = data"
  "raw_filter sample_pb (sample_raw data) = [CHR 0x01, CHR 0x00]"
  by (simp_all add: raw_number_def raw_data_def raw_filter_def sample_raw_def)

lemma sample_fabricx_ParseTx:
  "\<exists>tx. fabricx_ParseTx sample_pb \<lparr>env_Payload = ''pl'', env_Signature = ''''\<rparr> = Ok (Some tx)"
  by (simp add: fabricx_ParseTx_def Let_def)

lemma sample_fabric_ParseTx:
  "\<exists>tx. fabric_ParseTx sample_pb \<lparr>env_Payload = ''fpl'', env_Signature = ''''\<rparr> = Ok (Some tx)"
  by (simp add: fabric_ParseTx_def fabric_parseAction_def Let_def)

lemma sample_fabricx_parse:
  "\<exists>block. fabricx_Parse sample_pb cc now (sample_raw [''junk'', ''env'']) = Ok block"
proof -
  from sample_fabricx_ParseTx obtain tx where
    "fabricx_ParseTx sample_pb \<lparr>env_Payload = ''pl'', env_Signature = ''''\<rparr> = Ok (Some tx)" by blast
  then show ?thesis by (simp add: fabricx_Parse_def parseBlock_def parseEntry_def sample_raw_def split: prod.splits)
qed

lemma sample_fabric_parse:
  "\<exists>block. fabric_Parse sample_pb pc now (sample_raw [''junk'', ''fenv'']) = Ok block"
proof -
  from sample_fabric_ParseTx obtain tx where
    "fabric_ParseTx sample_pb \<lparr>env_Payload = ''fpl'', env_Signature = ''''\<rparr> = Ok (Some tx)" by blast
  then show ?thesis by (simp add: fabric_Parse_def parseBlock_def parseEntry_def sample_raw_def split: prod.splits)
qed

lemma sample_tx_at:
  assumes "um_Envelope sample_pb e = Inr env" and "p env = Ok (Some tx)"
  shows "\<exists>t. tx_at sample_pb p st [''junk'', e] 1 t"
  using assms by (cases "st 1") (auto simp: tx_at_def)


theorem fabric_Parse_exact_witness:
  "\<exists>block t. fabric_Parse sample_pb sample_validation_codes 0 (sample_raw [''junk'', ''fenv'']) = Ok block
     \<and> t \<in> set (b_Transactions block) \<and> b_Number block = 7"
proof -
  obtain block where b: "fabric_Parse sample_pb sample_validation_codes 0 (sample_raw [''junk'', ''fenv'']) = Ok block"
    using sample_fabric_parse by blast
  obtain tx where "fabric_ParseTx sample_pb \<lparr>env_Payload = ''fpl'', env_Signature = ''''\<rparr> = Ok (Some tx)"
    using sample_fabric_ParseTx by blast
  from sample_tx_at [where e = "''fenv''" and p = "fabric_ParseTx sample_pb", OF _ this] obtain t where
    "tx_at sample_pb (fabric_ParseTx sample_pb) (fabric_statusForTx sample_validation_codes [CHR 0x01, CHR 0x00])
       [''junk'', ''fenv''] 1 t" by auto
  with fabric_Parse_exact [OF sample_header_types b] b show ?thesis by auto
qed

theorem fabric_Parse_panics_witness:
  "fabric_Parse sample_pb sample_validation_codes 0 (sample_raw [''benv'']) = Panic"
  using fabric_Parse_panics [where pb = sample_pb and act = "''bad''" and rest = "[]" and bs = "''benv''"
      and pc = sample_validation_codes and now = 0 and b = "sample_raw [''benv'']"
      and env = "\<lparr>env_Payload = ''bpl'', env_Signature = ''''\<rparr>"
      and pl = "\<lparr>pl_Header = Some \<lparr>hdr_ChannelHeader = ''fchdr'', hdr_SignatureHeader = ''shdr''\<rparr>, pl_Data = ''btx''\<rparr>"
      and cap = "\<lparr>cap_ChaincodeProposalPayload = ''cpp'', cap_Action = None\<rparr>"]
  by (simp add: sample_header_types sample_raw_def)

end
