(* ===== verification/Fabricx_Peer.thy ===== *)
theory Fabricx_Peer
  imports All_Tx Finality Block_Parsers
begin

section \<open>The client of the sidecar (network/fabricx/peer.go)\<close>

text \<open>
  The streams a Fabric-X peer offers besides blocks: transaction statuses and the feed of committed
  transactions. The conversions between the sidecar's messages and the types of \<open>notification\<close> are functions
  of the messages; the loops take what the stream returns, one entry per receive, and the order in which
  \<open>toProtoFilterStatus\<close> ranges over the code names is an argument.
\<close>

subsection \<open>Messages of the sidecar\<close>

record pb_TxRef =
  ref_BlockNum :: u64
  ref_TxNum :: "32 word"
  ref_TxId :: string

record pb_TxStatus =
  ts_Ref :: "pb_TxRef option"
  ts_Status :: int32

record pb_TxEvent =
  txe_Ref :: "pb_TxRef option"
  txe_Status :: int32
  txe_Namespaces :: "pb_TxNamespace list"
  txe_Endorsements :: "pb_Endorsements list"
  txe_Metadata :: "bytes list"

record pb_BlockEvent =
  be_Header :: "pb_BlockHeader option"
  be_Events :: "pb_TxEvent list"

record pb_StreamBlocksRequest =
  sb_FilterNamespaces :: "string list"
  sb_FilterStatus :: "int32 list"
  sb_IncludeReadWriteSets :: bool
  sb_IncludeEndorsements :: bool
  sb_IncludeMetadata :: bool

record pb_NotificationResponse =
  nr_TxStatusEvents :: "pb_TxStatus list"
  nr_TimeoutTxIds :: "string list"

definition GetTxId :: "pb_TxRef option \<Rightarrow> string" where
  "GetTxId r = (case r of Some x \<Rightarrow> ref_TxId x | None \<Rightarrow> '''')"

definition GetBlockNum :: "pb_TxRef option \<Rightarrow> u64" where
  "GetBlockNum r = (case r of Some x \<Rightarrow> ref_BlockNum x | None \<Rightarrow> 0)"

definition GetTxNum :: "pb_TxRef option \<Rightarrow> 32 word" where
  "GetTxNum r = (case r of Some x \<Rightarrow> ref_TxNum x | None \<Rightarrow> 0)"

subsection \<open>Requests\<close>

definition protoCodes :: "committer_codes \<Rightarrow> int32 list \<Rightarrow> Status \<Rightarrow> int32 list" where
  "protoCodes cc names s =
     (if s = StatusCommitted then [COMMITTED cc]
      else if s = StatusInvalidSignature \<or> s = StatusEndorsementPolicyFailure then [ABORTED_SIGNATURE_INVALID cc]
      else if s = StatusMVCCConflict then [ABORTED_MVCC_CONFLICT cc]
      else if s = StatusDuplicateTxID then [REJECTED_DUPLICATE_TX_ID cc]
      else if s = StatusMalformed then filter (\<lambda>code. code \<ge> 101) names
      else if s = StatusUnknown then [STATUS_UNSPECIFIED cc]
      else [])"

definition toProtoFilterStatus :: "committer_codes \<Rightarrow> int32 list \<Rightarrow> Status list \<Rightarrow> int32 list" where
  "toProtoFilterStatus cc names statuses =
     (if length statuses = 0 then [] else concat (map (protoCodes cc names) statuses))"

definition toProtoStreamAllRequest :: "committer_codes \<Rightarrow> int32 list \<Rightarrow> StreamAllRequest option \<Rightarrow> pb_StreamBlocksRequest" where
  "toProtoStreamAllRequest cc names req =
     (case req of
        None \<Rightarrow> \<lparr>sb_FilterNamespaces = [], sb_FilterStatus = [], sb_IncludeReadWriteSets = False,
                 sb_IncludeEndorsements = False, sb_IncludeMetadata = False\<rparr>
      | Some r \<Rightarrow> \<lparr>sb_FilterNamespaces = sr_FilterNamespaces r, sb_FilterStatus = toProtoFilterStatus cc names (sr_FilterStatus r),
                 sb_IncludeReadWriteSets = sr_IncludeReadWriteSets r, sb_IncludeEndorsements = sr_IncludeEndorsements r,
                 sb_IncludeMetadata = sr_IncludeMetadata r\<rparr>)"

subsection \<open>Responses\<close>

definition convertTxEvent :: "protos \<Rightarrow> committer_codes \<Rightarrow> pb_TxEvent \<Rightarrow> CommittedTxEvent" where
  "convertTxEvent pb cc e =
     (let md = DecodeMetadata pb (txe_Metadata e) in
      case StatusFromCommitterStatus cc (txe_Status e) of (status, code, reason) \<Rightarrow>
      \<lparr>ce_Transaction = SetStatus status code reason
         (zero_Transaction\<lparr>tx_ID := GetTxId (txe_Ref e), tx_Number := uint (GetTxNum (txe_Ref e)),
            tx_InputArgs := meta_InputArgs md, tx_Event := meta_Event md, tx_EventName := meta_EventName md,
            tx_Payload := meta_Payload md, tx_NsRWS := DecodeNamespaces (txe_Namespaces e)\<rparr>),
       ce_BlockNum = GetBlockNum (txe_Ref e), ce_Endorsements = txe_Endorsements e\<rparr>)"

definition convertBlockEvent :: "protos \<Rightarrow> committer_codes \<Rightarrow> pb_BlockEvent \<Rightarrow> AllTxBatch" where
  "convertBlockEvent pb cc batch =
     (case be_Header batch of
        None \<Rightarrow> \<lparr>ba_BlockNumber = 0, ba_Hash = '''', ba_ParentHash = '''', ba_Events = map (convertTxEvent pb cc) (be_Events batch)\<rparr>
      | Some h \<Rightarrow> \<lparr>ba_BlockNumber = bh_Number h, ba_Hash = BlockHeaderHash pb h, ba_ParentHash = bh_PreviousHash h,
                   ba_Events = map (convertTxEvent pb cc) (be_Events batch)\<rparr>)"

definition convertTxStatuses :: "committer_codes \<Rightarrow> pb_TxStatus list \<Rightarrow> TxStatusEvent list" where
  "convertTxStatuses cc statuses =
     map (\<lambda>s. case StatusFromCommitterStatus cc (ts_Status s) of (status, rawCode, reason) \<Rightarrow>
        \<lparr>te_TxID = GetTxId (ts_Ref s), te_BlockNum = GetBlockNum (ts_Ref s), te_TxNum = GetTxNum (ts_Ref s),
         te_Status = status, te_RawCode = rawCode, te_Reason = reason\<rparr>) statuses"

definition convertNotificationResponse :: "committer_codes \<Rightarrow> pb_NotificationResponse \<Rightarrow> TxStatusEvent list" where
  "convertNotificationResponse cc res =
     convertTxStatuses cc (nr_TxStatusEvents res)
     @ map (\<lambda>txID. \<lparr>te_TxID = txID, te_BlockNum = 0, te_TxNum = 0, te_Status = StatusUnknown, te_RawCode = 0,
              te_Reason = emptyMsg\<rparr>) (nr_TimeoutTxIds res)"

subsection \<open>Loops\<close>

text \<open>A receive: a message, or an error with whether it is \<open>io.EOF\<close> and whether the context is done.\<close>

datatype 'm stream_recv = Got 'm | Failed bool bool goerror

fun streamAllLoop :: "protos \<Rightarrow> committer_codes \<Rightarrow> ('s \<Rightarrow> AllTxBatch \<Rightarrow> 's \<times> goerror option)
    \<Rightarrow> pb_BlockEvent stream_recv list \<Rightarrow> 's \<Rightarrow> 's \<times> goerror option option" where
  "streamAllLoop pb cc process [] s = (s, None)"
| "streamAllLoop pb cc process (Failed eof done err # ms) s =
     (s, Some (if eof \<or> done then None else Some (wrap ''recv: %w'' err)))"
| "streamAllLoop pb cc process (Got batch # ms) s =
     (case process s (convertBlockEvent pb cc batch) of
        (s', Some err) \<Rightarrow> (s', Some (Some (wrap ''process batch: %w'' err)))
      | (s', None) \<Rightarrow> streamAllLoop pb cc process ms s')"

definition StreamAllTransactions :: "protos \<Rightarrow> committer_codes \<Rightarrow> ('s \<Rightarrow> AllTxBatch \<Rightarrow> 's \<times> goerror option)
    \<Rightarrow> (pb_StreamBlocksRequest \<Rightarrow> pb_BlockEvent stream_recv list res) \<Rightarrow> int32 list \<Rightarrow> StreamAllRequest option
    \<Rightarrow> 's \<Rightarrow> 's \<times> goerror option option" where
  "StreamAllTransactions pb cc process service names req s =
     (case service (toProtoStreamAllRequest cc names req) of
        Inl err \<Rightarrow> (s, Some (Some (wrap ''open stream-blocks: %w'' err)))
      | Inr stream \<Rightarrow> streamAllLoop pb cc process stream s)"

fun notificationReceiveLoop :: "committer_codes \<Rightarrow> 's status_handler list \<Rightarrow> pb_NotificationResponse stream_recv list
    \<Rightarrow> 's \<Rightarrow> 's \<times> goerror option option" where
  "notificationReceiveLoop cc hs [] s = (s, None)"
| "notificationReceiveLoop cc hs (Failed eof done err # ms) s =
     (s, Some (if eof \<or> done then None else Some (wrap ''recv: %w'' err)))"
| "notificationReceiveLoop cc hs (Got res # ms) s =
     (let events = convertNotificationResponse cc res in
      notificationReceiveLoop cc hs ms (if length events > 0 then fst (ProcessStatuses hs events s) else s))"

text \<open>
  The batches of the subscription channel, with the result of sending each, and whether the context is done or
  the channel closed after them; the log of what was sent.
\<close>

fun notificationSendLoop :: "bool \<Rightarrow> (string list \<times> goerror option) list \<Rightarrow> string list list \<times> goerror option option" where
  "notificationSendLoop over [] = ([], if over then Some None else None)"
| "notificationSendLoop over ((batch, sent) # bs) =
     (if length batch = 0 then notificationSendLoop over bs
      else case sent of
        Some err \<Rightarrow> ([], Some (Some (wrap ''send request: %w'' err)))
      | None \<Rightarrow> (case notificationSendLoop over bs of (log, r) \<Rightarrow> (batch # log, r)))"

text \<open>
  \<open>Notify\<close> starts the two loops and waits for the first error of either or for the end of the context. A loop
  that returns without an error reports nothing; one that returns with an error also cancels the context. The
  \<open>select\<close> takes any case that is ready, so the model is the set of results the call may return with: none,
  as long as it cannot return.
\<close>

definition loopErrors :: "goerror option option \<Rightarrow> goerror set" where
  "loopErrors r = (case r of Some (Some err) \<Rightarrow> {err} | _ \<Rightarrow> {})"

definition Notify :: "goerror option \<Rightarrow> goerror option option \<Rightarrow> goerror option option \<Rightarrow> bool \<Rightarrow> goerror option set" where
  "Notify opened sendLoop receiveLoop ctxDone =
     (case opened of
        Some err \<Rightarrow> {Some (wrap ''open notification stream: %w'' err)}
      | None \<Rightarrow>
          (let errs = loopErrors sendLoop \<union> loopErrors receiveLoop in
           Some ` errs \<union> (if ctxDone \<or> errs \<noteq> {} then {None} else {})))"

subsection \<open>When a subscription ends\<close>

lemma receiveLoop_responses:
  "snd (notificationReceiveLoop cc hs (map Got rs @ [Failed eof done err]) s)
   = Some (if eof \<or> done then None else Some (wrap ''recv: %w'' err))"
  by (induction rs arbitrary: s) (simp_all add: Let_def)

lemma sendLoop_delivered:
  "notificationSendLoop over (map (\<lambda>b. (b, None)) bs) = (filter (\<lambda>b. b \<noteq> []) bs, if over then Some None else None)"
  by (induction bs) auto


end
