(* ===== verification/Processor.thy ===== *)
theory Processor
  imports Block_Parsers Versioned_DB
begin

section \<open>The block processor (blocks/processor.go)\<close>

text \<open>
  \<open>Processor\<close> parses a raw block and hands it to its handlers in order. Every handler has a state of its
  own; the model threads the states of all of them through the loop as one. A processor whose handlers
  include the versioned database keeps a replica of the chain: what it holds is a function of the number
  of blocks it has processed, whatever was redelivered and whatever the other handlers did.
\<close>

subsection \<open>The code\<close>

type_synonym 's block_handler = "'s \<Rightarrow> Block \<Rightarrow> 's \<times> goerror option"

record 's Processor =
  parser :: "pb_Block \<Rightarrow> Block result"
  handlers :: "'s block_handler list"

definition NewProcessor :: "(pb_Block \<Rightarrow> Block result) \<Rightarrow> 's block_handler list \<Rightarrow> 's Processor" where
  "NewProcessor p hs = \<lparr>parser = p, handlers = hs\<rparr>"

fun runHandlers :: "'s block_handler list \<Rightarrow> Block \<Rightarrow> 's \<Rightarrow> 's \<times> unit result" where
  "runHandlers [] b s = (s, Ok ())"
| "runHandlers (h # hs) b s =
     (case h s b of
        (s', Some err) \<Rightarrow> (s', Err (wrap ''handle: %w'' err))
      | (s', None) \<Rightarrow> runHandlers hs b s')"

definition ProcessBlock :: "'s Processor \<Rightarrow> 's \<Rightarrow> pb_Block \<Rightarrow> 's \<times> unit result" where
  "ProcessBlock p s block =
     (case parser p block of
        Panic \<Rightarrow> (s, Panic)
      | Err err \<Rightarrow> (s, Err (wrap ''parse: %w'' err))
      | Ok b \<Rightarrow> runHandlers (handlers p) b s)"

subsection \<open>What a processor with a database holds\<close>

text \<open>
  The state of the handlers: the database, and whatever the other handlers keep. \<open>before\<close> and \<open>after\<close> are
  the handlers around the database.
\<close>

definition store_handler :: "(VersionedDB \<times> 'o) block_handler" where
  "store_handler s b = (case db_Handle (fst s) b of (db, e) \<Rightarrow> ((db, snd s), e))"

definition other_handler :: "'o block_handler \<Rightarrow> (VersionedDB \<times> 'o) block_handler" where
  "other_handler h s b = (case h (snd s) b of (x, e) \<Rightarrow> ((fst s, x), e))"

definition store_processor :: "(pb_Block \<Rightarrow> Block result) \<Rightarrow> 'o block_handler list \<Rightarrow> 'o block_handler list
    \<Rightarrow> (VersionedDB \<times> 'o) Processor" where
  "store_processor p before after =
     NewProcessor p (map other_handler before @ [store_handler] @ map other_handler after)"

text \<open>The database after a list of raw blocks, each parsed and handled without an error.\<close>

fun replayed :: "(pb_Block \<Rightarrow> Block result) \<Rightarrow> VersionedDB \<Rightarrow> pb_Block list \<Rightarrow> VersionedDB option" where
  "replayed p db [] = Some db"
| "replayed p db (raw # rest) =
     (case p raw of
        Ok b \<Rightarrow> (case db_Handle db b of (db', None) \<Rightarrow> replayed p db' rest | _ \<Rightarrow> None)
      | _ \<Rightarrow> None)"

text \<open>A chain: block \<open>i\<close> has number \<open>i\<close>, and numbers fit the database's columns.\<close>

definition chain_ok :: "pb_Block list \<Rightarrow> bool" where
  "chain_ok chain \<longleftrightarrow> length chain \<le> 2 ^ 63
     \<and> (\<forall>i < length chain. raw_number (chain ! i) = of_nat i \<and> length (raw_data (chain ! i)) \<le> 2 ^ 63)"

lemma replayed_append:
  "replayed p db (xs @ ys) = (case replayed p db xs of None \<Rightarrow> None | Some db' \<Rightarrow> replayed p db' ys)"
  by (induction p db xs rule: replayed.induct) (auto split: result.splits prod.splits option.splits)

lemma replayed_step:
  assumes "n < length chain"
  shows "replayed p db (take (Suc n) chain) = Some db' \<longleftrightarrow>
    (\<exists>db1 b. replayed p db (take n chain) = Some db1 \<and> p (chain ! n) = Ok b \<and> db_Handle db1 b = (db', None))"
  using assms
  by (auto simp: take_Suc_conv_app_nth replayed_append split: option.splits result.splits prod.splits)

subsection \<open>The clock does not matter\<close>

definition map_result :: "('a \<Rightarrow> 'b) \<Rightarrow> 'a result \<Rightarrow> 'b result" where
  "map_result f r = (case r of Ok x \<Rightarrow> Ok (f x) | Err e \<Rightarrow> Err e | Panic \<Rightarrow> Panic)"

lemma map_result_simps [simp]:
  "map_result f (Ok x) = Ok (f x)" "map_result f (Err e) = Err e" "map_result f Panic = Panic"
  "map_result f r = Ok y \<longleftrightarrow> (\<exists>x. r = Ok x \<and> y = f x)" "map_result f r = Panic \<longleftrightarrow> r = Panic"
  by (auto simp: map_result_def split: result.splits)

lemma parseLoop_timestamp:
  "parseLoop f n data (block\<lparr>b_Timestamp := t\<rparr>) = map_result (b_Timestamp_update (\<lambda>_. t)) (parseLoop f n data block)"
proof (induction f n data block rule: parseLoop.induct)
  case (2 f n bs rest block)
  have "addEntry (block\<lparr>b_Timestamp := t\<rparr>) e = (addEntry block e)\<lparr>b_Timestamp := t\<rparr>" for e
    by (simp add: addEntry_def split: entry.splits)
  with 2 show ?case by (simp split: result.splits)
qed simp

lemma parseBlock_timestamp:
  "parseBlock pb pt st t raw = map_result (b_Timestamp_update (\<lambda>_. t)) (parseBlock pb pt st t' raw)"
proof -
  have "zero_Block\<lparr>b_Number := n, b_Hash := h, b_ParentHash := ph, b_Timestamp := t\<rparr>
      = (zero_Block\<lparr>b_Number := n, b_Hash := h, b_ParentHash := ph, b_Timestamp := t'\<rparr>)\<lparr>b_Timestamp := t\<rparr>" for n h ph
    by simp
  then show ?thesis
    unfolding parseBlock_def by (simp only: parseLoop_timestamp split: option.splits) (simp add: map_result_def)
qed

lemma db_Handle_timestamp [simp]: "db_Handle db (b\<lparr>b_Timestamp := t\<rparr>) = db_Handle db b"
proof -
  have e: "b_Number (b\<lparr>b_Timestamp := t\<rparr>) = b_Number b" "b_Transactions (b\<lparr>b_Timestamp := t\<rparr>) = b_Transactions b"
    by simp_all
  show ?thesis unfolding db_Handle_def UpdateWorldState_def insertBlock_def e ..
qed

subsection \<open>The replica interface\<close>

text \<open>
  What a follower of the chain relies on: \<open>BlockHeightReader\<close> and \<open>BlockProcessor\<close> of \<open>network\<close>. \<open>holds chain n\<close>
  says that the first \<open>n\<close> blocks of the chain are in the store. A failed block leaves the store as it was
  or, when a handler after the database failed, has already been stored.
\<close>

locale replica =
  fixes process :: "int64 \<Rightarrow> 's \<Rightarrow> pb_Block \<Rightarrow> 's \<times> unit result"
    and height :: "'s \<Rightarrow> u64 res"
    and holds :: "pb_Block list \<Rightarrow> nat \<Rightarrow> 's \<Rightarrow> bool"
  assumes holds_bound: "holds chain n s \<Longrightarrow> n \<le> length chain \<and> length chain \<le> 2 ^ 63"
    and holds_height: "holds chain n s \<Longrightarrow> height s = Inr (of_nat (n - 1))"
    and process_next: "holds chain n s \<Longrightarrow> n < length chain \<Longrightarrow> process now s (chain ! n) = (s', r)
          \<Longrightarrow> holds chain (Suc n) s' \<or> holds chain n s' \<and> r \<noteq> Ok ()"
    and process_old: "holds chain n s \<Longrightarrow> i < n \<Longrightarrow> process now s (chain ! i) = (s', r) \<Longrightarrow> holds chain n s'"
begin

lemma process_any:
  assumes "holds chain n s" and "i \<le> n" and "i < length chain" and "process now s (chain ! i) = (s', r)"
  shows "\<exists>m. holds chain m s' \<and> n \<le> m \<and> m \<le> Suc n \<and> (r = Ok () \<longrightarrow> Suc i \<le> m)"
proof (cases "i < n")
  case True
  with process_old [OF assms(1) True assms(4)] show ?thesis by (intro exI [of _ n]) auto
next
  case False
  with assms have "i = n" by simp
  with process_next [OF assms(1)] assms(3,4) show ?thesis by (metis le_Suc_eq order_refl)
qed

end

subsection \<open>The database under a processor is a replica\<close>

definition store_holds :: "(pb_Block \<Rightarrow> Block result) \<Rightarrow> string \<Rightarrow> pb_Block list \<Rightarrow> nat \<Rightarrow> VersionedDB \<times> 'o \<Rightarrow> bool" where
  "store_holds p ch chain n s \<longleftrightarrow> chain_ok chain \<and> n \<le> length chain
     \<and> replayed p (NewWriteDB ch) (take n chain) = Some (fst s)"

text \<open>The handlers around the database do not touch it, so a block reaches it once or not at all.\<close>

lemma runHandlers_append:
  "runHandlers (hs @ hs') b s =
     (case runHandlers hs b s of (s', Ok _) \<Rightarrow> runHandlers hs' b s' | (s', r) \<Rightarrow> (s', r))"
  by (induction hs b s rule: runHandlers.induct) (auto split: prod.splits option.splits)

lemma runHandlers_others: "fst (fst (runHandlers (map other_handler hs) b s)) = fst s"
proof (induction hs arbitrary: s)
  case (Cons h hs)
  show ?case
    using Cons by (simp add: other_handler_def [of h s b] split: prod.splits option.splits)
qed simp

lemma runHandlers_no_panic: "snd (runHandlers hs b s) \<noteq> Panic"
  by (induction hs b s rule: runHandlers.induct) (auto split: prod.splits option.splits)

lemma store_handlers:
  assumes "runHandlers (map other_handler before @ [store_handler] @ map other_handler after) b s = (s', r)"
  shows "fst s' = fst s \<and> r \<noteq> Ok () \<or> db_Handle (fst s) b = (fst s', None)"
proof (cases "runHandlers (map other_handler before) b s")
  case (Pair s1 r1)
  then have s1: "fst s1 = fst s" using runHandlers_others [of before b s] by simp
  show ?thesis
  proof (cases "r1 = Ok ()")
    case False
    with Pair assms s1 show ?thesis by (auto simp: runHandlers_append split: result.splits)
  next
    case True
    then have "runHandlers ([store_handler] @ map other_handler after) b s1 = (s', r)"
      using Pair assms by (simp add: runHandlers_append)
    then show ?thesis
      using s1 runHandlers_others [of after b]
      by (auto simp: store_handler_def db_Handle_def UpdateWorldState_def split: prod.splits option.splits sum.splits)
        (metis fst_conv)+
  qed
qed

text \<open>
  From here on the parser is one of the two: the loop over the block with a transaction parser and a
  status decoder.
\<close>

lemma parseBlock_numbers_ok:
  assumes "parseBlock pb pt st now raw = Ok b" and "length (raw_data raw) \<le> 2 ^ 63"
  shows "numbers_ok b"
  using parseBlock_numbers [OF assms(1)] assms(2) unfolding numbers_ok_def by fastforce

lemma chain_number:
  assumes "chain_ok chain" and "n < length chain" and "parseBlock pb pt st now (chain ! n) = Ok b"
  shows "uint (b_Number b) = int n \<and> numbers_ok b \<and> n < 2 ^ 63"
proof -
  have c: "raw_number (chain ! n) = of_nat n" "length (raw_data (chain ! n)) \<le> 2 ^ 63" "n < 2 ^ 63"
    using assms(1,2) unfolding chain_ok_def by auto
  have "uint (of_nat n :: u64) = int n" using c(3) by (simp add: unsigned_of_nat take_bit_nat_eq_self)
  with c parseBlock_closed [OF assms(3)] parseBlock_numbers_ok [OF assms(3)] show ?thesis by simp
qed

lemma replayed_inv:
  assumes "chain_ok chain" and "n \<le> length chain"
    and "replayed (parseBlock pb pt st 0) (NewWriteDB ch) (take n chain) = Some db"
  shows "db_inv db \<and> db_channel db = ch \<and> channel_progress db ch = (if n = 0 then None else Some (int n - 1))"
  using assms(2,3)
proof (induction n arbitrary: db)
  case 0
  then show ?case by (auto simp: db_inv_NewWriteDB) (simp_all add: NewWriteDB_def)
next
  case (Suc n)
  then have n: "n < length chain" by simp
  with Suc.prems obtain db1 b where db1: "replayed (parseBlock pb pt st 0) (NewWriteDB ch) (take n chain) = Some db1"
    and b: "parseBlock pb pt st 0 (chain ! n) = Ok b" and h: "UpdateWorldState db1 b = (db, None)"
    by (auto simp: replayed_step db_Handle_def)
  from Suc.IH [OF _ db1] n
  have i: "db_inv db1" "db_channel db1 = ch" "channel_progress db1 ch = (if n = 0 then None else Some (int n - 1))" by auto
  note num = chain_number [OF assms(1) n b]
  from h show ?case
  proof (cases rule: UpdateWorldState_cases)
    case (ok new)
    with i num db_inv_UpdateWorldState [OF i(1) _ h] show ?thesis by (auto simp: upsertProgress_def)
  qed simp
qed

lemma replayed_old:
  assumes "chain_ok chain" and "n \<le> length chain" and "i < n"
    and "replayed (parseBlock pb pt st 0) (NewWriteDB ch) (take n chain) = Some db"
  shows "\<exists>b. parseBlock pb pt st 0 (chain ! i) = Ok b \<and> UpdateWorldState db b = (db, None)"
  using assms(2-4)
proof (induction n arbitrary: db)
  case (Suc n)
  then have n: "n < length chain" by simp
  with Suc.prems obtain db1 b where db1: "replayed (parseBlock pb pt st 0) (NewWriteDB ch) (take n chain) = Some db1"
    and b: "parseBlock pb pt st 0 (chain ! n) = Ok b" and h: "UpdateWorldState db1 b = (db, None)"
    by (auto simp: replayed_step db_Handle_def)
  have inv: "db_inv db1" using replayed_inv [OF assms(1) _ db1] n by simp
  have bn: "numbers_ok b" using chain_number [OF assms(1) n b] by simp
  show ?case
  proof (cases "i = n")
    case True
    with b UpdateWorldState_replay [OF inv bn h, of "[]"] show ?thesis by auto
  next
    case False
    with Suc.prems Suc.IH [OF _ _ db1] n obtain c where
      c: "parseBlock pb pt st 0 (chain ! i) = Ok c" "UpdateWorldState db1 c = (db1, None)" by auto
    have "numbers_ok c" using chain_number [OF assms(1) _ c(1)] n Suc.prems(2) by simp
    from UpdateWorldState_replay [OF inv this c(2), of "[b]"] bn h c(1) show ?thesis
      by (auto simp: db_Handle_def)
  qed
qed simp

lemma store_process:
  assumes "ProcessBlock (store_processor (parseBlock pb pt st now) before after) s raw = (s', r)"
  shows "fst s' = fst s \<and> r \<noteq> Ok ()
    \<or> (\<exists>b. parseBlock pb pt st 0 raw = Ok b \<and> db_Handle (fst s) b = (fst s', None))"
proof (cases "parseBlock pb pt st 0 raw")
  case (Ok b)
  then have "parseBlock pb pt st now raw = Ok (b\<lparr>b_Timestamp := now\<rparr>)"
    by (simp add: parseBlock_timestamp [of _ _ _ now _ 0])
  then have "runHandlers (map other_handler before @ [store_handler] @ map other_handler after) (b\<lparr>b_Timestamp := now\<rparr>) s = (s', r)"
    using assms by (simp add: ProcessBlock_def store_processor_def NewProcessor_def)
  from store_handlers [OF this] Ok show ?thesis by simp
qed (use assms parseBlock_timestamp [of pb pt st now raw 0] in
    \<open>auto simp: ProcessBlock_def store_processor_def NewProcessor_def\<close>)

lemma store_replica:
  "replica (\<lambda>now. ProcessBlock (store_processor (parseBlock pb pt st now) before after)) (\<lambda>s. BlockNumber (fst s))
     (store_holds (parseBlock pb pt st 0) ch)"
proof
  fix chain n and s :: "VersionedDB \<times> 'a"
  assume h: "store_holds (parseBlock pb pt st 0) ch chain n s"
  then have c: "chain_ok chain" "n \<le> length chain"
    and r: "replayed (parseBlock pb pt st 0) (NewWriteDB ch) (take n chain) = Some (fst s)"
    by (auto simp: store_holds_def)
  note inv = replayed_inv [OF c r]
  show "n \<le> length chain \<and> length chain \<le> 2 ^ 63" using c by (simp add: chain_ok_def)
  show "BlockNumber (fst s) = Inr (of_nat (n - 1))"
    using inv BlockNumber_uint [of "fst s"] by (cases n) auto
  show "store_holds (parseBlock pb pt st 0) ch chain n s'" if "i < n"
    "ProcessBlock (store_processor (parseBlock pb pt st now) before after) s (chain ! i) = (s', x)" for i now s' x
    using store_process [OF that(2)] replayed_old [OF c that(1) r] h by (auto simp: store_holds_def db_Handle_def)
  show "store_holds (parseBlock pb pt st 0) ch chain (Suc n) s' \<or> store_holds (parseBlock pb pt st 0) ch chain n s' \<and> x \<noteq> Ok ()"
    if "n < length chain"
    "ProcessBlock (store_processor (parseBlock pb pt st now) before after) s (chain ! n) = (s', x)" for now s' x
    using store_process [OF that(2)] h r that(1) by (auto simp: store_holds_def replayed_step)
qed

interpretation fabricx_replica: replica "\<lambda>now. ProcessBlock (store_processor (fabricx_Parse pb cc now) before after)"
    "\<lambda>s. BlockNumber (fst s)" "store_holds (fabricx_Parse pb cc 0) ch"
  unfolding fabricx_Parse_def by (rule store_replica)

interpretation fabric_replica: replica "\<lambda>now. ProcessBlock (store_processor (fabric_Parse pb pc now) before after)"
    "\<lambda>s. BlockNumber (fst s)" "store_holds (fabric_Parse pb pc 0) ch"
  unfolding fabric_Parse_def by (rule store_replica)

subsection \<open>Replicas whose processor does not fail\<close>

locale live_replica = replica process height holds
  for process :: "int64 \<Rightarrow> 's \<Rightarrow> pb_Block \<Rightarrow> 's \<times> unit result"
    and height :: "'s \<Rightarrow> u64 res"
    and holds :: "pb_Block list \<Rightarrow> nat \<Rightarrow> 's \<Rightarrow> bool" +
  fixes processable :: "pb_Block list \<Rightarrow> bool"
  assumes process_ok: "processable chain \<Longrightarrow> holds chain n s \<Longrightarrow> i \<le> n \<Longrightarrow> i < length chain
    \<Longrightarrow> snd (process now s (chain ! i)) = Ok ()"

text \<open>A processor of the database alone fails on no block of a chain that can be handled from start to end.\<close>

definition replayable :: "(pb_Block \<Rightarrow> Block result) \<Rightarrow> string \<Rightarrow> pb_Block list \<Rightarrow> bool" where
  "replayable p ch chain \<longleftrightarrow> replayed p (NewWriteDB ch) chain \<noteq> None"

lemma store_process_alone:
  assumes "parseBlock pb pt st 0 raw = Ok b" and "db_Handle (fst s) b = (db, None)"
  shows "ProcessBlock (store_processor (parseBlock pb pt st now) [] []) s raw = ((db, snd s), Ok ())"
  using assms by (simp add: ProcessBlock_def store_processor_def NewProcessor_def store_handler_def
      parseBlock_timestamp [of _ _ _ now _ 0])

lemma replayed_next:
  assumes "replayable p ch chain" and "n < length chain" and "replayed p (NewWriteDB ch) (take n chain) = Some db"
  shows "\<exists>b db'. p (chain ! n) = Ok b \<and> db_Handle db b = (db', None)"
proof -
  have "replayed p (NewWriteDB ch) (take (Suc n) chain @ drop (Suc n) chain) \<noteq> None"
    using assms(1) by (simp add: replayable_def)
  then have "replayed p (NewWriteDB ch) (take (Suc n) chain) \<noteq> None"
    by (auto simp only: replayed_append split: option.splits)
  with assms(2,3) show ?thesis by (auto simp: replayed_step)
qed

lemma store_live_replica:
  "live_replica (\<lambda>now. ProcessBlock (store_processor (parseBlock pb pt st now) [] [])) (\<lambda>s. BlockNumber (fst s))
     (store_holds (parseBlock pb pt st 0) ch) (replayable (parseBlock pb pt st 0) ch)"
proof (intro live_replica.intro live_replica_axioms.intro store_replica)
  fix chain n i now and s :: "VersionedDB \<times> 'a"
  assume "replayable (parseBlock pb pt st 0) ch chain" and "store_holds (parseBlock pb pt st 0) ch chain n s"
    and "i \<le> n" and "i < length chain"
  then have "\<exists>b db'. parseBlock pb pt st 0 (chain ! i) = Ok b \<and> db_Handle (fst s) b = (db', None)"
    using replayed_next [of "parseBlock pb pt st 0" ch chain n "fst s"] replayed_old [of chain n i pb pt st ch "fst s"]
    by (cases "i = n") (auto simp: store_holds_def db_Handle_def)
  then show "snd (ProcessBlock (store_processor (parseBlock pb pt st now) [] []) s (chain ! i)) = Ok ()"
    using store_process_alone [of pb pt st "chain ! i"] by fastforce
qed

interpretation fabricx_live: live_replica "\<lambda>now. ProcessBlock (store_processor (fabricx_Parse pb cc now) [] [])"
    "\<lambda>s. BlockNumber (fst s)" "store_holds (fabricx_Parse pb cc 0) ch" "replayable (fabricx_Parse pb cc 0) ch"
  unfolding fabricx_Parse_def by (rule store_live_replica)

interpretation fabric_live: live_replica "\<lambda>now. ProcessBlock (store_processor (fabric_Parse pb pc now) [] [])"
    "\<lambda>s. BlockNumber (fst s)" "store_holds (fabric_Parse pb pc 0) ch" "replayable (fabric_Parse pb pc 0) ch"
  unfolding fabric_Parse_def by (rule store_live_replica)

end
