(* ===== verification/Peer_Client.thy ===== *)
theory Peer_Client
  imports Processor
begin

section \<open>Block delivery (network/peer.go)\<close>

text \<open>
  The client side of the deliver service: the seek request and the loop that hands the received blocks
  to a processor. The stream is a list of what \<open>Recv\<close> returns, one entry per call; when the list ends,
  the call has not returned yet. The signer is optional, the clock and the nonce are arguments.
\<close>

subsection \<open>The seek request\<close>

datatype seek_position = SeekUnset | SeekOldest | SeekNewest | SeekSpecified u64

record pb_SeekInfo =
  seek_Start :: "seek_position option"
  seek_Stop :: "seek_position option"
  seek_Behavior :: int32

record seek_protos =
  HeaderType_DELIVER_SEEK_INFO :: int32
  SeekInfo_BLOCK_UNTIL_READY :: int32
  ma_SeekInfo :: "pb_SeekInfo \<Rightarrow> bytes res"
  um_SeekInfo :: "bytes \<Rightarrow> pb_SeekInfo res"

definition seekHeader :: "protos \<Rightarrow> seek_protos \<Rightarrow> bytes \<Rightarrow> bytes \<Rightarrow> int64 \<Rightarrow> string \<Rightarrow> pb_Header res" where
  "seekHeader pb sk creator nonce seconds channel =
     (case ma_ChannelHeader pb \<lparr>ch_Type = HeaderType_DELIVER_SEEK_INFO sk,
             ch_Timestamp = Some \<lparr>ts_Seconds = seconds, ts_Nanos = 0\<rparr>,
             ch_ChannelId = channel, ch_TxId = '''', ch_Epoch = 0, ch_Extension = ''''\<rparr> of
        Inl err \<Rightarrow> Inl (wrap ''marshal channel header: %w'' err)
      | Inr channelHeader \<Rightarrow>
     (case ma_SignatureHeader pb \<lparr>sh_Creator = creator, sh_Nonce = nonce\<rparr> of
        Inl err \<Rightarrow> Inl (wrap ''marshal signature header: %w'' err)
      | Inr sigHeader \<Rightarrow> Inr \<lparr>hdr_ChannelHeader = channelHeader, hdr_SignatureHeader = sigHeader\<rparr>))"

definition seekPayload :: "protos \<Rightarrow> seek_protos \<Rightarrow> pb_Header \<Rightarrow> u64 \<Rightarrow> bytes res" where
  "seekPayload pb sk hdr startBlock =
     (case ma_SeekInfo sk \<lparr>seek_Start = Some (SeekSpecified startBlock), seek_Stop = Some (SeekSpecified (- 1)),
             seek_Behavior = SeekInfo_BLOCK_UNTIL_READY sk\<rparr> of
        Inl err \<Rightarrow> Inl (wrap ''marshal seek info: %w'' err)
      | Inr seekInfo \<Rightarrow>
     (case ma_Payload pb \<lparr>pl_Header = Some hdr, pl_Data = seekInfo\<rparr> of
        Inl err \<Rightarrow> Inl (wrap ''marshal payload: %w'' err)
      | Inr payload \<Rightarrow> Inr payload))"

definition newDeliverSeekInfo :: "protos \<Rightarrow> seek_protos \<Rightarrow> Signer option \<Rightarrow> bytes \<Rightarrow> int64 \<Rightarrow> string \<Rightarrow> u64
    \<Rightarrow> pb_Envelope res" where
  "newDeliverSeekInfo pb sk submitter nonce seconds channel startBlock =
     (case (case submitter of Some sg \<Rightarrow> Serialize sg | None \<Rightarrow> Inr '''') of
        Inl err \<Rightarrow> Inl err
      | Inr creator \<Rightarrow>
     (case seekHeader pb sk creator nonce seconds channel of
        Inl err \<Rightarrow> Inl err
      | Inr hdr \<Rightarrow>
     (case seekPayload pb sk hdr startBlock of
        Inl err \<Rightarrow> Inl err
      | Inr payload \<Rightarrow>
     (case submitter of
        None \<Rightarrow> Inr \<lparr>env_Payload = payload, env_Signature = ''''\<rparr>
      | Some sg \<Rightarrow>
          (case Sign sg payload of
             Inl err \<Rightarrow> Inl (wrap ''sign payload: %w'' err)
           | Inr sig \<Rightarrow> Inr \<lparr>env_Payload = payload, env_Signature = sig\<rparr>)))))"

subsection \<open>The delivery loop\<close>

text \<open>
  A message of the stream: a block, a status (success or not), or one of another type, which the switch
  ignores. \<open>RecvErr\<close> is an error of \<open>Recv\<close>, with whether the context was done at that moment. One message
  either continues the loop (\<open>None\<close>) or makes the call return.
\<close>

datatype deliver_recv = RecvBlock pb_Block | RecvStatus bool string | RecvOther | RecvErr bool goerror

fun deliverStep :: "('s \<Rightarrow> pb_Block \<Rightarrow> 's \<times> unit result) \<Rightarrow> deliver_recv \<Rightarrow> 's \<Rightarrow> 's \<times> unit result option" where
  "deliverStep process (RecvErr done err) s =
     (s, Some (if done then Ok () else Err (wrap ''recv deliver: %w'' err)))"
| "deliverStep process (RecvBlock b) s =
     (case process s b of
        (s', Ok _) \<Rightarrow> (s', None)
      | (s', Err err) \<Rightarrow> (s', Some (Err (wrap ''processor: %w'' err)))
      | (s', Panic) \<Rightarrow> (s', Some Panic))"
| "deliverStep process (RecvStatus success name) s =
     (s, Some (if success then Ok () else Err (Msg ''deliver stream ended: %s'' [FStr name])))"
| "deliverStep process RecvOther s = (s, None)"

fun deliverLoop :: "('s \<Rightarrow> pb_Block \<Rightarrow> 's \<times> unit result) \<Rightarrow> deliver_recv list \<Rightarrow> 's \<Rightarrow> 's \<times> unit result option" where
  "deliverLoop process [] s = (s, None)"
| "deliverLoop process (m # ms) s =
     (case deliverStep process m s of
        (s', None) \<Rightarrow> deliverLoop process ms s'
      | (s', Some r) \<Rightarrow> (s', Some r))"

text \<open>
  \<open>opened\<close> is the result of opening the stream and \<open>sent\<close> that of sending the request on it.
\<close>

definition SubscribeBlocks :: "goerror option \<Rightarrow> pb_Envelope res \<Rightarrow> goerror option
    \<Rightarrow> ('s \<Rightarrow> pb_Block \<Rightarrow> 's \<times> unit result) \<Rightarrow> deliver_recv list \<Rightarrow> 's \<Rightarrow> 's \<times> unit result option" where
  "SubscribeBlocks opened env sent process ms s =
     (case opened of
        Some err \<Rightarrow> (s, Some (Err (wrap ''open Deliver: %w'' err)))
      | None \<Rightarrow>
     (case env of
        Inl err \<Rightarrow> (s, Some (Err (wrap ''build seek envelope: %w'' err)))
      | Inr _ \<Rightarrow>
     (case sent of
        Some err \<Rightarrow> (s, Some (Err (wrap ''send seek envelope: %w'' err)))
      | None \<Rightarrow> deliverLoop process ms s)))"

end
