(* ===== verification/Synchronizer.thy ===== *)
theory Synchronizer
  imports Peer_Client
begin

section \<open>The synchronizer (network/synchronizer.go)\<close>

text \<open>
  \<open>Synchronizer\<close> keeps a local store in step with a peer: one goroutine runs the loop of \<open>Start\<close>, and while
  blocks are being received a monitor goroutine watches for the moment the store has caught up. The model
  is a step relation on everything the goroutines share: the fields under the mutex, the contexts, the
  running monitors with their program counters, the store, and the program counter of \<open>Start\<close>. A step is
  a critical section, a call of the peer or the store, or the choice of a \<open>select\<close>; steps of the
  goroutines and the cancellation of the context interleave freely. Waiting times are left out, except
  for the backoff, which is a number of seconds.
\<close>

subsection \<open>States and errors\<close>

datatype syncState = stateNotStarted | stateStarting | stateSyncing | stateReady | stateRetrying | stateStopped

fun syncState_String :: "syncState \<Rightarrow> string" where
  "syncState_String stateNotStarted = ''not-started''"
| "syncState_String stateStarting = ''starting''"
| "syncState_String stateSyncing = ''syncing''"
| "syncState_String stateReady = ''ready''"
| "syncState_String stateRetrying = ''retrying''"
| "syncState_String stateStopped = ''stopped''"

definition errSynchronizerNotStarted :: goerror where "errSynchronizerNotStarted = Msg ''not started'' []"
definition errSynchronizerNotReady :: goerror where "errSynchronizerNotReady = Msg ''not ready: still syncing'' []"
definition errSynchronizerRetrying :: goerror where "errSynchronizerRetrying = Msg ''retrying after error'' []"
definition errSynchronizerStopped :: goerror where "errSynchronizerStopped = Msg ''stopped'' []"
definition errAlreadyStarted :: goerror where "errAlreadyStarted = Msg ''already started'' []"

text \<open>
  \<open>sy_monitorCancel\<close> is the number of the monitor whose context the stored cancel function cancels.
\<close>

record Synchronizer =
  sy_state :: syncState
  sy_lastSyncErr :: "goerror option"
  sy_monitorCancel :: "nat option"

definition Live :: "Synchronizer \<Rightarrow> goerror option" where
  "Live y =
     (case sy_state y of
        stateNotStarted \<Rightarrow> Some errSynchronizerNotStarted
      | stateStopped \<Rightarrow> Some errSynchronizerStopped
      | stateRetrying \<Rightarrow>
          (case sy_lastSyncErr y of
             Some e \<Rightarrow> Some (Msg ''%w: %v'' [FErr errSynchronizerRetrying, FErr e])
           | None \<Rightarrow> Some errSynchronizerRetrying)
      | _ \<Rightarrow> None)"

definition Ready :: "Synchronizer \<Rightarrow> goerror option" where
  "Ready y =
     (case sy_state y of
        stateNotStarted \<Rightarrow> Some errSynchronizerNotStarted
      | stateStopped \<Rightarrow> Some errSynchronizerStopped
      | stateStarting \<Rightarrow> Some errSynchronizerNotReady
      | stateSyncing \<Rightarrow> Some errSynchronizerNotReady
      | stateRetrying \<Rightarrow>
          (case sy_lastSyncErr y of
             Some e \<Rightarrow> Some (Msg ''%w: %v'' [FErr errSynchronizerRetrying, FErr e])
           | None \<Rightarrow> Some errSynchronizerRetrying)
      | stateReady \<Rightarrow> None)"

subsection \<open>The shared world\<close>

text \<open>
  \<open>Start\<close>: before the call, at the head of the loop, after the context check, inside \<open>SubscribeBlocks\<close> with
  the number of the next block of the stream, sleeping, in the deferred function waiting for the monitors,
  returned; or the program has panicked. A monitor: in its \<open>select\<close>, after the peer's height, or decided.
\<close>

datatype start_pc = NotRunning | LoopHead | ReadHeight | Delivering nat | Sleeping | Joining | Returned | Crashed

datatype mon_pc = MonSelect | MonPeerHeight u64 | MonCaughtUp

record 's sync_world =
  syn :: Synchronizer
  ctxDone :: bool
  cancelled :: "nat set"
  monitors :: "nat \<rightharpoonup> mon_pc"
  nextMon :: nat
  pc :: start_pc
  currentBackoff :: int
  store :: 's
  peerClosed :: bool

definition NewSynchronizer :: "'s \<Rightarrow> 's sync_world" where
  "NewSynchronizer s = \<lparr>syn = \<lparr>sy_state = stateNotStarted, sy_lastSyncErr = None, sy_monitorCancel = None\<rparr>,
     ctxDone = False, cancelled = {}, monitors = Map.empty, nextMon = 0, pc = NotRunning, currentBackoff = 0,
     store = s, peerClosed = False\<rparr>"

definition maxBackoff :: int where
  "maxBackoff = 30"

subsection \<open>transition\<close>

definition cancelMonitor :: "'s sync_world \<Rightarrow> 's sync_world" where
  "cancelMonitor w =
     (case sy_monitorCancel (syn w) of
        None \<Rightarrow> w
      | Some i \<Rightarrow> w\<lparr>cancelled := insert i (cancelled w), syn := (syn w)\<lparr>sy_monitorCancel := None\<rparr>\<rparr>)"

definition startMonitor :: "'s sync_world \<Rightarrow> 's sync_world" where
  "startMonitor w = w\<lparr>syn := (syn w)\<lparr>sy_monitorCancel := Some (nextMon w)\<rparr>,
     monitors := (monitors w)(nextMon w \<mapsto> MonSelect), nextMon := Suc (nextMon w)\<rparr>"

definition transition :: "syncState \<Rightarrow> goerror option \<Rightarrow> 's sync_world \<Rightarrow> 's sync_world" where
  "transition to err w =
     (let from = sy_state (syn w) in
      if from = stateStopped then w
      else
        let w1 = w\<lparr>syn := (syn w)\<lparr>sy_state := to\<rparr>\<rparr>;
            w2 = (if from = stateSyncing then cancelMonitor w1 else w1) in
        case to of
          stateSyncing \<Rightarrow>
            (let w3 = w2\<lparr>syn := (syn w2)\<lparr>sy_lastSyncErr := None\<rparr>\<rparr> in
             if ctxDone w3 then w3 else startMonitor w3)
        | stateRetrying \<Rightarrow> w2\<lparr>syn := (syn w2)\<lparr>sy_lastSyncErr := err\<rparr>\<rparr>
        | stateStopped \<Rightarrow> cancelMonitor w2
        | _ \<Rightarrow> w2)"

subsection \<open>Start\<close>

definition StartCall :: "'s sync_world \<Rightarrow> 's sync_world \<times> goerror option" where
  "StartCall w =
     (if sy_state (syn w) \<noteq> stateNotStarted then (w, Some errAlreadyStarted)
      else (w\<lparr>syn := (syn w)\<lparr>sy_state := stateStarting\<rparr>, pc := LoopHead, currentBackoff := 1\<rparr>, None))"

definition exitStart :: "'s sync_world \<Rightarrow> 's sync_world" where
  "exitStart w = (transition stateStopped None w)\<lparr>pc := Joining\<rparr>"

definition failed :: "goerror \<Rightarrow> 's sync_world \<Rightarrow> 's sync_world" where
  "failed err w = (if ctxDone w then exitStart w else (transition stateRetrying (Some err) w)\<lparr>pc := Sleeping\<rparr>)"

definition startBlock :: "u64 \<Rightarrow> u64" where
  "startBlock lastBlock = (if lastBlock > 0 then lastBlock + 1 else 0)"

definition readHeight :: "('s \<Rightarrow> u64 res) \<Rightarrow> 's sync_world \<Rightarrow> 's sync_world" where
  "readHeight height w =
     (case height (store w) of
        Inl err \<Rightarrow> failed err w
      | Inr lastBlock \<Rightarrow> (transition stateSyncing None w)\<lparr>pc := Delivering (unat (startBlock lastBlock))\<rparr>)"

definition received :: "('s \<Rightarrow> pb_Block \<Rightarrow> 's \<times> unit result) \<Rightarrow> deliver_recv \<Rightarrow> nat \<Rightarrow> 's sync_world \<Rightarrow> 's sync_world" where
  "received process m k w =
     (case deliverStep process m (store w) of
        (s, None) \<Rightarrow> w\<lparr>store := s, pc := Delivering (case m of RecvBlock _ \<Rightarrow> Suc k | _ \<Rightarrow> k)\<rparr>
      | (s, Some (Ok _)) \<Rightarrow> w\<lparr>store := s, pc := LoopHead, currentBackoff := 1\<rparr>
      | (s, Some (Err err)) \<Rightarrow> failed err (w\<lparr>store := s\<rparr>)
      | (s, Some Panic) \<Rightarrow> w\<lparr>store := s, pc := Crashed\<rparr>)"

definition wakeUp :: "'s sync_world \<Rightarrow> 's sync_world" where
  "wakeUp w = w\<lparr>pc := LoopHead, currentBackoff := min (currentBackoff w * 2) maxBackoff\<rparr>"

definition closePeer :: "'s sync_world \<Rightarrow> 's sync_world" where
  "closePeer w = w\<lparr>pc := Returned, peerClosed := True\<rparr>"

subsection \<open>monitorReadiness\<close>

definition syncBlockHeight :: "('s \<Rightarrow> u64 res) \<Rightarrow> 's \<Rightarrow> u64 res" where
  "syncBlockHeight height s = (case height s of Inl err \<Rightarrow> Inl err | Inr lpb \<Rightarrow> Inr (lpb + 1))"

definition monitorCompare :: "('s \<Rightarrow> u64 res) \<Rightarrow> nat \<Rightarrow> u64 \<Rightarrow> 's sync_world \<Rightarrow> 's sync_world" where
  "monitorCompare height i peerHeight w =
     (case syncBlockHeight height (store w) of
        Inl _ \<Rightarrow> w\<lparr>monitors := (monitors w)(i \<mapsto> MonSelect)\<rparr>
      | Inr localLast \<Rightarrow>
          w\<lparr>monitors := (monitors w)(i \<mapsto> if localLast \<ge> peerHeight then MonCaughtUp else MonSelect)\<rparr>)"

definition monitorExit :: "nat \<Rightarrow> 's sync_world \<Rightarrow> 's sync_world" where
  "monitorExit i w = w\<lparr>monitors := (monitors w)(i := None)\<rparr>"

subsection \<open>Interleaved execution\<close>

text \<open>
  The peer serves a chain: a subscription from block \<open>k\<close> delivers the blocks of the chain from \<open>k\<close> on, in
  order, and may at any time deliver a status or fail. \<open>BlockHeight\<close> of the peer may return anything. When
  \<open>ProcessBlock\<close> panics, the program is gone and nothing moves any more.
\<close>

inductive sync_step :: "(int64 \<Rightarrow> 's \<Rightarrow> pb_Block \<Rightarrow> 's \<times> unit result) \<Rightarrow> ('s \<Rightarrow> u64 res) \<Rightarrow> pb_Block list
    \<Rightarrow> 's sync_world \<Rightarrow> 's sync_world \<Rightarrow> bool"
  for process height chain where
  start: "pc w = NotRunning \<Longrightarrow> StartCall w = (w', None) \<Longrightarrow> sync_step process height chain w w'"
| cancel: "pc w \<noteq> Crashed \<Longrightarrow> sync_step process height chain w (w\<lparr>ctxDone := True\<rparr>)"
| stop: "pc w = LoopHead \<Longrightarrow> ctxDone w \<Longrightarrow> sync_step process height chain w (exitStart w)"
| check: "pc w = LoopHead \<Longrightarrow> \<not> ctxDone w \<Longrightarrow> sync_step process height chain w (w\<lparr>pc := ReadHeight\<rparr>)"
| read: "pc w = ReadHeight \<Longrightarrow> sync_step process height chain w (readHeight height w)"
| subscribe_fails: "pc w = Delivering k \<Longrightarrow> sync_step process height chain w (failed err w)"
| block: "pc w = Delivering k \<Longrightarrow> k < length chain
    \<Longrightarrow> sync_step process height chain w (received (process now) (RecvBlock (chain ! k)) k w)"
| status: "pc w = Delivering k
    \<Longrightarrow> sync_step process height chain w (received (process now) (RecvStatus success name) k w)"
| recv_fails: "pc w = Delivering k
    \<Longrightarrow> sync_step process height chain w (received (process now) (RecvErr (ctxDone w) err) k w)"
| sleep_cancelled: "pc w = Sleeping \<Longrightarrow> ctxDone w \<Longrightarrow> sync_step process height chain w (exitStart w)"
| wake: "pc w = Sleeping \<Longrightarrow> sync_step process height chain w (wakeUp w)"
| join: "pc w = Joining \<Longrightarrow> monitors w = Map.empty \<Longrightarrow> sync_step process height chain w (closePeer w)"
| mon_done: "pc w \<noteq> Crashed \<Longrightarrow> monitors w i = Some MonSelect \<Longrightarrow> ctxDone w \<or> i \<in> cancelled w
    \<Longrightarrow> sync_step process height chain w (monitorExit i w)"
| mon_tick: "pc w \<noteq> Crashed \<Longrightarrow> monitors w i = Some MonSelect
    \<Longrightarrow> sync_step process height chain w (w\<lparr>monitors := (monitors w)(i \<mapsto> MonPeerHeight h)\<rparr>)"
| mon_compare: "pc w \<noteq> Crashed \<Longrightarrow> monitors w i = Some (MonPeerHeight h)
    \<Longrightarrow> sync_step process height chain w (monitorCompare height i h w)"
| mon_ready: "pc w \<noteq> Crashed \<Longrightarrow> monitors w i = Some MonCaughtUp
    \<Longrightarrow> sync_step process height chain w (monitorExit i (transition stateReady None w))"

abbreviation sync_steps :: "(int64 \<Rightarrow> 's \<Rightarrow> pb_Block \<Rightarrow> 's \<times> unit result) \<Rightarrow> ('s \<Rightarrow> u64 res) \<Rightarrow> pb_Block list
    \<Rightarrow> 's sync_world \<Rightarrow> 's sync_world \<Rightarrow> bool" where
  "sync_steps process height chain \<equiv> (sync_step process height chain)\<^sup>*\<^sup>*"

subsection \<open>What transition changes\<close>

lemma cancelMonitor_fields [simp]:
  "pc (cancelMonitor w) = pc w" "store (cancelMonitor w) = store w" "ctxDone (cancelMonitor w) = ctxDone w"
  "peerClosed (cancelMonitor w) = peerClosed w" "currentBackoff (cancelMonitor w) = currentBackoff w"
  "monitors (cancelMonitor w) = monitors w" "nextMon (cancelMonitor w) = nextMon w"
  "sy_state (syn (cancelMonitor w)) = sy_state (syn w)" "sy_monitorCancel (syn (cancelMonitor w)) = None"
  "cancelled (cancelMonitor w) = cancelled w \<union> set_option (sy_monitorCancel (syn w))"
  "sy_lastSyncErr (syn (cancelMonitor w)) = sy_lastSyncErr (syn w)"
  by (auto simp: cancelMonitor_def split: option.splits)

lemma startMonitor_fields [simp]:
  "pc (startMonitor w) = pc w" "store (startMonitor w) = store w" "ctxDone (startMonitor w) = ctxDone w"
  "peerClosed (startMonitor w) = peerClosed w" "currentBackoff (startMonitor w) = currentBackoff w"
  "sy_state (syn (startMonitor w)) = sy_state (syn w)" "cancelled (startMonitor w) = cancelled w"
  "sy_lastSyncErr (syn (startMonitor w)) = sy_lastSyncErr (syn w)"
  by (simp_all add: startMonitor_def)

lemma transition_fields [simp]:
  "pc (transition to err w) = pc w" "store (transition to err w) = store w" "ctxDone (transition to err w) = ctxDone w"
  "peerClosed (transition to err w) = peerClosed w" "currentBackoff (transition to err w) = currentBackoff w"
  "sy_state (syn (transition to err w)) = (if sy_state (syn w) = stateStopped then stateStopped else to)"
  by (auto simp: transition_def Let_def split: syncState.splits)

lemma transition_monitors:
  "to \<noteq> stateSyncing \<Longrightarrow> monitors (transition to err w) = monitors w"
  by (auto simp: transition_def Let_def split: syncState.splits)

text \<open>Every running monitor is the current one or has been cancelled, and there is a current one only while syncing.\<close>

definition monitors_inv :: "'s sync_world \<Rightarrow> bool" where
  "monitors_inv w \<longleftrightarrow> (\<forall>i \<in> dom (monitors w). i < nextMon w \<and> (sy_monitorCancel (syn w) = Some i \<or> i \<in> cancelled w))
     \<and> (sy_monitorCancel (syn w) \<noteq> None \<longrightarrow> sy_state (syn w) = stateSyncing)"

lemma monitors_inv_transition: "monitors_inv w \<Longrightarrow> monitors_inv (transition to err w)"
  by (auto simp: monitors_inv_def transition_def startMonitor_def Let_def split: syncState.splits if_splits)
    (auto simp: less_Suc_eq)

definition start_inv :: "'s sync_world \<Rightarrow> bool" where
  "start_inv w \<longleftrightarrow> (sy_state (syn w) = stateStopped \<longleftrightarrow> pc w = Joining \<or> pc w = Returned)
     \<and> (sy_state (syn w) = stateNotStarted \<longleftrightarrow> pc w = NotRunning)
     \<and> (pc w = NotRunning \<or> pc w = Returned \<longrightarrow> monitors w = Map.empty)
     \<and> (pc w = Joining \<or> pc w = Returned \<longrightarrow> ctxDone w)
     \<and> (peerClosed w \<longleftrightarrow> pc w = Returned)
     \<and> (pc w \<noteq> NotRunning \<longrightarrow> 1 \<le> currentBackoff w \<and> currentBackoff w \<le> maxBackoff)"

lemmas sync_defs = exitStart_def failed_def readHeight_def received_def wakeUp_def closePeer_def
  monitorCompare_def monitorExit_def StartCall_def maxBackoff_def

lemma monitors_inv_update [simp]:
  "monitors_inv (w\<lparr>pc := p\<rparr>) = monitors_inv w" "monitors_inv (w\<lparr>store := s\<rparr>) = monitors_inv w"
  "monitors_inv (w\<lparr>currentBackoff := n\<rparr>) = monitors_inv w" "monitors_inv (w\<lparr>ctxDone := b\<rparr>) = monitors_inv w"
  "monitors_inv (w\<lparr>peerClosed := b\<rparr>) = monitors_inv w"
  by (simp_all add: monitors_inv_def)

lemma monitors_inv_monitors:
  "monitors_inv w \<Longrightarrow> monitors w i = Some x \<Longrightarrow> monitors_inv (w\<lparr>monitors := (monitors w)(i := y)\<rparr>)"
  by (fastforce simp: monitors_inv_def split: if_splits)

lemma start_inv_exit:
  "start_inv w \<Longrightarrow> ctxDone w \<Longrightarrow> pc w \<notin> {NotRunning, Returned} \<Longrightarrow> start_inv (exitStart w)"
  by (auto simp: start_inv_def exitStart_def)

lemma start_inv_failed:
  "start_inv w \<Longrightarrow> pc w \<notin> {NotRunning, Joining, Returned} \<Longrightarrow> start_inv (failed err w)"
  using start_inv_exit [of w] by (auto simp: failed_def) (auto simp: start_inv_def)

lemma monitors_inv_failed: "monitors_inv w \<Longrightarrow> monitors_inv (failed err w)"
  by (simp add: failed_def exitStart_def monitors_inv_transition)

lemma start_inv_store [simp]: "start_inv (w\<lparr>store := s\<rparr>) = start_inv w"
  by (simp add: start_inv_def)

lemma received_inv:
  assumes "start_inv w" and "monitors_inv w" and "pc w = Delivering k"
  shows "start_inv (received p m k w) \<and> monitors_inv (received p m k w)"
proof -
  obtain s r where d: "deliverStep p m (store w) = (s, r)" by fastforce
  have "start_inv (failed err (w\<lparr>store := s\<rparr>)) \<and> monitors_inv (failed err (w\<lparr>store := s\<rparr>))" for err
    using assms by (simp add: start_inv_failed monitors_inv_failed)
  with d assms show ?thesis
    by (auto simp: received_def start_inv_def maxBackoff_def split: option.splits result.splits)
qed

lemma sync_step_inv:
  assumes "sync_step process height chain w w'" and "start_inv w" and "monitors_inv w"
  shows "start_inv w' \<and> monitors_inv w'"
  using assms
proof (cases rule: sync_step.cases)
  case start
  with assms show ?thesis by (auto simp: start_inv_def monitors_inv_def StartCall_def maxBackoff_def split: if_splits)
next
  case read
  then show ?thesis using assms(2,3) start_inv_failed [of w] monitors_inv_failed [of w] monitors_inv_transition [of w]
    by (auto simp: readHeight_def split: sum.splits) (auto simp: start_inv_def)
next
  case (mon_ready i)
  then show ?thesis using assms(2,3)
      monitors_inv_monitors [OF monitors_inv_transition, of w stateReady None i MonCaughtUp None]
    by (auto simp: monitorExit_def transition_monitors) (auto simp: start_inv_def transition_monitors)
next
  case (mon_compare i h)
  then show ?thesis using assms(2,3) monitors_inv_monitors [of w i "MonPeerHeight h"]
    by (auto simp: monitorCompare_def split: sum.splits) (auto simp: start_inv_def)
next
  case (mon_tick i h)
  then show ?thesis using assms(2,3) monitors_inv_monitors [of w i MonSelect] by (auto simp: start_inv_def)
next
  case (mon_done i)
  then show ?thesis using assms(2,3) monitors_inv_monitors [of w i MonSelect]
    by (auto simp: start_inv_def monitorExit_def)
next
  case (block k now)
  then show ?thesis using assms(2,3) received_inv by blast
next
  case (status k now success name)
  then show ?thesis using assms(2,3) received_inv by blast
next
  case (recv_fails k now err)
  then show ?thesis using assms(2,3) received_inv by blast
qed (auto simp: start_inv_exit start_inv_failed monitors_inv_failed exitStart_def monitors_inv_transition,
    auto simp: start_inv_def exitStart_def wakeUp_def closePeer_def maxBackoff_def)

lemma sync_steps_inv:
  assumes "sync_steps process height chain (NewSynchronizer s) w"
  shows "start_inv w \<and> monitors_inv w"
  using assms
proof (induction rule: rtranclp_induct)
  case base
  then show ?case by (simp add: start_inv_def monitors_inv_def NewSynchronizer_def)
next
  case (step y z)
  with sync_step_inv show ?case by blast
qed

subsection \<open>The store follows the chain\<close>

definition delivers_held :: "nat \<Rightarrow> 's sync_world \<Rightarrow> bool" where
  "delivers_held n w \<longleftrightarrow> (\<forall>k. pc w = Delivering k \<longrightarrow> k \<le> n)"

lemma delivers_held_simps [simp]:
  "delivers_held n (exitStart w)" "delivers_held n (failed err w)" "delivers_held n (wakeUp w)" "delivers_held n (closePeer w)"
  "delivers_held n (monitorExit i w) = delivers_held n w" "delivers_held n (transition to e w) = delivers_held n w"
  "delivers_held n (monitorCompare height i h w) = delivers_held n w"
  by (auto simp: delivers_held_def sync_defs split: sum.splits)

lemma store_simps [simp]:
  "store (exitStart w) = store w" "store (failed err w) = store w" "store (wakeUp w) = store w" "store (closePeer w) = store w"
  "store (monitorExit i w) = store w" "store (monitorCompare height i h w) = store w" "store (readHeight height w) = store w"
  by (auto simp: sync_defs split: sum.splits)

context replica
begin

lemma start_within:
  assumes "holds chain n s" and "height s = Inr l"
  shows "unat (startBlock l) \<le> n \<and> (startBlock l = 0 \<or> unat (startBlock l) = n)"
proof (cases "n \<le> 1")
  case True
  with assms holds_height [of chain n s] have "l = 0" by (cases n) auto
  then show ?thesis by (simp add: startBlock_def)
next
  case False
  have b: "n \<le> 2 ^ 63" using holds_bound [OF assms(1)] by simp
  have "l + 1 = of_nat n"
    using assms holds_height [of chain n s] False by (cases n) auto
  moreover have "unat (of_nat n :: u64) = n" using b by (simp add: unsigned_of_nat take_bit_nat_eq_self)
  ultimately show ?thesis by (simp add: startBlock_def)
qed

lemma received_block_holds:
  assumes "holds chain n (store w)" and "pc w = Delivering k" and "k \<le> n" and "k < length chain"
  shows "\<exists>m. holds chain m (store (received (process now) (RecvBlock (chain ! k)) k w))
    \<and> delivers_held m (received (process now) (RecvBlock (chain ! k)) k w)"
proof -
  obtain s r where p: "process now (store w) (chain ! k) = (s, r)" by fastforce
  from process_any [OF assms(1,3,4) p] obtain m where "holds chain m s" "r = Ok () \<longrightarrow> Suc k \<le> m" by blast
  with p show ?thesis
    by (cases r) (auto simp: received_def delivers_held_def intro!: exI [of _ m],
        auto simp: failed_def exitStart_def split: if_splits)
qed

lemma sync_step_holds:
  assumes "sync_step process height chain w w'" and "holds chain n (store w)" and "delivers_held n w"
  shows "\<exists>m. holds chain m (store w') \<and> delivers_held m w'"
  using assms(1)
proof (cases rule: sync_step.cases)
  case read
  show ?thesis
  proof (cases "height (store w)")
    case (Inr l)
    with read assms(2) start_within [OF assms(2) Inr] show ?thesis
      by (intro exI [of _ n]) (simp add: readHeight_def delivers_held_def)
  qed (use read assms in \<open>auto simp: readHeight_def\<close>)
next
  case (block k now)
  with received_block_holds [OF assms(2)] assms(3) show ?thesis by (auto simp: delivers_held_def)
qed (use assms(2,3) in \<open>auto simp: received_def StartCall_def split: if_splits intro!: exI [of _ n]\<close>,
    auto simp: delivers_held_def)

lemma sync_holds:
  assumes "sync_steps process height chain (NewSynchronizer s) w" and "holds chain n s"
  shows "\<exists>m. holds chain m (store w) \<and> delivers_held m w"
  using assms(1)
proof (induction rule: rtranclp_induct)
  case base
  with assms(2) show ?case by (intro exI [of _ n]) (simp add: NewSynchronizer_def delivers_held_def)
next
  case (step y z)
  with sync_step_holds show ?case by blast
qed

end

text \<open>
  C5: A synchronizer never loses, reorders or duplicates a block. In every state the interleaving of its
  goroutines, stream failures, restarts and failing handlers can reach, the database is the one that
  results from handling the first blocks of the chain once each and in order.
\<close>

theorem sync_replicates:
  assumes "chain_ok chain"
    and "sync_steps (\<lambda>now. ProcessBlock (store_processor (fabricx_Parse pb cc now) before after))
           (\<lambda>s. BlockNumber (fst s)) chain (NewSynchronizer (NewWriteDB ch, x)) w"
  shows "\<exists>n \<le> length chain. replayed (fabricx_Parse pb cc 0) (NewWriteDB ch) (take n chain) = Some (fst (store w))
    \<and> BlockNumber (fst (store w)) = Inr (of_nat (n - 1))"
proof -
  have "store_holds (fabricx_Parse pb cc 0) ch chain 0 (NewWriteDB ch, x)"
    using assms(1) by (simp add: store_holds_def)
  from fabricx_replica.sync_holds [OF assms(2) this] fabricx_replica.holds_height
  show ?thesis unfolding store_holds_def by blast
qed

subsection \<open>It can always catch up\<close>

context live_replica
begin

lemma received_ok:
  assumes "processable chain" and "holds chain n (store w)" and "pc w = Delivering k" and "k \<le> n" and "k < length chain"
  shows "\<exists>s m. received (process now) (RecvBlock (chain ! k)) k w = w\<lparr>store := s, pc := Delivering (Suc k)\<rparr>
    \<and> holds chain m s \<and> Suc k \<le> m"
proof -
  obtain s where p: "process now (store w) (chain ! k) = (s, Ok ())"
    using process_ok [OF assms(1,2,4,5), of now] by (metis prod.collapse)
  from process_any [OF assms(2,4,5) p] p show ?thesis by (auto simp: received_def)
qed

lemma sync_not_crashed:
  assumes "sync_steps process height chain (NewSynchronizer s) w" and "holds chain n s" and "processable chain"
  shows "pc w \<noteq> Crashed"
  using assms(1)
proof (induction rule: rtranclp_induct)
  case (step y z)
  from sync_holds [OF step(1) assms(2)] obtain m where m: "holds chain m (store y)" "delivers_held m y" by blast
  from step(2) step.IH show ?case
  proof (cases rule: sync_step.cases)
    case (block k now)
    then have "k \<le> m" using m(2) by (simp add: delivers_held_def)
    from received_ok [OF assms(3) m(1) block(2) this block(3), of now] block(1) show ?thesis by auto
  qed (auto simp: sync_defs split: if_splits sum.splits)
qed (simp add: NewSynchronizer_def)

lemma deliver_all:
  assumes "processable chain" and "holds chain n (store w)" and "pc w = Delivering k" and "k \<le> n"
  shows "\<exists>w'. sync_steps process height chain w w' \<and> holds chain (length chain) (store w')"
  using assms
proof (induction "length chain - k" arbitrary: n k w)
  case 0
  with holds_bound [OF 0(3)] have "n = length chain" by simp
  with 0 show ?case by blast
next
  case (Suc d)
  then have k: "k < length chain" by simp
  obtain s m where r: "received (process 0) (RecvBlock (chain ! k)) k w = w\<lparr>store := s, pc := Delivering (Suc k)\<rparr>"
    and m: "holds chain m s" "Suc k \<le> m"
    using received_ok [OF Suc.prems k] by blast
  have "sync_step process height chain w (w\<lparr>store := s, pc := Delivering (Suc k)\<rparr>)"
    using sync_step.block [OF Suc.prems(3) k, of process height 0] by (simp add: r)
  moreover have "d = length chain - Suc k" using Suc(2) by simp
  from Suc(1) [OF this, of m "w\<lparr>store := s, pc := Delivering (Suc k)\<rparr>"] m Suc.prems(1)
  obtain w' where "sync_steps process height chain (w\<lparr>store := s, pc := Delivering (Suc k)\<rparr>) w'"
    "holds chain (length chain) (store w')" by auto
  ultimately show ?case by (meson converse_rtranclp_into_rtranclp)
qed

lemma catch_up_read:
  assumes "processable chain" and "holds chain n (store w)" and "pc w = ReadHeight"
  shows "\<exists>w'. sync_steps process height chain w w' \<and> holds chain (length chain) (store w')"
proof -
  obtain l where l: "height (store w) = Inr l" using holds_height [OF assms(2)] by blast
  let ?w = "readHeight height w"
  have "pc ?w = Delivering (unat (startBlock l))" "store ?w = store w" using l by (simp_all add: readHeight_def)
  with deliver_all [OF assms(1), of n ?w] start_within [OF assms(2) l] assms(2)
  obtain w' where "sync_steps process height chain ?w w'" "holds chain (length chain) (store w')" by auto
  with sync_step.read [OF assms(3), of process height chain] show ?thesis by (meson converse_rtranclp_into_rtranclp)
qed

lemma catch_up_head:
  assumes "processable chain" and "holds chain n (store w)" and "pc w = LoopHead" and "\<not> ctxDone w"
  shows "\<exists>w'. sync_steps process height chain w w' \<and> holds chain (length chain) (store w')"
  using catch_up_read [OF assms(1), of n "w\<lparr>pc := ReadHeight\<rparr>"] assms(2) sync_step.check [OF assms(3,4), of process height chain]
  by (auto intro: converse_rtranclp_into_rtranclp)

lemma catch_up:
  assumes "sync_steps process height chain (NewSynchronizer s) w" and "holds chain n s" and "processable chain"
    and "\<not> ctxDone w"
  shows "\<exists>w'. sync_steps process height chain w w' \<and> holds chain (length chain) (store w')"
proof -
  from sync_holds [OF assms(1,2)] obtain m where m: "holds chain m (store w)" "delivers_held m w" by blast
  have inv: "start_inv w" using sync_steps_inv [OF assms(1)] by simp
  show ?thesis
  proof (cases "pc w")
    case NotRunning
    let ?w = "fst (StartCall w)"
    have c: "StartCall w = (?w, None)" "pc ?w = LoopHead" "store ?w = store w" "ctxDone ?w = ctxDone w"
      using NotRunning inv by (auto simp: StartCall_def start_inv_def)
    with catch_up_head [OF assms(3), of m ?w] m(1) assms(4) sync_step.start [OF NotRunning c(1), of process height chain]
    show ?thesis by (auto intro: converse_rtranclp_into_rtranclp)
  next
    case Sleeping
    with catch_up_head [OF assms(3), of m "wakeUp w"] m(1) assms(4) sync_step.wake [OF Sleeping, of process height chain]
    show ?thesis by (auto simp: wakeUp_def intro: converse_rtranclp_into_rtranclp)
  next
    case (Delivering k)
    with deliver_all [OF assms(3) m(1)] m(2) show ?thesis by (auto simp: delivers_held_def)
  next
    case LoopHead
    with catch_up_head [OF assms(3) m(1)] assms(4) show ?thesis by blast
  next
    case ReadHeight
    with catch_up_read [OF assms(3) m(1)] show ?thesis by blast
  next
    case Crashed
    with sync_not_crashed [OF assms(1-3)] show ?thesis by simp
  qed (use inv assms(4) in \<open>auto simp: start_inv_def\<close>)
qed

end

text \<open>
  C6: A synchronizer never gets stuck. From every state it can reach before its context is cancelled,
  whatever failed before, it can go on to hold the whole chain, if every block of the chain can be handled.
\<close>

theorem sync_catches_up:
  assumes "chain_ok chain" and "replayed (fabricx_Parse pb cc 0) (NewWriteDB ch) chain = Some db"
    and "sync_steps (\<lambda>now. ProcessBlock (store_processor (fabricx_Parse pb cc now) [] []))
           (\<lambda>s. BlockNumber (fst s)) chain (NewSynchronizer (NewWriteDB ch, x)) w"
    and "\<not> ctxDone w"
  shows "\<exists>w'. sync_steps (\<lambda>now. ProcessBlock (store_processor (fabricx_Parse pb cc now) [] []))
           (\<lambda>s. BlockNumber (fst s)) chain w w' \<and> fst (store w') = db"
proof -
  have "store_holds (fabricx_Parse pb cc 0) ch chain 0 (NewWriteDB ch, x)"
    using assms(1) by (simp add: store_holds_def)
  from fabricx_live.catch_up [OF assms(3) this _ assms(4)] assms(2)
  show ?thesis unfolding store_holds_def by (auto simp: replayable_def)
qed

subsection \<open>Shutdown\<close>

text \<open>
  Once \<open>Start\<close> has returned, the synchronizer is stopped, no monitor goroutine runs, the peer is closed,
  and nothing changes any more; the peer is never closed before that, so no monitor uses a closed peer.
\<close>

theorem sync_shutdown:
  assumes "sync_steps process height chain (NewSynchronizer s) w" and "peerClosed w \<or> pc w = Returned"
  shows "pc w = Returned \<and> sy_state (syn w) = stateStopped \<and> monitors w = Map.empty \<and> peerClosed w
    \<and> (\<forall>w'. sync_step process height chain w w' \<longrightarrow> w' = w)"
proof -
  have inv: "start_inv w" using sync_steps_inv [OF assms(1)] by simp
  with assms(2) have r: "pc w = Returned" "ctxDone w" "monitors w = Map.empty" by (auto simp: start_inv_def)
  have "w' = w" if st: "sync_step process height chain w w'" for w'
    using st by (cases rule: sync_step.cases) (use r in auto)
  with inv r show ?thesis by (auto simp: start_inv_def)
qed

lemma kill_monitor:
  assumes "monitors w i = Some m" and "ctxDone w" and "sy_state (syn w) = stateStopped" and "pc w = Joining"
  shows "\<exists>w'. sync_steps process height chain w w' \<and> w' = w\<lparr>monitors := (monitors w)(i := None)\<rparr>"
proof -
  let ?step = "sync_step process height chain"
  have sel: "?step\<^sup>*\<^sup>* v (v\<lparr>monitors := (monitors v)(i := None)\<rparr>)"
    if "monitors v i = Some MonSelect \<or> monitors v i = Some MonCaughtUp" "ctxDone v" "sy_state (syn v) = stateStopped"
      "pc v = Joining" for v
    using that sync_step.mon_done [of v i process height chain] sync_step.mon_ready [of v i process height chain]
    by (auto simp: monitorExit_def transition_def Let_def)
  show ?thesis
  proof (cases m)
    case (MonPeerHeight h)
    let ?v = "monitorCompare height i h w"
    have "?step w ?v" using sync_step.mon_compare [of w i h process height chain] assms MonPeerHeight by simp
    moreover have "?step\<^sup>*\<^sup>* ?v (?v\<lparr>monitors := (monitors ?v)(i := None)\<rparr>)"
      using assms by (intro sel) (auto simp: monitorCompare_def split: sum.splits)
    moreover have "?v\<lparr>monitors := (monitors ?v)(i := None)\<rparr> = w\<lparr>monitors := (monitors w)(i := None)\<rparr>"
      by (auto simp: monitorCompare_def split: sum.splits)
    ultimately show ?thesis by (metis converse_rtranclp_into_rtranclp)
  qed (use sel [of w] assms in auto)
qed

lemma drain_monitors:
  assumes "finite (dom (monitors w))" and "ctxDone w" and "sy_state (syn w) = stateStopped" and "pc w = Joining"
  shows "\<exists>w'. sync_steps process height chain w w' \<and> pc w' = Joining \<and> monitors w' = Map.empty"
  using assms
proof (induction "card (dom (monitors w))" arbitrary: w)
  case 0
  then show ?case by (intro exI [of _ w]) auto
next
  case (Suc d)
  then obtain i m where i: "monitors w i = Some m" by (metis card.empty dom_eq_empty_conv nat.distinct(1) not_None_eq)
  let ?w = "w\<lparr>monitors := (monitors w)(i := None)\<rparr>"
  have "d = card (dom (monitors ?w))" using Suc(2,3) i by (auto simp: card_Diff_singleton_if domI)
  from Suc(1) [OF this] Suc.prems obtain w' where
    "sync_steps process height chain ?w w'" "pc w' = Joining" "monitors w' = Map.empty" by auto
  with kill_monitor [OF i Suc.prems(2-4), of process height chain] show ?case by (metis rtranclp_trans)
qed

lemma reach_joining:
  assumes "pc w \<in> {LoopHead, ReadHeight, Sleeping} \<union> range Delivering" and "ctxDone w"
  shows "\<exists>w'. sync_steps process height chain w w' \<and> pc w' = Joining"
proof -
  let ?steps = "sync_steps process height chain"
  have head: "\<exists>w'. ?steps v w' \<and> pc w' = Joining" if "pc v = LoopHead" "ctxDone v" for v
    using sync_step.stop [OF that, of process height chain] by (intro exI [of _ "exitStart v"]) (auto simp: exitStart_def)
  have del: "\<exists>w'. ?steps v w' \<and> pc w' = Joining" if "pc v = Delivering k" "ctxDone v" for v k
  proof -
    let ?v = "received (process 0) (RecvErr (ctxDone v) emptyMsg) k v"
    have "pc ?v = LoopHead" "ctxDone ?v" using that by (simp_all add: received_def)
    from head [OF this] sync_step.recv_fails [OF that(1), of process height chain 0 emptyMsg] show ?thesis
      by (meson converse_rtranclp_into_rtranclp)
  qed
  have "\<exists>w'. ?steps w w' \<and> pc w' = Joining" if r: "pc w = ReadHeight"
  proof (cases "height (store w)")
    case (Inr l)
    with del [of "readHeight height w"] assms(2) sync_step.read [OF r, of process height chain] show ?thesis
      by (auto simp: readHeight_def intro: converse_rtranclp_into_rtranclp)
  next
    case (Inl e)
    with assms(2) sync_step.read [OF r, of process height chain] show ?thesis
      by (auto simp: readHeight_def failed_def exitStart_def)
  qed
  moreover have "\<exists>w'. ?steps w w' \<and> pc w' = Joining" if "pc w = Sleeping"
    using sync_step.sleep_cancelled [OF that assms(2), of process height chain]
    by (intro exI [of _ "exitStart w"]) (auto simp: exitStart_def)
  ultimately show ?thesis using head [of w] del [of w] assms by auto
qed

text \<open>
  C31: Cancelling the context can always bring \<open>Start\<close> to its end: from every state in which it runs, the
  goroutines can go on so that it returns, whatever the peer and the store answer. No lock or join can
  block it forever.
\<close>

theorem sync_can_stop:
  assumes "sync_steps process height chain (NewSynchronizer s) w" and "pc w \<noteq> NotRunning" and "pc w \<noteq> Crashed"
  shows "\<exists>w'. sync_steps process height chain w w' \<and> pc w' = Returned"
proof -
  let ?step = "sync_step process height chain"
  have reach: "?step\<^sup>*\<^sup>* (NewSynchronizer s) v" if "?step\<^sup>*\<^sup>* w v" for v using assms(1) that by (rule rtranclp_trans)
  have c: "?step\<^sup>*\<^sup>* w (w\<lparr>ctxDone := True\<rparr>)" using sync_step.cancel [OF assms(3), of process height chain] by blast
  have "\<exists>v. ?step\<^sup>*\<^sup>* w v \<and> (pc v = Joining \<or> pc v = Returned)"
  proof (cases "pc w = Joining \<or> pc w = Returned")
    case False
    with assms(2,3) have "pc (w\<lparr>ctxDone := True\<rparr>) \<in> {LoopHead, ReadHeight, Sleeping} \<union> range Delivering"
      by (cases "pc w") auto
    from reach_joining [OF this, of process height chain] c show ?thesis by (auto intro: rtranclp_trans)
  qed auto
  then obtain v where v: "?step\<^sup>*\<^sup>* w v" "pc v = Joining \<or> pc v = Returned" by blast
  show ?thesis
  proof (cases "pc v = Returned")
    case False
    with v have j: "pc v = Joining" by simp
    note inv = sync_steps_inv [OF reach [OF v(1)]]
    then have "dom (monitors v) \<subseteq> {..<nextMon v}" by (auto simp: monitors_inv_def)
    then have "finite (dom (monitors v))" by (rule finite_subset) simp
    with inv j drain_monitors [of v process height chain] obtain u where
      "?step\<^sup>*\<^sup>* v u" "pc u = Joining" "monitors u = Map.empty" by (auto simp: start_inv_def)
    moreover from this have "?step u (closePeer u)" by (intro sync_step.join)
    moreover have "pc (closePeer u) = Returned" by (simp add: closePeer_def)
    ultimately show ?thesis using v(1) by (meson rtranclp.rtrancl_into_rtrancl rtranclp_trans)
  qed (use v in blast)
qed

text \<open>
  The delay before a retry is at least a second and never more than thirty, whatever the sequence of
  failures, and it is back to a second after a subscription that ended without an error.
\<close>

theorem sync_backoff_bounds:
  assumes "sync_steps process height chain (NewSynchronizer s) w" and "pc w \<noteq> NotRunning"
  shows "1 \<le> currentBackoff w \<and> currentBackoff w \<le> 30
    \<and> currentBackoff (received p (RecvStatus True name) k w) = 1"
  using sync_steps_inv [OF assms(1)] assms(2) by (auto simp: start_inv_def maxBackoff_def received_def)

subsection \<open>Readiness\<close>

text \<open>A chain of empty blocks, and a processor of the database alone that reads it.\<close>

definition sample_empty :: "u64 \<Rightarrow> pb_Block" where
  "sample_empty n = \<lparr>blk_Header = Some \<lparr>bh_Number = n, bh_PreviousHash = '''', bh_DataHash = ''''\<rparr>,
     blk_Data = Some [], blk_Metadata = Some ['''', '''', '''']\<rparr>"

definition sample_process :: "int64 \<Rightarrow> VersionedDB \<times> unit \<Rightarrow> pb_Block \<Rightarrow> (VersionedDB \<times> unit) \<times> unit result" where
  "sample_process now = ProcessBlock (store_processor (fabricx_Parse sample_pb sample_committer_codes now) [] [])"

abbreviation sample_sync :: "(VersionedDB \<times> unit) sync_world \<Rightarrow> (VersionedDB \<times> unit) sync_world \<Rightarrow> bool" where
  "sample_sync \<equiv> sync_step sample_process (\<lambda>s. BlockNumber (fst s)) [sample_empty 0]"

lemma sample_chain_ok: "chain_ok [sample_empty 0]"
  by (simp add: chain_ok_def raw_number_def raw_data_def sample_empty_def)

lemma sample_parse_empty:
  "fabricx_Parse sample_pb cc now (sample_empty n) = Ok (zero_Block\<lparr>b_Number := n, b_Hash := ''hash'', b_Timestamp := now\<rparr>)"
  by (simp add: fabricx_Parse_def parseBlock_def sample_empty_def) (simp add: sample_pb_defs zero_Block_def)

text \<open>The state after \<open>Start\<close> has opened a subscription on an empty store: a monitor runs.\<close>

definition sample_syncing :: "(VersionedDB \<times> unit) sync_world" where
  "sample_syncing = readHeight (\<lambda>s. BlockNumber (fst s)) ((fst (StartCall (NewSynchronizer (NewWriteDB ''ch'', ()))))\<lparr>pc := ReadHeight\<rparr>)"

lemma sample_syncing_eq:
  "sample_syncing = \<lparr>syn = \<lparr>sy_state = stateSyncing, sy_lastSyncErr = None, sy_monitorCancel = Some 0\<rparr>, ctxDone = False,
     cancelled = {}, monitors = [0 \<mapsto> MonSelect], nextMon = 1, pc = Delivering 0, currentBackoff = 1,
     store = (NewWriteDB ''ch'', ()), peerClosed = False\<rparr>"
proof -
  have "BlockNumber (NewWriteDB ''ch'') = Inr 0" by (simp add: BlockNumber_def NewWriteDB_def)
  then show ?thesis
    by (simp add: sample_syncing_def readHeight_def StartCall_def NewSynchronizer_def transition_def startMonitor_def
        startBlock_def)
qed

lemma sample_reaches_syncing: "sample_sync\<^sup>*\<^sup>* (NewSynchronizer (NewWriteDB ''ch'', ())) sample_syncing"
proof -
  let ?w0 = "NewSynchronizer (NewWriteDB ''ch'', ())" and ?w1 = "fst (StartCall (NewSynchronizer (NewWriteDB ''ch'', ())))"
  have "sample_sync ?w0 ?w1" by (rule sync_step.start) (simp_all add: NewSynchronizer_def StartCall_def)
  moreover have "sample_sync ?w1 (?w1\<lparr>pc := ReadHeight\<rparr>)"
    by (rule sync_step.check) (simp_all add: NewSynchronizer_def StartCall_def)
  moreover have "sample_sync (?w1\<lparr>pc := ReadHeight\<rparr>) sample_syncing"
    unfolding sample_syncing_def by (rule sync_step.read) simp
  ultimately show ?thesis by (simp add: converse_rtranclp_into_rtranclp)
qed

text \<open>
  A monitor that is past its checks when its subscription fails reports readiness during the backoff:
  a state can be reached in which \<open>Start\<close> is sleeping after an error, the error is recorded and the monitor's
  context has been cancelled, yet \<open>Ready\<close> and \<open>Live\<close> return nil. In it the store is empty although the chain
  has a block, because \<open>BlockHeight\<close> of an empty store is one.
\<close>

theorem sync_stale_ready:
  "\<exists>w err. sample_sync\<^sup>*\<^sup>* (NewSynchronizer (NewWriteDB ''ch'', ())) w \<and> pc w = Sleeping
     \<and> sy_lastSyncErr (syn w) = Some err \<and> Ready (syn w) = None \<and> Live (syn w) = None
     \<and> fst (store w) = NewWriteDB ''ch''"
proof -
  define w1 where "w1 = sample_syncing\<lparr>monitors := (monitors sample_syncing)(0 \<mapsto> MonPeerHeight 1)\<rparr>"
  define w2 where "w2 = monitorCompare (\<lambda>s. BlockNumber (fst s)) 0 1 w1"
  define w3 where "w3 = failed emptyMsg w2"
  define w4 where "w4 = monitorExit 0 (transition stateReady None w3)"
  have n: "BlockNumber (NewWriteDB ''ch'') = Inr 0" by (simp add: BlockNumber_def NewWriteDB_def)
  have e1: "w1 = sample_syncing\<lparr>monitors := [0 \<mapsto> MonPeerHeight 1]\<rparr>" by (simp add: w1_def sample_syncing_eq)
  have e2: "w2 = sample_syncing\<lparr>monitors := [0 \<mapsto> MonCaughtUp]\<rparr>"
    by (simp add: w2_def e1 monitorCompare_def syncBlockHeight_def sample_syncing_eq n)
  have e3: "w3 = sample_syncing\<lparr>monitors := [0 \<mapsto> MonCaughtUp], cancelled := {0}, pc := Sleeping,
      syn := \<lparr>sy_state = stateRetrying, sy_lastSyncErr = Some emptyMsg, sy_monitorCancel = None\<rparr>\<rparr>"
    by (simp add: w3_def e2 failed_def transition_def cancelMonitor_def sample_syncing_eq)
  have "sample_sync sample_syncing w1" unfolding w1_def by (rule sync_step.mon_tick) (simp_all add: sample_syncing_eq)
  moreover have "sample_sync w1 w2" unfolding w2_def by (rule sync_step.mon_compare) (simp_all add: e1 sample_syncing_eq)
  moreover have "sample_sync w2 w3" unfolding w3_def by (rule sync_step.subscribe_fails [of _ 0]) (simp add: e2 sample_syncing_eq)
  moreover have "sample_sync w3 w4" unfolding w4_def by (rule sync_step.mon_ready) (simp_all add: e3 sample_syncing_eq)
  ultimately have "sample_sync\<^sup>*\<^sup>* sample_syncing w4" by (simp add: converse_rtranclp_into_rtranclp)
  with sample_reaches_syncing have "sample_sync\<^sup>*\<^sup>* (NewSynchronizer (NewWriteDB ''ch'', ())) w4" by (rule rtranclp_trans)
  moreover have "pc w4 = Sleeping" "sy_lastSyncErr (syn w4) = Some emptyMsg" "sy_state (syn w4) = stateReady"
    "fst (store w4) = NewWriteDB ''ch''"
    by (simp_all add: w4_def e3 monitorExit_def transition_def sample_syncing_eq)
  ultimately show ?thesis by (auto simp: Ready_def Live_def)
qed

subsection \<open>Witnesses\<close>

lemma sample_process_empty:
  "sample_process now (NewWriteDB ''ch'', ()) (sample_empty 0) = (((NewWriteDB ''ch'')\<lparr>channel_progress := [''ch'' \<mapsto> 0]\<rparr>, ()), Ok ())"
  by (simp add: sample_process_def ProcessBlock_def store_processor_def NewProcessor_def sample_parse_empty store_handler_def
      db_Handle_def UpdateWorldState_def insertBlock_def zero_Block_def bind_u64_def upsertProgress_def)
    (simp add: NewWriteDB_def)

lemma sample_replayed:
  "replayed (fabricx_Parse sample_pb sample_committer_codes 0) (NewWriteDB ''ch'') [sample_empty 0]
     = Some ((NewWriteDB ''ch'')\<lparr>channel_progress := [''ch'' \<mapsto> 0]\<rparr>)"
  by (simp add: sample_parse_empty db_Handle_def UpdateWorldState_def insertBlock_def zero_Block_def bind_u64_def
      upsertProgress_def) (simp add: NewWriteDB_def)

theorem sync_replicates_witness:
  "\<exists>w n. sample_sync\<^sup>*\<^sup>* (NewSynchronizer (NewWriteDB ''ch'', ())) w \<and> channel_progress (fst (store w)) ''ch'' = Some 0
     \<and> replayed (fabricx_Parse sample_pb sample_committer_codes 0) (NewWriteDB ''ch'') (take n [sample_empty 0]) = Some (fst (store w))"
proof -
  let ?w = "received (sample_process 0) (RecvBlock ([sample_empty 0] ! 0)) 0 sample_syncing"
  have "sample_sync sample_syncing ?w" by (rule sync_step.block) (simp_all add: sample_syncing_eq)
  with sample_reaches_syncing have s: "sample_sync\<^sup>*\<^sup>* (NewSynchronizer (NewWriteDB ''ch'', ())) ?w"
    by (rule rtranclp.rtrancl_into_rtrancl)
  moreover have "channel_progress (fst (store ?w)) ''ch'' = Some 0"
    by (simp add: received_def sample_process_empty sample_syncing_eq)
  ultimately obtain w where w: "sample_sync\<^sup>*\<^sup>* (NewSynchronizer (NewWriteDB ''ch'', ())) w"
    "channel_progress (fst (store w)) ''ch'' = Some 0" by blast
  from sync_replicates [OF sample_chain_ok w(1) [unfolded sample_process_def [abs_def]]] w show ?thesis by blast
qed

theorem sync_catches_up_witness:
  "\<exists>w. sample_sync\<^sup>*\<^sup>* sample_syncing w \<and> channel_progress (fst (store w)) ''ch'' = Some 0"
proof -
  have "\<not> ctxDone sample_syncing" by (simp add: sample_syncing_eq)
  from sync_catches_up [OF sample_chain_ok sample_replayed sample_reaches_syncing [unfolded sample_process_def [abs_def]] this]
  obtain w where "sample_sync\<^sup>*\<^sup>* sample_syncing w" "fst (store w) = (NewWriteDB ''ch'')\<lparr>channel_progress := [''ch'' \<mapsto> 0]\<rparr>"
    unfolding sample_process_def [abs_def] by blast
  then show ?thesis by (intro exI [of _ w]) simp
qed

theorem sync_shutdown_witness:
  "\<exists>w. sample_sync\<^sup>*\<^sup>* (NewSynchronizer (NewWriteDB ''ch'', ())) w \<and> sy_state (syn w) = stateStopped \<and> peerClosed w"
proof -
  let ?w0 = "NewSynchronizer (NewWriteDB ''ch'', ())"
  let ?w1 = "fst (StartCall ?w0)" let ?w2 = "?w1\<lparr>ctxDone := True\<rparr>"
  have "sample_sync ?w0 ?w1" by (rule sync_step.start) (simp_all add: NewSynchronizer_def StartCall_def)
  moreover have "sample_sync ?w1 ?w2" by (rule sync_step.cancel) (simp add: NewSynchronizer_def StartCall_def)
  moreover have "sample_sync ?w2 (exitStart ?w2)" by (rule sync_step.stop) (simp_all add: NewSynchronizer_def StartCall_def)
  moreover have "sample_sync (exitStart ?w2) (closePeer (exitStart ?w2))"
    by (rule sync_step.join) (simp_all add: NewSynchronizer_def StartCall_def exitStart_def transition_monitors)
  ultimately have s: "sample_sync\<^sup>*\<^sup>* ?w0 (closePeer (exitStart ?w2))" by (simp add: converse_rtranclp_into_rtranclp)
  from sync_shutdown [OF s] s show ?thesis by (auto simp: closePeer_def)
qed

theorem sync_can_stop_witness:
  "\<exists>w. sample_sync\<^sup>*\<^sup>* sample_syncing w \<and> pc w = Returned"
  using sync_can_stop [OF sample_reaches_syncing] by (simp add: sample_syncing_eq)

theorem sync_backoff_bounds_witness:
  "1 \<le> currentBackoff sample_syncing \<and> currentBackoff sample_syncing \<le> 30"
  using sync_backoff_bounds [OF sample_reaches_syncing] by (simp add: sample_syncing_eq)

end
