(* ===== verification/Test_Network.thy ===== *)
theory Test_Network
  imports Fabricx_Peer Synchronizer
begin

section \<open>The test network (fabrictest/)\<close>

text \<open>
  \<open>fabrictest\<close> is an orderer and a peer on one in-memory ledger: the orderer cuts batches of envelopes into
  blocks, the ledger validates and stores them, the peer serves them. This theory holds the two streams of the
  peer, \<open>Deliver\<close> and \<open>StreamBlocks\<close>, against the clients that read them; Test\_Ledger holds the ledger and the
  orderer. Marshalling is a parameter, the clock of the parser an argument. The blocks that come through a
  subscription are an argument of the streams: the list of what the channel yields until it is closed.
\<close>

subsection \<open>The peer: seek requests (fabrictest/peer.go)\<close>

definition parseStartBlock :: "protos \<Rightarrow> seek_protos \<Rightarrow> pb_Envelope \<Rightarrow> u64 \<times> bool" where
  "parseStartBlock pb sk env =
     (case um_Payload pb (env_Payload env) of Inl _ \<Rightarrow> (0, False) | Inr pl \<Rightarrow>
     (case um_SeekInfo sk (pl_Data pl) of Inl _ \<Rightarrow> (0, False) | Inr si \<Rightarrow>
     (case seek_Start si of
        None \<Rightarrow> (0, False)
      | Some SeekOldest \<Rightarrow> (0, False)
      | Some (SeekSpecified n) \<Rightarrow> (n, False)
      | Some SeekNewest \<Rightarrow> (0, True)
      | Some SeekUnset \<Rightarrow> (0, False))))"

text \<open>
  \<open>Deliver\<close>: the blocks of the snapshot, then those of the subscription, from the start block on, until a send
  fails. The result is what was sent and how the call ended. It panics on a block without a header, and on a
  request for the newest block of an empty snapshot.
\<close>

fun sendBlocks :: "(pb_Block \<Rightarrow> goerror option) \<Rightarrow> u64 \<Rightarrow> pb_Block list \<Rightarrow> pb_Block list \<times> unit result" where
  "sendBlocks send startNum [] = ([], Ok ())"
| "sendBlocks send startNum (b # bs) =
     (case blk_Header b of
        None \<Rightarrow> ([], Panic)
      | Some hdr \<Rightarrow>
          if bh_Number hdr < startNum then sendBlocks send startNum bs
          else case send b of
            Some err \<Rightarrow> ([], Err err)
          | None \<Rightarrow> (case sendBlocks send startNum bs of (sent, r) \<Rightarrow> (b # sent, r)))"

definition newestStart :: "pb_Block list \<Rightarrow> u64 option" where
  "newestStart existing =
     (if existing = [] then None else map_option bh_Number (blk_Header (last existing)))"

definition Deliver :: "protos \<Rightarrow> seek_protos \<Rightarrow> (pb_Block \<Rightarrow> goerror option) \<Rightarrow> pb_Envelope res \<Rightarrow> pb_Block list \<Rightarrow> pb_Block list
    \<Rightarrow> pb_Block list \<times> unit result" where
  "Deliver pb sk send recv existing sub =
     (case recv of Inl err \<Rightarrow> ([], Err err) | Inr env \<Rightarrow>
     (case parseStartBlock pb sk env of (specified, newest) \<Rightarrow>
     (case (if newest then newestStart existing else Some specified) of None \<Rightarrow> ([], Panic) | Some startNum \<Rightarrow>
     (case sendBlocks send startNum existing of
        (sent, Ok _) \<Rightarrow> (case sendBlocks send startNum sub of (sent', r) \<Rightarrow> (sent @ sent', r))
      | (sent, r) \<Rightarrow> (sent, r)))))"

lemma sendBlocks_append:
  "sendBlocks send n (bs @ cs) =
     (case sendBlocks send n bs of (sent, Ok _) \<Rightarrow> (case sendBlocks send n cs of (sent', r) \<Rightarrow> (sent @ sent', r))
      | (sent, r) \<Rightarrow> (sent, r))"
  by (induction bs) (auto split: prod.splits option.splits result.splits)

definition headed :: "pb_Block list \<Rightarrow> bool" where
  "headed bs \<longleftrightarrow> (\<forall>b \<in> set bs. blk_Header b \<noteq> None)"

lemma headed_append [simp]: "headed (xs @ ys) \<longleftrightarrow> headed xs \<and> headed ys"
  by (auto simp: headed_def)

lemma sendBlocks_skip:
  "headed bs \<Longrightarrow> \<forall>b \<in> set bs. raw_number b < n \<Longrightarrow> sendBlocks send n bs = ([], Ok ())"
  by (induction bs) (auto simp: headed_def raw_number_def)

lemma sendBlocks_prefix:
  assumes "headed bs" and "\<forall>b \<in> set bs. \<not> raw_number b < n" and "sendBlocks send n bs = (sent, r)"
  shows "\<exists>rest. bs = sent @ rest \<and> (case r of Ok _ \<Rightarrow> rest = [] | Err err \<Rightarrow> rest \<noteq> [] \<and> send (hd rest) = Some err | Panic \<Rightarrow> False)"
  using assms
proof (induction bs arbitrary: sent)
  case (Cons b bs)
  from Cons.prems(1,2) obtain h where h: "blk_Header b = Some h" "\<not> bh_Number h < n" by (auto simp: headed_def raw_number_def)
  show ?case
  proof (cases "send b")
    case None
    with Cons.prems h obtain sent' where "sendBlocks send n bs = (sent', r)" "sent = b # sent'"
      by (auto split: prod.splits)
    with Cons.IH [of sent'] Cons.prems(1,2) show ?thesis by (auto simp: headed_def)
  next
    case (Some err)
    with Cons.prems h have "sent = []" "r = Err err" by simp_all
    with Some show ?thesis by simp
  qed
qed auto

text \<open>Of a chain, the blocks before a position are those with a smaller number.\<close>

lemma chain_number_less:
  assumes "chain_ok chain" and "i < length chain" and "k \<le> length chain"
  shows "raw_number (chain ! i) < of_nat k \<longleftrightarrow> i < k"
proof -
  have "raw_number (chain ! i) = of_nat i" "i < 2 ^ 63" "k \<le> 2 ^ 63" using assms by (auto simp: chain_ok_def)
  then show ?thesis by (simp add: word_less_nat_alt unsigned_of_nat take_bit_nat_eq_self)
qed

text \<open>
  C27: A peer starts where the client asked and skips nothing. Given the seek request that the client built for a
  start block, signed or not, \<open>Deliver\<close> reads that start block from it and sends the blocks of the chain from
  there on, those it had and those that come through the subscription, once each and in order: all of them,
  or those before the first send that fails, whose error it returns.
\<close>

theorem seek_roundtrip:
  assumes "codec_ok (ma_SeekInfo sk) (um_SeekInfo sk)" and "codec_ok (ma_Payload pb) (um_Payload pb)"
    and "newDeliverSeekInfo pb sk signer nonce seconds channel start = Inr env"
    and "chain_ok (existing @ sub)" and "unat start \<le> length (existing @ sub)" and "headed (existing @ sub)"
    and "Deliver pb sk send (Inr env) existing sub = (sent, r)"
  shows "parseStartBlock pb sk env = (start, False)
    \<and> (\<exists>rest. drop (unat start) (existing @ sub) = sent @ rest
        \<and> (case r of Ok _ \<Rightarrow> rest = [] | Err err \<Rightarrow> rest \<noteq> [] \<and> send (hd rest) = Some err | Panic \<Rightarrow> False))"
proof
  from assms(3) obtain hdr payload where h: "seekPayload pb sk hdr start = Inr payload" "env_Payload env = payload"
    by (auto simp: newDeliverSeekInfo_def split: sum.splits option.splits)
  then obtain b where "ma_SeekInfo sk \<lparr>seek_Start = Some (SeekSpecified start), seek_Stop = Some (SeekSpecified (- 1)),
      seek_Behavior = SeekInfo_BLOCK_UNTIL_READY sk\<rparr> = Inr b" "ma_Payload pb \<lparr>pl_Header = Some hdr, pl_Data = b\<rparr> = Inr payload"
    by (auto simp: seekPayload_def split: sum.splits)
  with assms(1,2) h(2) show start: "parseStartBlock pb sk env = (start, False)"
    by (simp add: parseStartBlock_def codec_ok_def)
  define chain where "chain = existing @ sub"
  have le: "unat start \<le> length chain" and ok: "chain_ok chain" and hd: "headed chain" using assms(4-6) by (simp_all add: chain_def)
  note n = chain_number_less [OF ok _ le, simplified]
  have early: "\<forall>b \<in> set (take (unat start) chain). raw_number b < start" and late: "\<forall>b \<in> set (drop (unat start) chain). \<not> raw_number b < start"
    using n le by (auto simp: in_set_conv_nth)
  have hds: "headed (take (unat start) chain)" "headed (drop (unat start) chain)"
    using hd by (auto simp: headed_def dest: in_set_takeD in_set_dropD)
  have "Deliver pb sk send (Inr env) existing sub = sendBlocks send start (take (unat start) chain @ drop (unat start) chain)"
    by (simp add: Deliver_def start sendBlocks_append chain_def del: take_append drop_append)
  also have "\<dots> = sendBlocks send start (drop (unat start) chain)"
    by (simp only: sendBlocks_append sendBlocks_skip [OF hds(1) early]) (simp split: prod.splits)
  finally show "\<exists>rest. drop (unat start) (existing @ sub) = sent @ rest
        \<and> (case r of Ok _ \<Rightarrow> rest = [] | Err err \<Rightarrow> rest \<noteq> [] \<and> send (hd rest) = Some err | Panic \<Rightarrow> False)"
    using sendBlocks_prefix [OF hds(2) late, of send sent r] assms(7) unfolding chain_def by simp
qed

subsection \<open>The peer: the feed of committed transactions (fabrictest/peer.go)\<close>

definition statusMatches :: "int32 \<Rightarrow> int32 list \<Rightarrow> bool" where
  "statusMatches status flt = (if length flt = 0 then True else status \<in> set flt)"

definition filterNamespaces :: "pb_TxNamespace list \<Rightarrow> string list \<Rightarrow> pb_TxNamespace list \<times> bool" where
  "filterNamespaces nss flt =
     (if length flt = 0 then (nss, True)
      else let matching = filter (\<lambda>ns. txn_NsId ns \<in> set flt) nss in (matching, length matching > 0))"

text \<open>One iteration of the loop over the envelopes.\<close>

definition buildTxEvent :: "protos \<Rightarrow> pb_StreamBlocksRequest \<Rightarrow> pb_BlockHeader option \<Rightarrow> bytes \<Rightarrow> nat \<Rightarrow> bytes \<Rightarrow> pb_TxEvent option result" where
  "buildTxEvent pb req hdr txFilter txNum envBytes =
     (case um_Envelope pb envBytes of Inl _ \<Rightarrow> Ok None | Inr env \<Rightarrow>
     (case um_Payload pb (env_Payload env) of Inl _ \<Rightarrow> Ok None | Inr pl \<Rightarrow>
     (case pl_Header pl of None \<Rightarrow> Ok None | Some plh \<Rightarrow>
     (case um_ChannelHeader pb (hdr_ChannelHeader plh) of Inl _ \<Rightarrow> Ok None | Inr chdr \<Rightarrow>
      if ch_Type chdr \<noteq> HeaderType_MESSAGE pb then Ok None
      else
     (case um_Tx pb (pl_Data pl) of Inl _ \<Rightarrow> Ok None | Inr ptx \<Rightarrow>
      if txNum \<ge> length txFilter then Panic
      else
        let status = of_char (txFilter ! txNum) in
        if \<not> statusMatches status (sb_FilterStatus req) then Ok None
        else
          case filterNamespaces (xtx_Namespaces ptx) (sb_FilterNamespaces req) of (namespaces, touched) \<Rightarrow>
          if \<not> touched then Ok None
          else
            case hdr of None \<Rightarrow> Panic
            | Some h \<Rightarrow> Ok (Some \<lparr>txe_Ref = Some \<lparr>ref_BlockNum = bh_Number h, ref_TxNum = of_nat txNum, ref_TxId = ch_TxId chdr\<rparr>,
                 txe_Status = status,
                 txe_Namespaces = (if sb_IncludeReadWriteSets req then namespaces else []),
                 txe_Endorsements = (if sb_IncludeEndorsements req then xtx_Endorsements ptx else []),
                 txe_Metadata = (if sb_IncludeMetadata req then xtx_Metadata ptx else [])\<rparr>))))))"

fun buildEvents :: "(nat \<Rightarrow> bytes \<Rightarrow> pb_TxEvent option result) \<Rightarrow> nat \<Rightarrow> bytes list \<Rightarrow> pb_TxEvent list result" where
  "buildEvents f txNum [] = Ok []"
| "buildEvents f txNum (envBytes # rest) =
     (case f txNum envBytes of
        Panic \<Rightarrow> Panic | Err e \<Rightarrow> Err e
      | Ok event \<Rightarrow>
          (case buildEvents f (Suc txNum) rest of
             Panic \<Rightarrow> Panic | Err e \<Rightarrow> Err e
           | Ok events \<Rightarrow> Ok ((case event of Some ev \<Rightarrow> [ev] | None \<Rightarrow> []) @ events)))"

definition buildBlockEvent :: "protos \<Rightarrow> pb_Block \<Rightarrow> pb_StreamBlocksRequest \<Rightarrow> pb_BlockEvent option result" where
  "buildBlockEvent pb block req =
     (case blk_Metadata block of None \<Rightarrow> Panic | Some metadata \<Rightarrow>
      if length metadata \<le> TRANSACTIONS_FILTER pb then Panic
      else
     (case blk_Data block of None \<Rightarrow> Panic | Some data \<Rightarrow>
     (case buildEvents (buildTxEvent pb req (blk_Header block) (metadata ! TRANSACTIONS_FILTER pb)) 0 data of
        Panic \<Rightarrow> Panic | Err e \<Rightarrow> Err e
      | Ok events \<Rightarrow>
          Ok (if length events = 0 then None else Some \<lparr>be_Header = blk_Header block, be_Events = events\<rparr>))))"

text \<open>\<open>StreamBlocks\<close>: the events of the blocks that come through the subscription, until a send fails.\<close>

fun StreamBlocks :: "protos \<Rightarrow> (pb_BlockEvent \<Rightarrow> goerror option) \<Rightarrow> pb_StreamBlocksRequest \<Rightarrow> pb_Block list \<Rightarrow> pb_BlockEvent list \<times> unit result" where
  "StreamBlocks pb send req [] = ([], Ok ())"
| "StreamBlocks pb send req (block # sub) =
     (case buildBlockEvent pb block req of
        Panic \<Rightarrow> ([], Panic) | Err e \<Rightarrow> ([], Err e)
      | Ok None \<Rightarrow> StreamBlocks pb send req sub
      | Ok (Some batch) \<Rightarrow>
          (case send batch of
             Some err \<Rightarrow> ([], Err err)
           | None \<Rightarrow> (case StreamBlocks pb send req sub of (sent, r) \<Rightarrow> (batch # sent, r))))"

subsection \<open>What a request asks for\<close>

text \<open>
  The meaning of a request on parsed transactions: which ones it wants, and how much of each it shows. The codes
  have the layout the client's conversion names: the duplicate is 100, the other named ones are below it, and
  what is above is the malformed family.
\<close>

definition feed_wants :: "StreamAllRequest \<Rightarrow> Transaction \<Rightarrow> bool" where
  "feed_wants r t \<longleftrightarrow>
     (sr_FilterStatus r = [] \<or> tx_Status t \<in> set (sr_FilterStatus r)) \<and>
     (sr_FilterNamespaces r = [] \<or> (\<exists>n \<in> set (tx_NsRWS t). ns_Namespace n \<in> set (sr_FilterNamespaces r)))"

definition feed_view :: "StreamAllRequest \<Rightarrow> Transaction \<Rightarrow> Transaction" where
  "feed_view r t =
     (let t' = t\<lparr>tx_NsRWS := if sr_IncludeReadWriteSets r
            then filter (\<lambda>n. sr_FilterNamespaces r = [] \<or> ns_Namespace n \<in> set (sr_FilterNamespaces r)) (tx_NsRWS t)
            else []\<rparr>
      in if sr_IncludeMetadata r then t'
         else t'\<lparr>tx_InputArgs := [], tx_Event := '''', tx_EventName := '''', tx_Payload := ''''\<rparr>)"

definition committer_layout :: "committer_codes \<Rightarrow> int32 list \<Rightarrow> bool" where
  "committer_layout cc names \<longleftrightarrow> committer_codes_ok cc \<and> enumerates names (Status_name cc) \<and> list_ex (\<lambda>c. c \<ge> 101) names
     \<and> REJECTED_DUPLICATE_TX_ID cc = 100 \<and> COMMITTED cc < 100 \<and> STATUS_UNSPECIFIED cc < 100
     \<and> ABORTED_SIGNATURE_INVALID cc < 100 \<and> ABORTED_MVCC_CONFLICT cc < 100"

definition reported :: "Status set" where
  "reported = {StatusCommitted, StatusInvalidSignature, StatusMVCCConflict, StatusDuplicateTxID, StatusMalformed, StatusUnknown}"

lemma protoCodes_exact:
  assumes "committer_layout cc names" and "c \<in> set names" and "s \<in> reported"
  shows "c \<in> set (protoCodes cc names s) \<longleftrightarrow> fst (StatusFromCommitterStatus cc c) = s"
  using assms unfolding committer_layout_def committer_codes_ok_def reported_def
  by (auto simp: protoCodes_def StatusFromCommitterStatus_def)

lemma protoCodes_nonempty:
  "committer_layout cc names \<Longrightarrow> s \<in> reported \<Longrightarrow> protoCodes cc names s \<noteq> []"
  by (auto simp: committer_layout_def reported_def protoCodes_def list_ex_iff filter_empty_conv)

lemma toProtoFilterStatus_exact:
  assumes "committer_layout cc names" and "c \<in> set names" and "set S \<subseteq> reported"
  shows "statusMatches c (toProtoFilterStatus cc names S) \<longleftrightarrow> S = [] \<or> fst (StatusFromCommitterStatus cc c) \<in> set S"
proof (cases S)
  case (Cons s T)
  have "c \<in> set (toProtoFilterStatus cc names S) \<longleftrightarrow> fst (StatusFromCommitterStatus cc c) \<in> set S"
    using assms(3) Cons by (auto simp: toProtoFilterStatus_def protoCodes_exact [OF assms(1,2)] subset_iff)
  moreover have "toProtoFilterStatus cc names S \<noteq> []"
    using Cons assms(3) protoCodes_nonempty [OF assms(1), of s] by (simp add: toProtoFilterStatus_def)
  ultimately show ?thesis using Cons by (simp add: statusMatches_def)
qed (simp add: toProtoFilterStatus_def statusMatches_def)

text \<open>Per envelope: the event is the view of the parsed transaction, when the request wants it.\<close>

definition fx_decode :: "protos \<Rightarrow> bytes \<Rightarrow> (string \<times> pb_Tx) option" where
  "fx_decode pb bs =
     (case um_Envelope pb bs of Inl _ \<Rightarrow> None | Inr env \<Rightarrow>
     (case um_Payload pb (env_Payload env) of Inl _ \<Rightarrow> None | Inr pl \<Rightarrow>
     (case pl_Header pl of None \<Rightarrow> None | Some plh \<Rightarrow>
     (case um_ChannelHeader pb (hdr_ChannelHeader plh) of Inl _ \<Rightarrow> None | Inr chdr \<Rightarrow>
      if ch_Type chdr \<noteq> HeaderType_MESSAGE pb then None
      else (case um_Tx pb (pl_Data pl) of Inl _ \<Rightarrow> None | Inr ptx \<Rightarrow> Some (ch_TxId chdr, ptx))))))"

definition fx_transaction :: "protos \<Rightarrow> committer_codes \<Rightarrow> bytes \<Rightarrow> nat \<Rightarrow> string \<times> pb_Tx \<Rightarrow> Transaction" where
  "fx_transaction pb cc txFilter i = (\<lambda>(txid, ptx).
     let md = DecodeMetadata pb (xtx_Metadata ptx) in
     case fabricx_statusForTx cc txFilter i of (status, code, reason) \<Rightarrow>
     \<lparr>tx_ID = txid, tx_Number = int i, tx_InputArgs = meta_InputArgs md, tx_Status = status, tx_RawCode = code,
      tx_Reason = reason, tx_Event = meta_Event md, tx_EventName = meta_EventName md, tx_Payload = meta_Payload md,
      tx_NsRWS = DecodeNamespaces (xtx_Namespaces ptx)\<rparr>)"

lemma parseEntry_decode:
  assumes "header_types_ok pb"
    and "parseEntry pb (fabricx_ParseTx pb) (fabricx_statusForTx cc txFilter) number i bs = Ok e"
  shows "entry_txs (Ok e) = (case fx_decode pb bs of None \<Rightarrow> [] | Some d \<Rightarrow> [fx_transaction pb cc txFilter i d])"
  using assms unfolding header_types_ok_def
  by (auto simp: parseEntry_def fabricx_ParseTx_def res_bind_def entry_txs_def fx_decode_def fx_transaction_def
      SetStatus_def zero_Transaction_def Let_def split: sum.splits option.splits if_splits prod.splits)

definition fx_event :: "pb_StreamBlocksRequest \<Rightarrow> pb_BlockHeader \<Rightarrow> bytes \<Rightarrow> nat \<Rightarrow> string \<times> pb_Tx \<Rightarrow> pb_TxEvent option" where
  "fx_event req h txFilter i = (\<lambda>(txid, ptx).
     let status = of_char (txFilter ! i); (namespaces, touched) = filterNamespaces (xtx_Namespaces ptx) (sb_FilterNamespaces req) in
     if statusMatches status (sb_FilterStatus req) \<and> touched
     then Some \<lparr>txe_Ref = Some \<lparr>ref_BlockNum = bh_Number h, ref_TxNum = of_nat i, ref_TxId = txid\<rparr>,
                 txe_Status = status,
                 txe_Namespaces = (if sb_IncludeReadWriteSets req then namespaces else []),
                 txe_Endorsements = (if sb_IncludeEndorsements req then xtx_Endorsements ptx else []),
                 txe_Metadata = (if sb_IncludeMetadata req then xtx_Metadata ptx else [])\<rparr>
     else None)"

lemma buildTxEvent_decode:
  assumes "i < length txFilter"
  shows "buildTxEvent pb req (Some h) txFilter i bs = Ok (Option.bind (fx_decode pb bs) (fx_event req h txFilter i))"
  using assms by (auto simp: buildTxEvent_def fx_decode_def fx_event_def Let_def split: sum.splits option.splits prod.splits)

lemma filterNamespaces_view:
  "snd (filterNamespaces nss flt) \<longleftrightarrow> flt = [] \<or> (\<exists>n \<in> set (DecodeNamespaces nss). ns_Namespace n \<in> set flt)"
  "DecodeNamespaces (fst (filterNamespaces nss flt))
    = filter (\<lambda>n. flt = [] \<or> ns_Namespace n \<in> set flt) (DecodeNamespaces nss)"
  by (auto simp: filterNamespaces_def DecodeNamespaces_def decodeNamespace_def filter_map comp_def Let_def filter_empty_conv)

lemma fx_event_view:
  assumes "committer_layout cc names" and "set (sr_FilterStatus r) \<subseteq> reported"
    and "i < length txFilter" and "i < 2 ^ 32" and "of_char (txFilter ! i) \<in> set names"
  shows "map (\<lambda>x. ce_Transaction (convertTxEvent pb cc x))
      (case fx_event (toProtoStreamAllRequest cc names (Some r)) h txFilter i d of Some x \<Rightarrow> [x] | None \<Rightarrow> [])
    = map (feed_view r) (filter (feed_wants r) [fx_transaction pb cc txFilter i d])"
proof -
  have u: "uint (of_nat i :: 32 word) = int i" using assms(4) by (simp add: unsigned_of_nat take_bit_nat_eq_self)
  obtain txid ptx where d: "d = (txid, ptx)" by (cases d)
  obtain s c m where s: "StatusFromCommitterStatus cc (of_char (txFilter ! i)) = (s, c, m)" by (rule prod_cases3)
  obtain nss t where f: "filterNamespaces (xtx_Namespaces ptx) (sr_FilterNamespaces r) = (nss, t)" by (cases "filterNamespaces (xtx_Namespaces ptx) (sr_FilterNamespaces r)")
  note st = toProtoFilterStatus_exact [OF assms(1,5,2)]
  note v = filterNamespaces_view [of "xtx_Namespaces ptx" "sr_FilterNamespaces r", unfolded f, simplified]
  have w: "feed_wants r (fx_transaction pb cc txFilter i d)
      \<longleftrightarrow> statusMatches (of_char (txFilter ! i)) (toProtoFilterStatus cc names (sr_FilterStatus r)) \<and> t"
    using assms(3) s v(1) by (simp add: feed_wants_def fx_transaction_def d st fabricx_statusForTx_def Let_def)
  show ?thesis
  proof (cases "feed_wants r (fx_transaction pb cc txFilter i d)")
    case True
    with w s f u v(2) assms(3) show ?thesis
      by (simp add: fx_event_def toProtoStreamAllRequest_def d convertTxEvent_def feed_view_def fx_transaction_def
          GetTxId_def GetTxNum_def SetStatus_def zero_Transaction_def fabricx_statusForTx_def Let_def DecodeMetadata_def
          zero_Metadata_def DecodeNamespaces_def)
  next
    case False
    with w f show ?thesis by (auto simp: fx_event_def toProtoStreamAllRequest_def d)
  qed
qed

lemma buildEvents_parse:
  assumes "\<And>i bs. (i, bs) \<in> set (enumerate n data) \<Longrightarrow> \<exists>ev. f i bs = Ok ev \<and> map g (case ev of Some x \<Rightarrow> [x] | None \<Rightarrow> []) = h i bs"
  shows "\<exists>evs. buildEvents f n data = Ok evs \<and> map g evs = concat (map (\<lambda>(i, bs). h i bs) (enumerate n data))"
  using assms
proof (induction f n data rule: buildEvents.induct)
  case (2 f n bs rest)
  from "2.prems" [of n bs] obtain ev where ev: "f n bs = Ok ev" "map g (case ev of Some x \<Rightarrow> [x] | None \<Rightarrow> []) = h n bs" by auto
  from "2.IH" [OF ev(1)] "2.prems" obtain evs where
    "buildEvents f (Suc n) rest = Ok evs" "map g evs = concat (map (\<lambda>(i, bs). h i bs) (enumerate (Suc n) rest))" by auto
  with ev show ?case by auto
qed simp

lemma view_concat:
  "map v (filter w (concat (map (\<lambda>(i, x). k i x) xs))) = concat (map (\<lambda>(i, x). map v (filter w (k i x))) xs)"
  by (induction xs) auto

text \<open>The parsed block, by the parts of the raw one.\<close>

lemma fabricx_Parse_parts:
  assumes "fabricx_Parse pb cc now raw = Ok b"
  obtains h metadata data where "blk_Header raw = Some h" "blk_Metadata raw = Some metadata" "blk_Data raw = Some data"
    "TRANSACTIONS_FILTER pb < length metadata" "raw_filter pb raw = metadata ! TRANSACTIONS_FILTER pb"
    "parseLoop (parseEntry pb (fabricx_ParseTx pb) (fabricx_statusForTx cc (raw_filter pb raw)) (bh_Number h)) 0 data
       (zero_Block\<lparr>b_Number := bh_Number h, b_Hash := BlockHeaderHash pb h, b_ParentHash := bh_PreviousHash h,
          b_Timestamp := now\<rparr>) = Ok b"
  using assms unfolding fabricx_Parse_def parseBlock_def
  by (auto simp: raw_filter_def split: option.splits if_splits)

lemma buildEvents_view:
  assumes "header_types_ok pb" and "committer_layout cc names" and "set (sr_FilterStatus r) \<subseteq> reported"
    and "length data \<le> length txFilter" and "length data \<le> 2 ^ 32"
    and "\<forall>i < length data. of_char (txFilter ! i) \<in> set names"
    and "\<forall>(i, bs) \<in> set (enumerate 0 data). \<exists>e. parseEntry pb (fabricx_ParseTx pb) (fabricx_statusForTx cc txFilter) (bh_Number h) i bs = Ok e"
  shows "\<exists>evs. buildEvents (buildTxEvent pb (toProtoStreamAllRequest cc names (Some r)) (Some h) txFilter) 0 data = Ok evs
    \<and> map (\<lambda>x. ce_Transaction (convertTxEvent pb cc x)) evs
      = map (feed_view r) (filter (feed_wants r) (concat (map (\<lambda>(i, bs).
          entry_txs (parseEntry pb (fabricx_ParseTx pb) (fabricx_statusForTx cc txFilter) (bh_Number h) i bs)) (enumerate 0 data))))"
  unfolding view_concat
proof (rule buildEvents_parse)
  fix i bs assume m: "(i, bs) \<in> set (enumerate 0 data)"
  then have i: "i < length data" by (simp add: in_set_enumerate_eq)
  from m assms(7) obtain e where e: "parseEntry pb (fabricx_ParseTx pb) (fabricx_statusForTx cc txFilter) (bh_Number h) i bs = Ok e"
    by blast
  have F: "i < length txFilter" "i < 2 ^ 32" "of_char (txFilter ! i) \<in> set names" using i assms(4,5,6) by auto
  show "\<exists>ev. buildTxEvent pb (toProtoStreamAllRequest cc names (Some r)) (Some h) txFilter i bs = Ok ev
    \<and> map (\<lambda>x. ce_Transaction (convertTxEvent pb cc x)) (case ev of Some x \<Rightarrow> [x] | None \<Rightarrow> [])
      = map (feed_view r) (filter (feed_wants r)
          (entry_txs (parseEntry pb (fabricx_ParseTx pb) (fabricx_statusForTx cc txFilter) (bh_Number h) i bs)))"
    unfolding e parseEntry_decode [OF assms(1) e] buildTxEvent_decode [OF F(1)]
    using fx_event_view [OF assms(2,3) F, of pb h] by (cases "fx_decode pb bs") simp_all
qed

text \<open>
  C9: The feed of committed transactions agrees with the blocks. For every block the parser accepts and every
  request for statuses the committer reports, the events the peer builds, converted by the client, are exactly
  the parsed transactions that the request wants, in block order and with their block positions, each reduced to
  the requested namespaces and parts; the batch has the number, the hash and the parent hash of the parsed
  block, and a block without a wanted transaction gives no batch. Both sides decode on their own: the client
  from the event, the parser from the envelope.
\<close>

theorem feed_agrees:
  assumes "header_types_ok pb" and "committer_layout cc names" and "set (sr_FilterStatus r) \<subseteq> reported"
    and "fabricx_Parse pb cc now raw = Ok b"
    and "length (raw_data raw) \<le> length (raw_filter pb raw)" and "length (raw_data raw) \<le> 2 ^ 32"
    and "\<forall>i < length (raw_data raw). of_char (raw_filter pb raw ! i) \<in> set names"
  shows "\<exists>ev. buildBlockEvent pb raw (toProtoStreamAllRequest cc names (Some r)) = Ok ev
    \<and> (let ts = map (feed_view r) (filter (feed_wants r) (b_Transactions b)) in
       case map_option (convertBlockEvent pb cc) ev of
         None \<Rightarrow> ts = []
       | Some batch \<Rightarrow> ts \<noteq> [] \<and> map ce_Transaction (ba_Events batch) = ts
           \<and> ba_BlockNumber batch = b_Number b \<and> ba_Hash batch = b_Hash b \<and> ba_ParentHash batch = b_ParentHash b)"
proof -
  from assms(4) obtain h metadata data where raw: "blk_Header raw = Some h" "blk_Metadata raw = Some metadata"
      "blk_Data raw = Some data" "TRANSACTIONS_FILTER pb < length metadata"
      "raw_filter pb raw = metadata ! TRANSACTIONS_FILTER pb"
    and loop: "parseLoop (parseEntry pb (fabricx_ParseTx pb) (fabricx_statusForTx cc (raw_filter pb raw)) (bh_Number h)) 0 data
       (zero_Block\<lparr>b_Number := bh_Number h, b_Hash := BlockHeaderHash pb h, b_ParentHash := bh_PreviousHash h,
          b_Timestamp := now\<rparr>) = Ok b"
    by (rule fabricx_Parse_parts)
  note closed = parseLoop_closed [OF loop]
  have d: "raw_data raw = data" using raw(3) by (simp add: raw_data_def)
  obtain evs where evs: "buildEvents (buildTxEvent pb (toProtoStreamAllRequest cc names (Some r)) (Some h) (raw_filter pb raw)) 0 data = Ok evs"
    and ts: "map (\<lambda>x. ce_Transaction (convertTxEvent pb cc x)) evs = map (feed_view r) (filter (feed_wants r) (b_Transactions b))"
    using buildEvents_view [OF assms(1-3) assms(5-7) [unfolded d], of h] closed by (auto simp: zero_Block_def)
  have "buildBlockEvent pb raw (toProtoStreamAllRequest cc names (Some r))
      = Ok (if evs = [] then None else Some \<lparr>be_Header = Some h, be_Events = evs\<rparr>)"
    using evs raw by (simp add: buildBlockEvent_def)
  moreover have "b_Number b = bh_Number h" "b_Hash b = BlockHeaderHash pb h" "b_ParentHash b = bh_PreviousHash h"
    using closed by (simp_all add: zero_Block_def)
  ultimately show ?thesis
    by (cases "evs = []") (simp_all add: convertBlockEvent_def comp_def Let_def flip: ts)
qed

subsection \<open>Witnesses\<close>

definition sample_seek_info :: pb_SeekInfo where
  "sample_seek_info = \<lparr>seek_Start = Some (SeekSpecified 1), seek_Stop = Some (SeekSpecified (- 1)), seek_Behavior = 0\<rparr>"

definition sample_seek :: seek_protos where
  "sample_seek = \<lparr>HeaderType_DELIVER_SEEK_INFO = 6, SeekInfo_BLOCK_UNTIL_READY = 0,
     ma_SeekInfo = marshal_only sample_seek_info ''seek'', um_SeekInfo = unmarshal_only sample_seek_info ''seek''\<rparr>"

definition sample_seek_payload :: pb_Payload where
  "sample_seek_payload = \<lparr>pl_Header = Some sample_header, pl_Data = ''seek''\<rparr>"

definition sample_seek_pb :: protos where
  "sample_seek_pb = sample_pb\<lparr>ma_ChannelHeader := (\<lambda>_. Inr ''chdr''),
     ma_Payload := marshal_only sample_seek_payload ''spl'', um_Payload := unmarshal_only sample_seek_payload ''spl''\<rparr>"

theorem seek_roundtrip_witness:
  "parseStartBlock sample_seek_pb sample_seek \<lparr>env_Payload = ''spl'', env_Signature = ''sig''\<rparr> = (1, False)
   \<and> (\<exists>rest. [sample_empty 1, sample_empty 2] = [sample_empty 1] @ rest \<and> rest \<noteq> [] \<and> hd rest = sample_empty 2)"
proof -
  let ?send = "\<lambda>b. if raw_number b = 2 then Some (Msg ''gone'' []) else None"
  let ?env = "\<lparr>env_Payload = ''spl'', env_Signature = ''sig''\<rparr> :: pb_Envelope"
  have seek: "newDeliverSeekInfo sample_seek_pb sample_seek (Some sample_signer) ''n'' 0 ''ch'' 1 = Inr ?env"
    by (simp add: newDeliverSeekInfo_def seekHeader_def seekPayload_def sample_seek_pb_def sample_seek_def sample_signer_def
        sample_seek_info_def sample_seek_payload_def sample_header_def marshal_only_def)
  have chain: "chain_ok ([sample_empty 0, sample_empty 1] @ [sample_empty 2])"
    by (auto simp: chain_ok_def less_Suc_eq sample_empty_def raw_number_def raw_data_def)
  have num: "raw_number (sample_empty n) = n" for n by (simp add: sample_empty_def raw_number_def)
  have "parseStartBlock sample_seek_pb sample_seek ?env = (1, False)"
    by (simp add: parseStartBlock_def sample_seek_pb_def sample_seek_def sample_seek_payload_def sample_seek_info_def unmarshal_only_def)
  then have run: "Deliver sample_seek_pb sample_seek ?send (Inr ?env) [sample_empty 0, sample_empty 1] [sample_empty 2]
      = ([sample_empty 1], Err (Msg ''gone'' []))"
    by (simp add: Deliver_def sample_empty_def raw_number_def)
  have hd: "headed ([sample_empty 0, sample_empty 1] @ [sample_empty 2])" by (simp add: headed_def sample_empty_def)
  have codecs: "codec_ok (ma_SeekInfo sample_seek) (um_SeekInfo sample_seek)"
    "codec_ok (ma_Payload sample_seek_pb) (um_Payload sample_seek_pb)"
    by (simp_all add: sample_seek_pb_def sample_seek_def codec_only_ok)
  show ?thesis
    using seek_roundtrip [OF codecs seek chain _ hd run] num by auto
qed

definition sample_feed_codes :: committer_codes where
  "sample_feed_codes = sample_committer_codes\<lparr>Status_name := [0 \<mapsto> ''STATUS_UNSPECIFIED'', 1 \<mapsto> ''COMMITTED'',
     3 \<mapsto> ''ABORTED_MVCC_CONFLICT'', 101 \<mapsto> ''MALFORMED'']\<rparr>"

definition sample_request :: StreamAllRequest where
  "sample_request = \<lparr>sr_FilterNamespaces = [''ns''], sr_FilterStatus = [StatusUnknown, StatusMalformed],
     sr_IncludeReadWriteSets = True, sr_IncludeEndorsements = False, sr_IncludeMetadata = False\<rparr>"

lemma sample_layout: "committer_layout sample_feed_codes [0, 1, 3, 101]"
  by (simp add: committer_layout_def committer_codes_ok_def sample_feed_codes_def sample_committer_codes_def enumerates_def
      insert_commute)

lemma sample_decode: "fx_decode sample_pb ''env'' = Some (''txid'', sample_endorsed_tx)"
  by (simp add: fx_decode_def)

lemma sample_namespaces: "ns_Namespace ` set (DecodeNamespaces (xtx_Namespaces sample_endorsed_tx)) = {''ns''}"
proof -
  have "xtx_Namespaces sample_endorsed_tx = xtx_Namespaces sample_tx" by (simp add: sample_endorsed_tx_def)
  moreover have "map txn_NsId (xtx_Namespaces sample_tx) = [''ns'']"
    unfolding sample_tx_def buildTx_def by (cases "splitWrites (Writes sample_rws) (readByKey (Reads sample_rws))") simp
  ultimately have "txn_NsId ` set (xtx_Namespaces sample_endorsed_tx) = {''ns''}" by (metis list.set_map list.simps(15) set_empty)
  then show ?thesis by (simp add: DecodeNamespaces_def decodeNamespace_def image_image)
qed

lemma sample_wanted:
  "feed_wants sample_request (fx_transaction sample_pb sample_feed_codes [CHR 0x01, CHR 0x00] 1 (''txid'', sample_endorsed_tx))"
proof -
  have "''ns'' \<in> ns_Namespace ` set (DecodeNamespaces (xtx_Namespaces sample_endorsed_tx))"
    by (simp add: sample_namespaces)
  then obtain n where "n \<in> set (DecodeNamespaces (xtx_Namespaces sample_endorsed_tx))" "''ns'' = ns_Namespace n"
    by (rule imageE)
  moreover have "tx_NsRWS (fx_transaction pb cc flt i (t, x)) = DecodeNamespaces (xtx_Namespaces x)" for pb cc flt i t x
    by (simp add: fx_transaction_def Let_def split: prod.splits)
  moreover have "tx_Status (fx_transaction pb sample_feed_codes [CHR 0x01, CHR 0x00] 1 d) = StatusUnknown" for pb d
    by (simp add: fx_transaction_def fabricx_statusForTx_def StatusFromCommitterStatus_def sample_feed_codes_def
        sample_committer_codes_def Let_def split: prod.splits)
  ultimately show ?thesis unfolding feed_wants_def sample_request_def by auto
qed

lemma sample_feed_block:
  assumes "fabricx_Parse sample_pb sample_feed_codes 0 (sample_raw [''junk'', ''env'']) = Ok b"
  shows "b_Transactions b = [fx_transaction sample_pb sample_feed_codes [CHR 0x01, CHR 0x00] 1 (''txid'', sample_endorsed_tx)]"
proof -
  from parseBlock_closed [OF assms [unfolded fabricx_Parse_def]] have t: "b_Transactions b = concat (map (\<lambda>(i, bs).
      entry_txs (parseEntry sample_pb (fabricx_ParseTx sample_pb) (fabricx_statusForTx sample_feed_codes [CHR 0x01, CHR 0x00]) 7 i bs))
      (enumerate 0 [''junk'', ''env'']))" by (simp only: sample_raw_simps)
  have "parseEntry sample_pb (fabricx_ParseTx sample_pb) (fabricx_statusForTx sample_feed_codes [CHR 0x01, CHR 0x00]) 7 0 ''junk'' = Ok Skip"
    by (simp add: parseEntry_def)
  moreover obtain e where "parseEntry sample_pb (fabricx_ParseTx sample_pb) (fabricx_statusForTx sample_feed_codes [CHR 0x01, CHR 0x00]) 7 1 ''env'' = Ok e"
    using sample_fabricx_ParseTx
    by (cases "fabricx_statusForTx sample_feed_codes [CHR 0x01, CHR 0x00] 1") (auto simp: parseEntry_def)
  ultimately show ?thesis using parseEntry_decode [OF sample_header_types, of sample_feed_codes "[CHR 0x01, CHR 0x00]" 7 1 "''env''"]
    unfolding t by (simp add: sample_decode entry_txs_def)
qed

theorem feed_agrees_witness:
  "\<exists>b ev. fabricx_Parse sample_pb sample_feed_codes 0 (sample_raw [''junk'', ''env'']) = Ok b
     \<and> buildBlockEvent sample_pb (sample_raw [''junk'', ''env'']) (toProtoStreamAllRequest sample_feed_codes [0, 1, 3, 101] (Some sample_request))
        = Ok (Some ev) \<and> map ce_Transaction (ba_Events (convertBlockEvent sample_pb sample_feed_codes ev))
        = map (feed_view sample_request) (b_Transactions b)"
proof -
  obtain b where b: "fabricx_Parse sample_pb sample_feed_codes 0 (sample_raw [''junk'', ''env'']) = Ok b"
    using sample_fabricx_parse by blast
  have f: "filter (feed_wants sample_request) (b_Transactions b) = b_Transactions b" "b_Transactions b \<noteq> []"
    using sample_wanted by (simp_all add: sample_feed_block [OF b])
  have s: "set (sr_FilterStatus sample_request) \<subseteq> reported" by (simp add: sample_request_def reported_def)
  have "\<forall>i < length (raw_data (sample_raw [''junk'', ''env''])).
      of_char (raw_filter sample_pb (sample_raw [''junk'', ''env'']) ! i) \<in> set [0, 1, 3, 101 :: int]"
    by (simp add: less_Suc_eq)
  from feed_agrees [OF sample_header_types sample_layout s b _ _ this] f b show ?thesis
    by (auto simp: Let_def split: option.splits)
qed

end
