(* ===== verification/Test_Ledger.thy ===== *)
theory Test_Ledger
  imports Test_Network MVCC
begin

section \<open>The ledger and the orderer of the test network (fabrictest/ledger.go, fabrictest/orderer.go)\<close>

text \<open>
  The orderer collects envelopes into batches; the ledger makes a block of a batch, validates it, records the
  outcome in the block's transaction filter and appends the block to the chain. The ledger's world state is its
  own database, or an external one that only the validator reads: the argument \<open>ext\<close> is what reading that one
  returns at the time of the call. Envelope, config and data-hash codecs that only this package uses are the
  record \<open>ledger_protos\<close>. A channel of ten blocks is a list; a send on a full one is skipped.
\<close>

subsection \<open>The ledger\<close>

record ledger_protos =
  ma_Envelope :: "pb_Envelope \<Rightarrow> bytes res"
  ma_ConfigEnvelope :: "pb_ConfigEnvelope \<Rightarrow> bytes res"
  ComputeBlockDataHash :: "bytes list \<Rightarrow> bytes"

record ledger =
  l_blocks :: "pb_Block list"
  l_subs :: "pb_Block list list"
  l_db :: "VersionedDB option"
  l_parser :: "int64 \<Rightarrow> pb_Block \<Rightarrow> Block result"
  l_validator :: MVCCValidator
  l_closed :: bool

definition makeBlock :: "ledger_protos \<Rightarrow> u64 \<Rightarrow> bytes \<Rightarrow> pb_Envelope list \<Rightarrow> pb_Block" where
  "makeBlock lc blockNum prevHash envs =
     (let data = map (\<lambda>env. case ma_Envelope lc env of Inl _ \<Rightarrow> '''' | Inr b \<Rightarrow> b) envs in
      \<lparr>blk_Header = Some \<lparr>bh_Number = blockNum, bh_PreviousHash = prevHash, bh_DataHash = ComputeBlockDataHash lc data\<rparr>,
       blk_Data = Some data,
       blk_Metadata = Some ['''', '''', replicate (length envs) (CHR 0x00)]\<rparr>)"

definition MarshalOrPanic :: "bytes res \<Rightarrow> (bytes \<Rightarrow> 'a result) \<Rightarrow> 'a result" where
  "MarshalOrPanic r f = (case r of Inl _ \<Rightarrow> Panic | Inr b \<Rightarrow> f b)"

definition makeGenesisBlock :: "protos \<Rightarrow> ledger_protos \<Rightarrow> pb_Block result" where
  "makeGenesisBlock pb lc =
     MarshalOrPanic (ma_ChannelHeader pb \<lparr>ch_Type = HeaderType_CONFIG pb, ch_Timestamp = None, ch_ChannelId = '''',
        ch_TxId = '''', ch_Epoch = 0, ch_Extension = ''''\<rparr>) (\<lambda>chdr.
     MarshalOrPanic (ma_ConfigEnvelope lc \<lparr>ce_Config = Some \<lparr>cfg_Sequence = 0, cfg_Groups = ''''\<rparr>\<rparr>) (\<lambda>data.
     MarshalOrPanic (ma_Payload pb \<lparr>pl_Header = Some \<lparr>hdr_ChannelHeader = chdr, hdr_SignatureHeader = ''''\<rparr>,
        pl_Data = data\<rparr>) (\<lambda>payload.
     Ok (makeBlock lc 0 '''' [\<lparr>env_Payload = payload, env_Signature = ''''\<rparr>]))))"

definition newLedger :: "protos \<Rightarrow> ledger_protos \<Rightarrow> VersionedDB option \<Rightarrow> (int64 \<Rightarrow> pb_Block \<Rightarrow> Block result) \<Rightarrow> MVCCValidator
    \<Rightarrow> ledger result" where
  "newLedger pb lc db p v =
     (case makeGenesisBlock pb lc of
        Panic \<Rightarrow> Panic | Err e \<Rightarrow> Err e
      | Ok genesis \<Rightarrow> Ok \<lparr>l_blocks = [genesis], l_subs = [], l_db = db, l_parser = p, l_validator = v, l_closed = False\<rparr>)"

definition tipHeader :: "ledger \<Rightarrow> pb_BlockHeader option" where
  "tipHeader l = (if l_blocks l = [] then None else blk_Header (last (l_blocks l)))"

definition nextBlock :: "protos \<Rightarrow> ledger \<Rightarrow> (u64 \<times> bytes) option" where
  "nextBlock pb l = map_option (\<lambda>h. (of_nat (length (l_blocks l)), BlockHeaderHash pb h)) (tipHeader l)"

definition height :: "ledger \<Rightarrow> u64" where
  "height l = of_nat (length (l_blocks l))"

definition chainInfo :: "protos \<Rightarrow> ledger \<Rightarrow> (u64 \<times> bytes \<times> bytes) option" where
  "chainInfo pb l =
     map_option (\<lambda>h. (of_nat (length (l_blocks l)), BlockHeaderHash pb h, bh_PreviousHash h)) (tipHeader l)"

definition l_subCap :: nat where "l_subCap = 10"

definition errDBClosed :: goerror where
  "errDBClosed = Msg ''sql: database is closed'' []"

definition commit :: "ledger \<Rightarrow> Block \<Rightarrow> pb_Block \<Rightarrow> ledger \<times> unit result" where
  "commit l bl fbl =
     (case (case l_db l of None \<Rightarrow> (None, None)
            | Some db \<Rightarrow> if l_closed l then (Some db, Some errDBClosed)
                else (case UpdateWorldState db bl of (db', err) \<Rightarrow> (Some db', err))) of
        (db', Some err) \<Rightarrow> (l\<lparr>l_db := db'\<rparr>, Err err)
      | (db', None) \<Rightarrow>
          (l\<lparr>l_db := db', l_blocks := l_blocks l @ [fbl],
             l_subs := map (\<lambda>ch. if length ch < l_subCap then ch @ [fbl] else ch) (l_subs l)\<rparr>, Ok ()))"

text \<open>The loop that scatters the statuses over the block's filter.\<close>

fun scatter :: "u8 list \<Rightarrow> Transaction list \<Rightarrow> bytes \<Rightarrow> bytes result" where
  "scatter [] txs blockFilter = Ok blockFilter"
| "scatter (status # rest) [] blockFilter = Panic"
| "scatter (status # rest) (tx # txs) blockFilter =
     (if tx_Number tx < 0 \<or> tx_Number tx \<ge> int (length blockFilter) then Panic
      else scatter rest txs (blockFilter[nat (tx_Number tx) := char_of (unat status)]))"

definition withFilter :: "protos \<Rightarrow> bytes \<Rightarrow> pb_Block \<Rightarrow> pb_Block" where
  "withFilter pb blockFilter fbl =
     fbl\<lparr>blk_Metadata := map_option (\<lambda>m. m[TRANSACTIONS_FILTER pb := blockFilter]) (blk_Metadata fbl)\<rparr>"

definition getter :: "record_getter \<Rightarrow> ledger \<Rightarrow> record_getter" where
  "getter ext l = (case l_db l of Some db \<Rightarrow> if l_closed l then (\<lambda>_ _. Inl errDBClosed) else db_Get db | None \<Rightarrow> ext)"

definition ledger_process :: "protos \<Rightarrow> ledger_protos \<Rightarrow> int64 \<Rightarrow> record_getter \<Rightarrow> ledger \<Rightarrow> pb_Envelope list
    \<Rightarrow> ledger \<times> unit result" where
  "ledger_process pb lc now ext l env =
     (case nextBlock pb l of None \<Rightarrow> (l, Panic) | Some (blockNum, prevHash) \<Rightarrow>
      let fbl = makeBlock lc blockNum prevHash env in
      case l_parser l now fbl of Panic \<Rightarrow> (l, Panic) | Err err \<Rightarrow> (l, Err err) | Ok bl \<Rightarrow>
      case Validate (l_validator l) (getter ext l) bl of
        (bl', txFilter, Some err, v') \<Rightarrow> (l\<lparr>l_validator := v'\<rparr>, Err err)
      | (bl', txFilter, None, v') \<Rightarrow>
          if TRANSACTIONS_FILTER pb \<ge> 3 then (l\<lparr>l_validator := v'\<rparr>, Panic)
          else
            case scatter txFilter (b_Transactions bl') (raw_filter pb fbl) of
              Panic \<Rightarrow> (l\<lparr>l_validator := v'\<rparr>, Panic) | Err err \<Rightarrow> (l\<lparr>l_validator := v'\<rparr>, Err err)
            | Ok blockFilter \<Rightarrow> commit (l\<lparr>l_validator := v'\<rparr>) bl' (withFilter pb blockFilter fbl))"

definition ledger_truncate :: "u64 \<Rightarrow> ledger \<Rightarrow> ledger \<times> unit result" where
  "ledger_truncate num l =
     (if l_db l \<noteq> None then (l, Err (Msg ''revert requires an external world state (db1)'' []))
      else if num \<ge> of_nat (length (l_blocks l))
      then (l, Err (Msg ''cannot revert to block %d: height is %d'' [FInt (uint num), FInt (int (length (l_blocks l)))]))
      else (l\<lparr>l_blocks := take (unat num + 1) (l_blocks l)\<rparr>, Ok ()))"

definition subscribe :: "ledger \<Rightarrow> ledger \<times> pb_Block list" where
  "subscribe l = (l\<lparr>l_subs := l_subs l @ [[]]\<rparr>, l_blocks l)"

text \<open>\<open>close\<close> ends the subscriptions and closes the ledger's own database.\<close>

definition ledger_close :: "ledger \<Rightarrow> ledger" where
  "ledger_close l = l\<lparr>l_subs := [], l_closed := l_closed l \<or> l_db l \<noteq> None\<rparr>"

subsection \<open>The orderer\<close>

record orderer_config =
  BlockCutTime :: int64
  MaxTxPerBlock :: int64
  OrdererPort :: int64
  PeerPort :: int64

record testOrderer =
  o_ledger :: ledger
  o_batch :: "pb_Envelope list"
  o_timer :: bool

definition newTestOrderer :: "ledger \<Rightarrow> testOrderer" where
  "newTestOrderer l = \<lparr>o_ledger = l, o_batch = [], o_timer = False\<rparr>"

definition flush :: "(ledger \<Rightarrow> pb_Envelope list \<Rightarrow> ledger \<times> unit result) \<Rightarrow> testOrderer \<Rightarrow> testOrderer result" where
  "flush process ord =
     (if length (o_batch ord) = 0 then Ok ord
      else
        (case process (o_ledger ord) (o_batch ord) of
           (l', Ok _) \<Rightarrow> Ok \<lparr>o_ledger = l', o_batch = [], o_timer = False\<rparr>
         | _ \<Rightarrow> Panic))"

text \<open>One iteration of \<open>batchingLoop\<close>, by the case of its \<open>select\<close>; the reply of the last two, if there is one.\<close>

datatype batching_event = InCh pb_Envelope | TimerC | CutCh | RevertCh u64

definition batchingStep :: "orderer_config \<Rightarrow> (ledger \<Rightarrow> pb_Envelope list \<Rightarrow> ledger \<times> unit result) \<Rightarrow> batching_event
    \<Rightarrow> testOrderer \<Rightarrow> (testOrderer \<times> unit result) result" where
  "batchingStep cfg process ev ord =
     (case ev of
        InCh env \<Rightarrow>
          (let batch = o_batch ord @ [env];
               ord' = ord\<lparr>o_batch := batch, o_timer := o_timer ord \<or> length batch = 1 \<and> BlockCutTime cfg > 0\<rparr>
           in map_result (\<lambda>x. (x, Ok ()))
             (if BlockCutTime cfg = 0 \<or> MaxTxPerBlock cfg > 0 \<and> int (length batch) \<ge> MaxTxPerBlock cfg
              then flush process ord' else Ok ord'))
      | TimerC \<Rightarrow> map_result (\<lambda>x. (x, Ok ())) (flush process (if o_batch ord = [] then ord\<lparr>o_timer := False\<rparr> else ord))
      | CutCh \<Rightarrow>
          (case process (o_ledger ord) [] of
             (l', Panic) \<Rightarrow> Panic
           | (l', r) \<Rightarrow> Ok (ord\<lparr>o_ledger := l'\<rparr>, r))
      | RevertCh num \<Rightarrow>
          (case ledger_truncate num (o_ledger ord) of
             (l', r) \<Rightarrow> Ok (\<lparr>o_ledger = l', o_batch = [], o_timer = False\<rparr>, r)))"

text \<open>
  \<open>Broadcast\<close>, over what the stream yields and the result of each acknowledgement: the envelopes put on the
  loop's channel and the result, if it has returned.
\<close>

datatype broadcast_recv = BcEnvelope pb_Envelope "goerror option" | BcEOF | BcFailed goerror

fun testOrderer_Broadcast :: "broadcast_recv list \<Rightarrow> pb_Envelope list \<times> goerror option option" where
  "testOrderer_Broadcast [] = ([], None)"
| "testOrderer_Broadcast (BcEOF # ms) = ([], Some None)"
| "testOrderer_Broadcast (BcFailed err # ms) = ([], Some (Some err))"
| "testOrderer_Broadcast (BcEnvelope env acked # ms) =
     (case acked of
        Some err \<Rightarrow> ([env], Some (Some err))
      | None \<Rightarrow> (case testOrderer_Broadcast ms of (envs, r) \<Rightarrow> (env # envs, r)))"

text \<open>
  \<open>cutBlock\<close> and \<open>revert\<close> hand a request to the loop and wait for its reply; the context may end before the
  loop takes the request, or before the caller sees the reply.
\<close>

datatype handoff = NotTaken | Unanswered | Answered

definition request :: "orderer_config \<Rightarrow> (ledger \<Rightarrow> pb_Envelope list \<Rightarrow> ledger \<times> unit result) \<Rightarrow> batching_event \<Rightarrow> handoff \<Rightarrow> goerror
    \<Rightarrow> testOrderer \<Rightarrow> (testOrderer \<times> goerror option) result" where
  "request cfg process ev h ctxErr ord =
     (if h = NotTaken then Ok (ord, Some ctxErr)
      else
        (case batchingStep cfg process ev ord of
           Panic \<Rightarrow> Panic | Err e \<Rightarrow> Err e
         | Ok (ord', reply) \<Rightarrow>
             Ok (ord', if h = Unanswered then Some ctxErr else case reply of Err err \<Rightarrow> Some err | _ \<Rightarrow> None)))"

definition cutBlock :: "orderer_config \<Rightarrow> (ledger \<Rightarrow> pb_Envelope list \<Rightarrow> ledger \<times> unit result) \<Rightarrow> handoff \<Rightarrow> goerror
    \<Rightarrow> testOrderer \<Rightarrow> (testOrderer \<times> goerror option) result" where
  "cutBlock cfg process = request cfg process CutCh"

definition revert :: "orderer_config \<Rightarrow> (ledger \<Rightarrow> pb_Envelope list \<Rightarrow> ledger \<times> unit result) \<Rightarrow> u64 \<Rightarrow> handoff \<Rightarrow> goerror
    \<Rightarrow> testOrderer \<Rightarrow> (testOrderer \<times> goerror option) result" where
  "revert cfg process num = request cfg process (RevertCh num)"

text \<open>
  The steps of the network: an iteration of the loop, at any time and with any contents of the external world
  state, or a subscription of the peer. The timer's case is ready only when a timer runs.
\<close>

inductive orderer_step :: "protos \<Rightarrow> ledger_protos \<Rightarrow> orderer_config \<Rightarrow> testOrderer \<Rightarrow> testOrderer \<Rightarrow> bool"
  for pb lc cfg where
  event: "batchingStep cfg (ledger_process pb lc now ext) ev ord = Ok (ord', r) \<Longrightarrow> (ev = TimerC \<Longrightarrow> o_timer ord)
    \<Longrightarrow> orderer_step pb lc cfg ord ord'"
| subscribed: "subscribe (o_ledger ord) = (l', existing) \<Longrightarrow> orderer_step pb lc cfg ord (ord\<lparr>o_ledger := l'\<rparr>)"

inductive_cases orderer_stepE: "orderer_step pb lc cfg ord ord'"
subsection \<open>Invariants of the ledger under the loop\<close>

lemma flush_ledger:
  assumes "flush process ord = Ok ord'" and "\<And>env. P (o_ledger ord) \<Longrightarrow> P (fst (process (o_ledger ord) env))" and "P (o_ledger ord)"
  shows "P (o_ledger ord')"
  using assms(1,3) assms(2) [of "o_batch ord"] by (auto simp: flush_def split: if_splits prod.splits result.splits)

lemma batchingStep_ledger:
  assumes "batchingStep cfg process ev ord = Ok (ord', r)" and "P (o_ledger ord)"
    and "\<And>env. P (o_ledger ord) \<Longrightarrow> P (fst (process (o_ledger ord) env))"
    and "\<And>num. P (o_ledger ord) \<Longrightarrow> P (fst (ledger_truncate num (o_ledger ord)))"
  shows "P (o_ledger ord')"
proof (cases ev)
  case (InCh env)
  have "P (o_ledger ord')" if "flush process (ord\<lparr>o_batch := b, o_timer := t\<rparr>) = Ok ord'" for b t
    by (rule flush_ledger [OF that]) (use assms(2,3) in simp_all)
  with InCh assms(1,2) show ?thesis by (auto simp: batchingStep_def Let_def split: if_splits)
next
  case TimerC
  have "P (o_ledger ord')" if "flush process (ord\<lparr>o_timer := t\<rparr>) = Ok ord'" for t
    by (rule flush_ledger [OF that]) (use assms(2,3) in simp_all)
  moreover have "P (o_ledger ord')" if "flush process ord = Ok ord'"
    by (rule flush_ledger [OF that]) (use assms(2,3) in simp_all)
  ultimately show ?thesis using TimerC assms(1) by (auto simp: batchingStep_def split: if_splits)
next
  case CutCh
  with assms(1,2) assms(3) [of "[]"] show ?thesis by (auto simp: batchingStep_def split: prod.splits result.splits)
next
  case (RevertCh num)
  with assms(1,2) assms(4) [of num] show ?thesis by (auto simp: batchingStep_def split: prod.splits)
qed

lemma orderer_ledger_invariant:
  assumes "(orderer_step pb lc cfg)\<^sup>*\<^sup>* ord ord'" and "P (o_ledger ord)"
    and "\<And>now ext l env. P l \<Longrightarrow> P (fst (ledger_process pb lc now ext l env))"
    and "\<And>num l. P l \<Longrightarrow> P (fst (ledger_truncate num l))" and "\<And>l. P l \<Longrightarrow> P (fst (subscribe l))"
  shows "P (o_ledger ord')"
  using assms(1,2)
proof (induction rule: rtranclp_induct)
  case (step o1 o2)
  note IH = step(3) [OF step(4)]
  from step(2) show ?case
    by (rule orderer_stepE) (use IH batchingStep_ledger [of cfg _ _ o1 o2 _ P] assms(3-5) [OF IH] in auto)
qed

subsection \<open>The chain\<close>

text \<open>
  A chain as a ledger has it: numbered from 0, every header with the hash of the header before it and the hash of
  the block's data, and a filter byte for every envelope.
\<close>

definition link_ok :: "protos \<Rightarrow> ledger_protos \<Rightarrow> pb_Block option \<Rightarrow> nat \<Rightarrow> pb_Block \<Rightarrow> bool" where
  "link_ok pb lc prev i b =
     (case (blk_Header b, blk_Data b) of
        (Some h, Some data) \<Rightarrow> bh_Number h = of_nat i \<and> bh_DataHash h = ComputeBlockDataHash lc data
          \<and> length (raw_filter pb b) = length data
          \<and> (case prev of None \<Rightarrow> bh_PreviousHash h = '''' | Some p \<Rightarrow>
             (case blk_Header p of None \<Rightarrow> False | Some hp \<Rightarrow> bh_PreviousHash h = BlockHeaderHash pb hp))
      | _ \<Rightarrow> False)"

definition linked :: "protos \<Rightarrow> ledger_protos \<Rightarrow> pb_Block list \<Rightarrow> bool" where
  "linked pb lc bs \<longleftrightarrow> bs \<noteq> []
     \<and> (\<forall>i < length bs. link_ok pb lc (if i = 0 then None else Some (bs ! (i - 1))) i (bs ! i))"

lemma linked_take:
  assumes "linked pb lc bs"
  shows "linked pb lc (take (Suc n) bs)"
proof -
  have "take (Suc n) bs ! i = bs ! i" "take (Suc n) bs ! (i - 1) = bs ! (i - 1)" if "i < Suc n" for i
    using that by simp_all
  with assms show ?thesis by (auto simp: linked_def)
qed

lemma linked_snoc:
  assumes "linked pb lc bs" and "link_ok pb lc (Some (last bs)) (length bs) b"
  shows "linked pb lc (bs @ [b])"
  using assms by (auto simp: linked_def nth_append last_conv_nth less_Suc_eq)

lemma scatter_length: "scatter ss txs f = Ok g \<Longrightarrow> length g = length f"
  by (induction ss txs f rule: scatter.induct) (auto split: if_splits)

lemma makeBlock_simps [simp]:
  "raw_filter pb (makeBlock lc n p envs) = ['''', '''', replicate (length envs) (CHR 0x00)] ! TRANSACTIONS_FILTER pb"
  "length (raw_data (makeBlock lc n p envs)) = length envs" "raw_number (makeBlock lc n p envs) = n"
  by (simp_all add: makeBlock_def raw_filter_def raw_data_def raw_number_def Let_def)

lemma ledger_process_blocks:
  "l_blocks (fst (ledger_process pb lc now ext l env)) = l_blocks l
   \<or> (\<exists>t f. tipHeader l = Some t \<and> TRANSACTIONS_FILTER pb < 3
        \<and> length f = length (raw_filter pb (makeBlock lc (of_nat (length (l_blocks l))) (BlockHeaderHash pb t) env))
        \<and> l_blocks (fst (ledger_process pb lc now ext l env))
          = l_blocks l @ [withFilter pb f (makeBlock lc (of_nat (length (l_blocks l))) (BlockHeaderHash pb t) env)])"
  by (auto simp: ledger_process_def nextBlock_def commit_def Let_def dest!: scatter_length
      split: option.splits prod.splits result.splits if_splits)

lemma linked_ledger_process:
  assumes "TRANSACTIONS_FILTER pb = 2" and "linked pb lc (l_blocks l)"
  shows "linked pb lc (l_blocks (fst (ledger_process pb lc now ext l env)))"
  using ledger_process_blocks [of pb lc now ext l env]
proof
  assume "\<exists>t f. tipHeader l = Some t \<and> TRANSACTIONS_FILTER pb < 3
        \<and> length f = length (raw_filter pb (makeBlock lc (of_nat (length (l_blocks l))) (BlockHeaderHash pb t) env))
        \<and> l_blocks (fst (ledger_process pb lc now ext l env))
          = l_blocks l @ [withFilter pb f (makeBlock lc (of_nat (length (l_blocks l))) (BlockHeaderHash pb t) env)]"
  then obtain t f where t: "tipHeader l = Some t" and f: "length f = length env"
    and new: "l_blocks (fst (ledger_process pb lc now ext l env))
      = l_blocks l @ [withFilter pb f (makeBlock lc (of_nat (length (l_blocks l))) (BlockHeaderHash pb t) env)]"
    using assms(1) by auto
  show ?thesis unfolding new
    by (rule linked_snoc [OF assms(2)])
      (use t f assms(1) in \<open>simp add: link_ok_def tipHeader_def withFilter_def makeBlock_def raw_filter_def Let_def split: if_splits\<close>)
qed (use assms(2) in simp)

lemma linked_truncate: "linked pb lc (l_blocks l) \<Longrightarrow> linked pb lc (l_blocks (fst (ledger_truncate num l)))"
  by (simp add: ledger_truncate_def linked_take)

lemma linked_newLedger:
  assumes "TRANSACTIONS_FILTER pb = 2" and "newLedger pb lc db p v = Ok l"
  shows "linked pb lc (l_blocks l)"
  using assms by (auto simp: newLedger_def makeGenesisBlock_def MarshalOrPanic_def linked_def link_ok_def makeBlock_def
      raw_filter_def Let_def split: result.splits sum.splits)

lemma ledger_chain_linked:
  assumes "TRANSACTIONS_FILTER pb = 2" and "newLedger pb lc db p v = Ok l"
    and "(orderer_step pb lc cfg)\<^sup>*\<^sup>* (newTestOrderer l) ord"
  shows "linked pb lc (l_blocks (o_ledger ord))"
  using orderer_ledger_invariant [OF assms(3), of "\<lambda>l. linked pb lc (l_blocks l)"] linked_newLedger [OF assms(1,2)]
    linked_ledger_process [OF assms(1)] linked_truncate
  by (simp add: newTestOrderer_def subscribe_def)

text \<open>
  C25: The test network's chain is a chain. Whatever batches, forced blocks, failed blocks, reverts and
  subscriptions have happened, the blocks of the ledger are numbered from 0 without a gap, each header carries
  the hash of the header before it and of its own data, every envelope has a filter byte, and the height that is
  reported is the number the next block takes.
\<close>

theorem ledger_linked:
  assumes "TRANSACTIONS_FILTER pb = 2" and "newLedger pb lc db p v = Ok l"
    and "(orderer_step pb lc cfg)\<^sup>*\<^sup>* (newTestOrderer l) ord"
  shows "linked pb lc (l_blocks (o_ledger ord)) \<and> map_option fst (nextBlock pb (o_ledger ord)) = Some (height (o_ledger ord))"
proof -
  have "linked pb lc (l_blocks (o_ledger ord))" by (rule ledger_chain_linked [OF assms])
  moreover from this have "\<exists>h. tipHeader (o_ledger ord) = Some h"
    by (auto simp: linked_def tipHeader_def link_ok_def last_conv_nth split: option.splits)
  ultimately show ?thesis by (auto simp: nextBlock_def height_def)
qed


subsection \<open>The batches\<close>

definition batches_ok :: "orderer_config \<Rightarrow> testOrderer \<Rightarrow> bool" where
  "batches_ok cfg ord \<longleftrightarrow> (o_batch ord \<noteq> [] \<longrightarrow> o_timer ord)
     \<and> (MaxTxPerBlock cfg > 0 \<longrightarrow> int (length (o_batch ord)) < MaxTxPerBlock cfg
         \<and> (\<forall>b \<in> set (l_blocks (o_ledger ord)). int (length (raw_data b)) \<le> MaxTxPerBlock cfg))"

lemma ledger_process_sizes:
  assumes "b \<in> set (l_blocks (fst (ledger_process pb lc now ext l env)))" and "b \<notin> set (l_blocks l)"
  shows "length (raw_data b) = length env"
proof -
  have "raw_data (withFilter pb f b) = raw_data b" for f b by (simp add: withFilter_def raw_data_def)
  then show ?thesis using ledger_process_blocks [of pb lc now ext l env] assms by auto
qed

lemma flush_batches:
  assumes "flush (ledger_process pb lc now ext) ord = Ok ord'"
    and "MaxTxPerBlock cfg > 0 \<Longrightarrow> int (length (o_batch ord)) \<le> MaxTxPerBlock cfg
         \<and> (\<forall>b \<in> set (l_blocks (o_ledger ord)). int (length (raw_data b)) \<le> MaxTxPerBlock cfg)"
  shows "batches_ok cfg ord'"
proof (cases "o_batch ord = []")
  case True
  with assms show ?thesis by (simp add: flush_def batches_ok_def)
next
  case False
  with assms(1) obtain l' where l': "ledger_process pb lc now ext (o_ledger ord) (o_batch ord) = (l', Ok ())"
    "ord' = \<lparr>o_ledger = l', o_batch = [], o_timer = False\<rparr>"
    by (auto simp: flush_def split: prod.splits result.splits)
  with assms(2) ledger_process_sizes [of _ pb lc now ext "o_ledger ord" "o_batch ord"] show ?thesis
    by (auto simp: batches_ok_def) (metis order.trans order_refl)
qed

lemma batches_ok_step:
  assumes "orderer_step pb lc cfg ord ord'" and "BlockCutTime cfg \<ge> 0" and "batches_ok cfg ord"
  shows "batches_ok cfg ord'"
  using assms(1)
proof (cases rule: orderer_step.cases)
  case (event now ext ev r)
  show ?thesis
  proof (cases ev)
    case (InCh env)
    define mid where "mid = ord\<lparr>o_batch := o_batch ord @ [env],
      o_timer := o_timer ord \<or> length (o_batch ord @ [env]) = 1 \<and> BlockCutTime cfg > 0\<rparr>"
    let ?cut = "BlockCutTime cfg = 0 \<or> MaxTxPerBlock cfg > 0 \<and> int (length (o_batch mid)) \<ge> MaxTxPerBlock cfg"
    from event InCh have r: "(if ?cut then flush (ledger_process pb lc now ext) mid else Ok mid) = Ok ord'"
      by (auto simp: batchingStep_def mid_def Let_def)
    show ?thesis
    proof (cases ?cut)
      case True
      with r have "flush (ledger_process pb lc now ext) mid = Ok ord'" by simp
      then show ?thesis by (rule flush_batches) (use assms(3) in \<open>auto simp: batches_ok_def mid_def\<close>)
    next
      case False
      with r assms(2,3) show ?thesis by (auto simp: batches_ok_def mid_def)
    qed
  next
    case TimerC
    with event have "flush (ledger_process pb lc now ext) (if o_batch ord = [] then ord\<lparr>o_timer := False\<rparr> else ord) = Ok ord'"
      by (auto simp: batchingStep_def)
    then show ?thesis by (rule flush_batches) (use assms(3) in \<open>auto simp: batches_ok_def\<close>)
  next
    case CutCh
    with event have "ord' = ord\<lparr>o_ledger := fst (ledger_process pb lc now ext (o_ledger ord) [])\<rparr>"
      by (auto simp: batchingStep_def split: prod.splits result.splits)
    with assms(3) ledger_process_sizes [of _ pb lc now ext "o_ledger ord" "[]"] show ?thesis
      by (auto simp: batches_ok_def)
  next
    case (RevertCh num)
    with event have "ord' = \<lparr>o_ledger = fst (ledger_truncate num (o_ledger ord)), o_batch = [], o_timer = False\<rparr>"
      by (auto simp: batchingStep_def split: prod.splits)
    moreover have "set (l_blocks (fst (ledger_truncate num (o_ledger ord)))) \<subseteq> set (l_blocks (o_ledger ord))"
      by (auto simp: ledger_truncate_def dest: in_set_takeD)
    ultimately show ?thesis using assms(3) by (auto simp: batches_ok_def)
  qed
next
  case (subscribed l' existing)
  with assms(3) show ?thesis by (auto simp: batches_ok_def subscribe_def)
qed

text \<open>
  The orderer keeps its batching promises. With a cut time that is not negative, a batch that waits has a
  timer running, so it will be cut; and with a maximum configured, the batch is always below it and no block of
  the chain holds more envelopes than it.
\<close>

theorem orderer_batches:
  assumes "BlockCutTime cfg \<ge> 0" and "newLedger pb lc db p v = Ok l"
    and "(orderer_step pb lc cfg)\<^sup>*\<^sup>* (newTestOrderer l) ord"
  shows "(o_batch ord \<noteq> [] \<longrightarrow> o_timer ord)
    \<and> (MaxTxPerBlock cfg > 0 \<longrightarrow> int (length (o_batch ord)) < MaxTxPerBlock cfg
        \<and> (\<forall>b \<in> set (l_blocks (o_ledger ord)). int (length (raw_data b)) \<le> MaxTxPerBlock cfg))"
proof -
  have "batches_ok cfg (newTestOrderer l)"
    using assms(2) by (auto simp: batches_ok_def newTestOrderer_def newLedger_def makeGenesisBlock_def MarshalOrPanic_def
        split: result.splits sum.splits)
  with assms(3) have "batches_ok cfg ord"
    by (induction rule: rtranclp_induct) (auto dest: batches_ok_step [OF _ assms(1)])
  then show ?thesis by (simp add: batches_ok_def)
qed

subsection \<open>Forced blocks and reverts\<close>

lemma ledger_process_Ok:
  assumes "ledger_process pb lc now ext l env = (l', Ok u)"
  shows "\<exists>b. l_blocks l' = l_blocks l @ [b]"
  using assms
  by (auto simp: ledger_process_def commit_def Let_def split: option.splits result.splits prod.splits if_splits)

lemma cutBlock_nil:
  assumes "cutBlock cfg (ledger_process pb lc now ext) h ctxErr ord = Ok (ord', None)"
  shows "o_batch ord' = o_batch ord \<and> (\<exists>b. l_blocks (o_ledger ord') = l_blocks (o_ledger ord) @ [b])"
proof (cases "ledger_process pb lc now ext (o_ledger ord) []")
  case (Pair l' r)
  with assms have "r = Ok ()" "ord' = ord\<lparr>o_ledger := l'\<rparr>"
    by (auto simp: cutBlock_def request_def batchingStep_def split: result.splits if_splits)
  with Pair ledger_process_Ok [of pb lc now ext "o_ledger ord" "[]" l' "()"] show ?thesis by simp
qed

lemma revert_nil:
  assumes "revert cfg process num h ctxErr ord = Ok (ord', None)"
  shows "o_batch ord' = [] \<and> l_blocks (o_ledger ord') = take (unat num + 1) (l_blocks (o_ledger ord)) \<and> l_db (o_ledger ord) = None"
proof (cases "ledger_truncate num (o_ledger ord)")
  case (Pair l' r)
  with assms have r: "\<forall>err. r \<noteq> Err err" and ord': "ord' = \<lparr>o_ledger = l', o_batch = [], o_timer = False\<rparr>"
    by (cases h; cases r; simp add: revert_def request_def batchingStep_def)+
  from Pair r have "l' = (o_ledger ord)\<lparr>l_blocks := take (unat num + 1) (l_blocks (o_ledger ord))\<rparr>" "l_db (o_ledger ord) = None"
    unfolding ledger_truncate_def by (simp_all split: if_splits) auto
  with ord' show ?thesis by simp
qed

lemma Broadcast_queues_acknowledged:
  assumes "testOrderer_Broadcast ms = (envs, r)"
  shows "\<exists>rest. envs = [e. BcEnvelope e None \<leftarrow> takeWhile (\<lambda>m. \<exists>e. m = BcEnvelope e None) ms] @ rest \<and> length rest \<le> 1"
  using assms
proof (induction ms arbitrary: envs r)
  case (Cons m ms)
  show ?case
  proof (cases "\<exists>e. m = BcEnvelope e None")
    case True
    then obtain e where m: "m = BcEnvelope e None" ..
    with Cons.prems obtain envs' where "testOrderer_Broadcast ms = (envs', r)" "envs = e # envs'"
      by (auto split: prod.splits)
    with Cons.IH m show ?thesis by fastforce
  next
    case False
    with Cons.prems have "length envs \<le> 1" by (cases m) (auto split: option.splits)
    with False show ?thesis by simp
  qed
qed simp

end
