(* ===== verification/Go_Net.thy ===== *)
theory Go_Net
  imports Prelude
begin

section \<open>Addresses: net.SplitHostPort, strconv.Atoi and decimal numbers\<close>

text \<open>
  What the code uses of Go's library on addresses, written as the library has it, with the facts the components
  need: which strings have a host and a port, and that a printed number is read back.
\<close>

subsection \<open>SplitHostPort\<close>

definition IndexByte :: "char \<Rightarrow> string \<Rightarrow> nat option" where
  "IndexByte c s = (if c \<in> set s then Some (length (takeWhile (\<lambda>x. x \<noteq> c) s)) else None)"

definition LastIndexByte :: "char \<Rightarrow> string \<Rightarrow> nat option" where
  "LastIndexByte c s = (if c \<in> set s then Some (length s - 1 - length (takeWhile (\<lambda>x. x \<noteq> c) (rev s))) else None)"

definition addrErr :: "string \<Rightarrow> string \<Rightarrow> 'a res" where
  "addrErr addr why = Inl (Msg ''address %s: %s'' [FStr addr, FStr why])"

definition splitRest :: "string \<Rightarrow> string \<Rightarrow> nat \<Rightarrow> nat \<Rightarrow> nat \<Rightarrow> (string \<times> string) res" where
  "splitRest hostport host i j k =
     (if CHR ''['' \<in> set (drop j hostport) then addrErr hostport ''unexpected '[' in address''
      else if CHR '']'' \<in> set (drop k hostport) then addrErr hostport ''unexpected ']' in address''
      else Inr (host, drop (i + 1) hostport))"

definition SplitHostPort :: "string \<Rightarrow> (string \<times> string) res" where
  "SplitHostPort hostport =
     (case LastIndexByte (CHR '':'') hostport of
        None \<Rightarrow> addrErr hostport ''missing port in address''
      | Some i \<Rightarrow>
          if hostport ! 0 = CHR ''['' then
            (case IndexByte (CHR '']'') hostport of
               None \<Rightarrow> addrErr hostport ''missing ']' in address''
             | Some end \<Rightarrow>
                 if end + 1 = length hostport then addrErr hostport ''missing port in address''
                 else if end + 1 = i then splitRest hostport (take (end - 1) (drop 1 hostport)) i 1 (end + 1)
                 else if hostport ! (end + 1) = CHR '':'' then addrErr hostport ''too many colons in address''
                 else addrErr hostport ''missing port in address'')
          else if CHR '':'' \<in> set (take i hostport) then addrErr hostport ''too many colons in address''
          else splitRest hostport (take i hostport) i 0 0)"

lemma takeWhile_found: "c \<notin> set xs \<Longrightarrow> takeWhile (\<lambda>x. x \<noteq> c) (xs @ c # ys) = xs"
  by (subst takeWhile_append2) auto

lemma LastIndexByte_split: "c \<notin> set ys \<Longrightarrow> LastIndexByte c (xs @ c # ys) = Some (length xs)"
  by (simp add: LastIndexByte_def takeWhile_found)

lemma LastIndexByte_None: "LastIndexByte c s = None \<longleftrightarrow> c \<notin> set s"
  by (simp add: LastIndexByte_def)

lemma IndexByte_split: "c \<notin> set xs \<Longrightarrow> IndexByte c (xs @ c # ys) = Some (length xs)"
  by (simp add: IndexByte_def takeWhile_found)

lemma IndexByte_None: "IndexByte c s = None \<longleftrightarrow> c \<notin> set s"
  by (simp add: IndexByte_def)

text \<open>No colon and no bracket.\<close>

definition plain :: "string \<Rightarrow> bool" where
  "plain s \<longleftrightarrow> CHR '':'' \<notin> set s \<and> CHR ''['' \<notin> set s \<and> CHR '']'' \<notin> set s"

definition joined :: "string \<Rightarrow> string \<Rightarrow> string \<Rightarrow> bool" where
  "joined addr host port \<longleftrightarrow> plain port \<and>
     (plain host \<and> addr = host @ CHR '':'' # port
      \<or> CHR ''['' \<notin> set host \<and> CHR '']'' \<notin> set host \<and> addr = CHR ''['' # host @ CHR '']'' # CHR '':'' # port)"

lemma SplitHostPort_joined:
  assumes "joined addr host port"
  shows "SplitHostPort addr = Inr (host, port)"
proof (cases "addr = host @ CHR '':'' # port \<and> plain host")
  case True
  with assms have p: "plain port" by (simp add: joined_def)
  from True p have l: "LastIndexByte (CHR '':'') addr = Some (length host)" by (simp add: LastIndexByte_split plain_def)
  have "addr ! 0 \<noteq> CHR ''[''" using True by (cases host) (auto simp: plain_def)
  with l True p show ?thesis by (auto simp: SplitHostPort_def splitRest_def plain_def)
next
  case False
  with assms have a: "addr = (CHR ''['' # host) @ CHR '']'' # CHR '':'' # port" and p: "plain port"
    and h: "CHR ''['' \<notin> set host" "CHR '']'' \<notin> set host" by (auto simp: joined_def)
  have l: "LastIndexByte (CHR '':'') addr = Some (Suc (Suc (length host)))"
    using LastIndexByte_split [of "CHR '':''" port "(CHR ''['' # host) @ [CHR '']'']"] p by (simp add: a plain_def)
  have e: "IndexByte (CHR '']'') addr = Some (Suc (length host))"
    using IndexByte_split [of "CHR '']''" "CHR ''['' # host" "CHR '':'' # port"] h by (simp add: a)
  show ?thesis using l e p h by (simp add: SplitHostPort_def splitRest_def a plain_def)
qed

lemma LastIndexByte_Some:
  assumes "LastIndexByte c s = Some i"
  shows "s = take i s @ c # drop (Suc i) s \<and> c \<notin> set (drop (Suc i) s) \<and> i < length s \<and> s ! i = c"
proof -
  from assms have "c \<in> set s" by (simp add: LastIndexByte_def split: if_splits)
  then obtain xs ys where s: "s = xs @ c # ys" "c \<notin> set ys" by (meson split_list_last)
  with assms LastIndexByte_split [of c ys xs] have "i = length xs" by simp
  with s show ?thesis by simp
qed

lemma IndexByte_Some:
  assumes "IndexByte c s = Some i"
  shows "s = take i s @ c # drop (Suc i) s \<and> c \<notin> set (take i s) \<and> i < length s \<and> s ! i = c"
proof -
  from assms have "c \<in> set s" by (simp add: IndexByte_def split: if_splits)
  then obtain xs ys where s: "s = xs @ c # ys" "c \<notin> set xs" by (meson split_list_first)
  with assms IndexByte_split [of c xs ys] have "i = length xs" by simp
  with s show ?thesis by simp
qed

lemma splitRest_Inr:
  "splitRest hostport host i j k = Inr (h, p) \<longleftrightarrow> CHR ''['' \<notin> set (drop j hostport) \<and> CHR '']'' \<notin> set (drop k hostport)
     \<and> h = host \<and> p = drop (i + 1) hostport"
  by (auto simp: splitRest_def addrErr_def)

lemma SplitHostPort_bracket:
  assumes "LastIndexByte (CHR '':'') addr = Some i" and "addr ! 0 = CHR ''[''" and "SplitHostPort addr = Inr (host, port)"
  shows "joined addr host port"
proof -
  from assms obtain e where e: "IndexByte (CHR '']'') addr = Some e" "e + 1 = i"
    and r: "splitRest addr (take (e - 1) (drop 1 addr)) i 1 (e + 1) = Inr (host, port)"
    by (auto simp: SplitHostPort_def addrErr_def split: option.splits if_splits)
  note L = LastIndexByte_Some [OF assms(1)] and I = IndexByte_Some [OF e(1)]
  from r have p: "port = drop (Suc i) addr" "CHR ''['' \<notin> set (drop 1 addr)" "CHR '']'' \<notin> set (drop (e + 1) addr)" "host = take (e - 1) (drop 1 addr)"
    by (simp_all add: splitRest_Inr)
  have "addr ! e = CHR '']''" using I by simp
  with assms(2) have "e \<noteq> 0" by (cases "e = 0") simp_all
  then obtain f where f: "e = Suc f" by (cases e) auto
  from L obtain rest where a: "addr = CHR ''['' # rest" using assms(2) by (cases addr) auto
  have i: "i = Suc (Suc f)" using e(2) f by simp
  have n: "f < length rest" "Suc f < length rest" "rest ! f = CHR '']''" "rest ! Suc f = CHR '':''" using I L by (simp_all add: a f i)
  have "rest = take f rest @ CHR '']'' # CHR '':'' # drop (Suc (Suc f)) rest"
    using id_take_nth_drop [OF n(1)] Cons_nth_drop_Suc [OF n(2)] n(3,4) by metis
  moreover have "port = drop (Suc (Suc f)) rest" "host = take f rest" using p(1,4) by (simp_all add: a f i)
  ultimately have rest: "rest = host @ CHR '']'' # CHR '':'' # port" by (simp only:)
  have "CHR '']'' \<notin> set host" using I p(4) by (simp add: a f)
  moreover have "CHR ''['' \<notin> set host" "CHR ''['' \<notin> set port" using p(2) by (simp_all add: a rest)
  moreover have "CHR '']'' \<notin> set port" using p(3) set_drop_subset [of 1 "drop (e + 1) addr"] unfolding p(1) i f by auto
  moreover have "CHR '':'' \<notin> set port" using L p(1) by simp
  ultimately show ?thesis by (simp add: joined_def plain_def a rest)
qed

lemma SplitHostPort_Inr: "SplitHostPort addr = Inr (host, port) \<longleftrightarrow> joined addr host port"
proof
  assume r: "SplitHostPort addr = Inr (host, port)"
  then obtain i where i: "LastIndexByte (CHR '':'') addr = Some i" by (auto simp: SplitHostPort_def addrErr_def split: option.splits)
  show "joined addr host port"
  proof (cases "addr ! 0 = CHR ''[''")
    case True
    from SplitHostPort_bracket [OF i True r] show ?thesis .
  next
    case False
    with r i have h: "CHR '':'' \<notin> set (take i addr)" "splitRest addr (take i addr) i 0 0 = Inr (host, port)"
      by (auto simp: SplitHostPort_def addrErr_def split: if_splits)
    then have q: "CHR ''['' \<notin> set addr" "CHR '']'' \<notin> set addr" "host = take i addr" "port = drop (Suc i) addr" by (simp_all add: splitRest_Inr)
    from LastIndexByte_Some [OF i] have "addr = host @ CHR '':'' # port" "CHR '':'' \<notin> set port" unfolding q(3,4) by blast+
    moreover have "CHR ''['' \<notin> set host" "CHR '']'' \<notin> set host" "CHR ''['' \<notin> set port" "CHR '']'' \<notin> set port" "CHR '':'' \<notin> set host"
      unfolding q(3,4) using q(1,2) h(1) by (blast dest: in_set_takeD in_set_dropD)+
    ultimately show ?thesis unfolding joined_def plain_def by blast
  qed
qed (rule SplitHostPort_joined)

subsection \<open>Decimal numbers\<close>

definition digit :: "nat \<Rightarrow> char" where
  "digit d = char_of (48 + d)"

fun decimal_nat :: "nat \<Rightarrow> string" where
  "decimal_nat n = (if n < 10 then [digit n] else decimal_nat (n div 10) @ [digit (n mod 10)])"

declare decimal_nat.simps [simp del]

text \<open>\<open>%d\<close>\<close>

definition decimal :: "int \<Rightarrow> string" where
  "decimal i = (if i < 0 then CHR ''-'' # decimal_nat (nat (- i)) else decimal_nat (nat i))"

definition is_digit :: "char \<Rightarrow> bool" where
  "is_digit c \<longleftrightarrow> 48 \<le> (of_char c :: nat) \<and> (of_char c :: nat) \<le> 57"

definition digits_value :: "string \<Rightarrow> nat" where
  "digits_value ds = foldl (\<lambda>n c. n * 10 + (of_char c - 48)) 0 ds"

definition Atoi :: "string \<Rightarrow> int64 res" where
  "Atoi s =
     (let neg = (s \<noteq> [] \<and> hd s = CHR ''-'');
          ds = (if s \<noteq> [] \<and> (hd s = CHR ''-'' \<or> hd s = CHR ''+'') then tl s else s) in
      if ds = [] \<or> \<not> list_all is_digit ds then Inl (Msg ''strconv.Atoi: parsing %q: invalid syntax'' [FQuo s])
      else
        let v = (if neg then - int (digits_value ds) else int (digits_value ds)) in
        if v < - (2 ^ 63) \<or> v \<ge> 2 ^ 63 then Inl (Msg ''strconv.Atoi: parsing %q: value out of range'' [FQuo s])
        else Inr v)"

lemma of_char_digit: "d < 10 \<Longrightarrow> (of_char (digit d) :: nat) = 48 + d"
  by (simp add: digit_def)

lemma decimal_nat_digits: "decimal_nat n \<noteq> [] \<and> list_all is_digit (decimal_nat n) \<and> digits_value (decimal_nat n) = n"
proof (induction n rule: decimal_nat.induct)
  case (1 n)
  show ?case
  proof (cases "n < 10")
    case True
    then show ?thesis by (subst (1 2 3) decimal_nat.simps) (simp add: is_digit_def digits_value_def of_char_digit)
  next
    case False
    have "is_digit (digit (n mod 10))" by (simp add: is_digit_def of_char_digit)
    moreover have "digits_value (xs @ [digit (n mod 10)]) = digits_value xs * 10 + n mod 10" for xs
      by (simp add: digits_value_def of_char_digit)
    ultimately show ?thesis using 1 [OF False] False by (subst (1 2 3) decimal_nat.simps) simp
  qed
qed

lemma digit_distinct: "is_digit c \<Longrightarrow> c \<noteq> CHR '':'' \<and> c \<noteq> CHR ''['' \<and> c \<noteq> CHR '']'' \<and> c \<noteq> CHR ''-'' \<and> c \<noteq> CHR ''+''"
  by (auto simp: is_digit_def)

lemma decimal_plain: "plain (decimal i)"
  using decimal_nat_digits digit_distinct unfolding plain_def decimal_def list_all_iff by (auto split: if_splits)

lemma Atoi_decimal:
  assumes "- (2 ^ 63) \<le> i" and "i < 2 ^ 63"
  shows "Atoi (decimal i) = Inr i"
proof (cases "i < 0")
  case True
  with assms decimal_nat_digits [of "nat (- i)"] show ?thesis by (simp add: Atoi_def decimal_def Let_def)
next
  case False
  from decimal_nat_digits [of "nat i"] have d: "decimal_nat (nat i) \<noteq> []" "list_all is_digit (decimal_nat (nat i))"
    "digits_value (decimal_nat (nat i)) = nat i" by simp_all
  then have "hd (decimal_nat (nat i)) \<noteq> CHR ''-''" "hd (decimal_nat (nat i)) \<noteq> CHR ''+''"
    using digit_distinct by (cases "decimal_nat (nat i)"; auto)+
  with d False assms show ?thesis by (simp add: Atoi_def decimal_def Let_def)
qed

lemma decimal_nat_inj: "decimal_nat n = decimal_nat m \<Longrightarrow> n = m"
  using decimal_nat_digits by metis

lemma decimal_nat_minus: "decimal_nat n \<noteq> CHR ''-'' # ds"
proof
  assume "decimal_nat n = CHR ''-'' # ds"
  with decimal_nat_digits [of n] have "is_digit (CHR ''-'')" by simp
  with digit_distinct show False by blast
qed

lemma decimal_inj: "decimal i = decimal j \<longleftrightarrow> i = j"
proof
  assume eq: "decimal i = decimal j"
  show "i = j"
  proof (cases "i < 0"; cases "j < 0")
    assume "i < 0" "j < 0"
    with eq show ?thesis by (simp add: decimal_def) (drule decimal_nat_inj, simp)
  next
    assume "\<not> i < 0" "\<not> j < 0"
    with eq show ?thesis by (simp add: decimal_def) (drule decimal_nat_inj, simp)
  next
    assume "i < 0" "\<not> j < 0"
    with eq decimal_nat_minus show ?thesis by (metis decimal_def)
  next
    assume "\<not> i < 0" "j < 0"
    with eq decimal_nat_minus show ?thesis by (metis decimal_def)
  qed
qed simp

end
