(* ===== verification/Test_Replica.thy ===== *)
theory Test_Replica
  imports Test_Ledger Go_Net
begin

section \<open>Replicas of the test network\<close>

text \<open>
  The test network's ledger judges a block before it stores it: statuses, and with them the writes that count,
  come from the validator. Everyone else gets the stored block and reads the statuses from its filter. This
  theory shows that the two agree: parsing the stored block gives the transactions the ledger applied, and
  replaying the chain gives the ledger's own world state.
\<close>

subsection \<open>Parsing a block again with another filter\<close>

definition restatus :: "(nat \<Rightarrow> Status \<times> int32 \<times> gomsg) \<Rightarrow> nat \<Rightarrow> Transaction \<Rightarrow> Transaction" where
  "restatus st i t = (case st i of (s, c, m) \<Rightarrow> SetStatus s c m t)"

definition restatus_entry :: "(nat \<Rightarrow> Status \<times> int32 \<times> gomsg) \<Rightarrow> nat \<Rightarrow> entry \<Rightarrow> entry" where
  "restatus_entry st i e = (case e of TxEntry t \<Rightarrow> TxEntry (restatus st i t) | _ \<Rightarrow> e)"

lemma parseEntry_restatus:
  "parseEntry pb pt st' number i bs = map_result (restatus_entry st' i) (parseEntry pb pt st number i bs)"
  unfolding parseEntry_def restatus_entry_def restatus_def SetStatus_def map_result_def
  by (simp split: sum.splits option.splits result.splits prod.splits)

lemma parseLoop_succeeds:
  assumes "\<forall>(i, bs) \<in> set (enumerate n data). \<exists>e. f i bs = Ok e"
  shows "\<exists>b. parseLoop f n data block = Ok b"
  using assms by (induction f n data block rule: parseLoop.induct) auto

lemma entry_txs_restatus:
  "entry_txs (parseEntry pb pt st' number i bs)
    = map (\<lambda>t. restatus st' (nat (tx_Number t)) t) (entry_txs (parseEntry pb pt st number i bs))"
proof -
  have "nat (tx_Number t) = i" if "parseEntry pb pt st number i bs = Ok (TxEntry t)" for t
    using parseEntry_tx [OF that] by auto
  then show ?thesis
    unfolding parseEntry_restatus [of pb pt st' number i bs st]
    by (auto simp: entry_txs_def restatus_entry_def map_result_def split: result.splits entry.splits)
qed

lemma withFilter_simps [simp]:
  "blk_Header (withFilter pb f b) = blk_Header b" "blk_Data (withFilter pb f b) = blk_Data b"
  "blk_Metadata (withFilter pb f b) = map_option (\<lambda>m. m[TRANSACTIONS_FILTER pb := f]) (blk_Metadata b)"
  by (simp_all add: withFilter_def)

lemma parseBlock_restatus:
  assumes "parseBlock pb pt st now raw = Ok b"
  shows "\<exists>b'. parseBlock pb pt st now' (withFilter pb f raw) = Ok b' \<and> b_Number b' = b_Number b
    \<and> b_Transactions b' = map (\<lambda>t. restatus (st f) (nat (tx_Number t)) t) (b_Transactions b)"
proof -
  from assms obtain h m data where raw: "blk_Header raw = Some h" "blk_Metadata raw = Some m" "blk_Data raw = Some data"
    "TRANSACTIONS_FILTER pb < length m" and loop: "parseLoop (parseEntry pb pt (st (m ! TRANSACTIONS_FILTER pb)) (bh_Number h)) 0 data
       (zero_Block\<lparr>b_Number := bh_Number h, b_Hash := BlockHeaderHash pb h, b_ParentHash := bh_PreviousHash h,
          b_Timestamp := now\<rparr>) = Ok b"
    unfolding parseBlock_def by (auto split: option.splits if_splits)
  note old = parseLoop_closed [OF loop]
  have "\<forall>(i, bs) \<in> set (enumerate 0 data). \<exists>e. parseEntry pb pt (st f) (bh_Number h) i bs = Ok e"
    using old parseEntry_restatus [of pb pt "st f" "bh_Number h" _ _ "st (m ! TRANSACTIONS_FILTER pb)"] by fastforce
  from parseLoop_succeeds [OF this] obtain b' where loop': "parseLoop (parseEntry pb pt (st f) (bh_Number h)) 0 data
      (zero_Block\<lparr>b_Number := bh_Number h, b_Hash := BlockHeaderHash pb h, b_ParentHash := bh_PreviousHash h,
          b_Timestamp := now'\<rparr>) = Ok b'" by blast
  note new = parseLoop_closed [OF loop']
  have "parseBlock pb pt st now' (withFilter pb f raw) = Ok b'"
    using raw loop' by (simp add: parseBlock_def)
  moreover have "b_Transactions b' = map (\<lambda>t. restatus (st f) (nat (tx_Number t)) t) (b_Transactions b)"
    using old new by (simp add: zero_Block_def map_concat comp_def case_prod_unfold
        entry_txs_restatus [of pb pt "st f" "bh_Number h" _ _ "st (m ! TRANSACTIONS_FILTER pb)"])
  ultimately show ?thesis using old new by (auto simp: zero_Block_def)
qed

subsection \<open>What the validator and the scatter loop leave in the filter\<close>

lemma checkCommitted_status:
  "checkCommitted get mv ns rs = (s, r, None) \<Longrightarrow> s \<in> {StatusCommitted, StatusMVCCConflict}"
  by (induction get mv ns rs rule: checkCommitted.induct) (auto simp: Let_def split: sum.splits option.splits if_splits)

lemma checkTx_status: "checkTx l get nss = (s, r, None) \<Longrightarrow> s \<in> {StatusCommitted, StatusMVCCConflict}"
  by (induction l get nss rule: checkTx.induct)
    (auto simp: checkNs_def split: prod.splits option.splits if_splits dest!: checkCommitted_status)

definition marked :: "MVCCValidator \<Rightarrow> Transaction \<Rightarrow> Transaction \<times> u8 \<Rightarrow> bool" where
  "marked l t = (\<lambda>(t', byte). \<exists>s m. s \<in> {StatusCommitted, StatusMVCCConflict} \<and> t' = SetStatus s (codeFor l s) m t
     \<and> 0 \<le> codeFor l s \<and> codeFor l s \<le> 255 \<and> byte = word_of_int (codeFor l s))"

lemma marked_cong: "codeFor l = codeFor l' \<Longrightarrow> marked l = marked l'"
  by (simp add: marked_def fun_eq_iff)

lemma validateLoop_marks:
  assumes "validateLoop l get txs = (txs', flt, None, l')"
  shows "length txs' = length txs \<and> length flt = length txs \<and> codeFor l' = codeFor l \<and> list_all2 (marked l) txs (zip txs' flt)"
  using assms
proof (induction l get txs arbitrary: txs' flt l' rule: validateLoop.induct)
  case (2 l get tx txs)
  obtain s r v where c: "checkTx l get (tx_NsRWS tx) = (s, r, v)" by (rule prod_cases3)
  let ?l = "if s = StatusCommitted then addPending l (tx_NsRWS tx) else l"
  obtain us g e k where rest: "validateLoop ?l get txs = (us, g, e, k)" by (rule prod_cases4)
  from "2.prems" c rest have code: "0 \<le> codeFor l s" "codeFor l s \<le> 255" and v: "v = None" and e: "e = None"
    and out: "txs' = SetStatus s (codeFor l s) r tx # us" "flt = word_of_int (codeFor l s) # g" "l' = k"
    by (auto simp: Let_def split: if_splits option.splits)
  have s: "s \<in> {StatusCommitted, StatusMVCCConflict}" using checkTx_status c v by blast
  have "codeFor ?l = codeFor l" by simp
  with "2.IH" [OF c [symmetric] refl refl] rest e code v
  have IH: "length us = length txs \<and> length g = length txs \<and> codeFor k = codeFor l \<and> list_all2 (marked l) txs (zip us g)"
    by (auto dest: marked_cong)
  have "marked l tx (SetStatus s (codeFor l s) r tx, word_of_int (codeFor l s))"
    unfolding marked_def using s code by blast
  with IH out show ?case by simp
qed simp

lemma scatter_keeps:
  assumes "scatter ss txs f = Ok g" and "int i \<notin> tx_Number ` set txs"
  shows "g ! i = f ! i"
  using assms
proof (induction ss txs f rule: scatter.induct)
  case (3 s ss t txs f)
  then have "i \<noteq> nat (tx_Number t)" by (auto split: if_splits)
  with 3 show ?case by (auto split: if_splits)
qed simp_all

lemma scatter_writes:
  assumes "scatter ss txs f = Ok g" and "distinct (map tx_Number txs)"
  shows "list_all2 (\<lambda>t s. 0 \<le> tx_Number t \<and> tx_Number t < int (length g) \<and> g ! nat (tx_Number t) = char_of (unat s))
    (take (length ss) txs) ss"
  using assms
proof (induction ss txs f rule: scatter.induct)
  case (3 s ss t txs f)
  let ?f = "f[nat (tx_Number t) := char_of (unat s)]"
  from "3.prems"(1) have t: "0 \<le> tx_Number t" "tx_Number t < int (length f)" and sc: "scatter ss txs ?f = Ok g"
    by (auto split: if_splits)
  have "int (nat (tx_Number t)) \<notin> tx_Number ` set txs" using "3.prems"(2) t(1) by simp
  from scatter_keeps [OF sc this] t scatter_length [OF sc] have "g ! nat (tx_Number t) = char_of (unat s)" "length g = length f"
    by (simp_all add: nat_less_iff)
  with "3.IH" sc "3.prems" t show ?case by auto
qed simp_all

subsection \<open>The stored block says what the ledger applied\<close>

text \<open>The part of a transaction that the database sees, and more: all of it but the text of the reason.\<close>

definition unexplained :: "Transaction \<Rightarrow> Transaction" where
  "unexplained t = t\<lparr>tx_Reason := emptyMsg\<rparr>"

definition reads_filter :: "(bytes \<Rightarrow> nat \<Rightarrow> Status \<times> int32 \<times> gomsg) \<Rightarrow> (int32 \<Rightarrow> Status \<times> int32 \<times> gomsg) \<Rightarrow> bool" where
  "reads_filter st fn \<longleftrightarrow> (\<forall>f i. i < length f \<longrightarrow> st f i = fn (of_char (f ! i)))"

definition codes_faithful :: "(int32 \<Rightarrow> Status \<times> int32 \<times> gomsg) \<Rightarrow> MVCCValidator \<Rightarrow> bool" where
  "codes_faithful fn v \<longleftrightarrow> (\<forall>s \<in> {StatusCommitted, StatusMVCCConflict}. \<exists>m. fn (codeFor v s) = (s, codeFor v s, m))"

lemma marked_restatus:
  assumes "marked v t (t', byte)" and "reads_filter st fn" and "codes_faithful fn v"
    and "i < length f" and "f ! i = char_of (unat byte)"
  shows "unexplained (restatus (st f) i t) = unexplained t'"
proof -
  from assms(1) obtain s m where s: "s \<in> {StatusCommitted, StatusMVCCConflict}" "t' = SetStatus s (codeFor v s) m t"
    "0 \<le> codeFor v s" "codeFor v s \<le> 255" "byte = word_of_int (codeFor v s)" by (auto simp: marked_def)
  have "(of_char (f ! i) :: nat) = nat (codeFor v s)"
    using s(3-5) assms(5) by (simp add: of_char_of unsigned_of_int take_bit_int_eq_self nat_less_iff)
  then have "int (of_char (f ! i)) = codeFor v s" using s(3) by simp
  then have "of_char (f ! i) = codeFor v s" by (simp only: of_nat_of_char)
  then have "st f i = fn (codeFor v s)" using assms(2,4) by (simp add: reads_filter_def)
  moreover from assms(3) s(1) obtain m' where "fn (codeFor v s) = (s, codeFor v s, m')" unfolding codes_faithful_def by blast
  ultimately show ?thesis using s(2) by (simp add: unexplained_def restatus_def SetStatus_def)
qed

lemma parseBlock_numbers_distinct:
  assumes "parseBlock pb pt st now raw = Ok b"
  shows "distinct (map tx_Number (b_Transactions b))"
proof -
  let ?g = "\<lambda>i bs. entry_txs (parseEntry pb pt (st (raw_filter pb raw)) (raw_number raw) i bs)"
  have "sorted_wrt (<) (map tx_Number (concat (map (\<lambda>(i, bs). ?g i bs) (enumerate 0 (raw_data raw)))))"
    using sorted_enumerate_concat [of ?g tx_Number 0 "raw_data raw"] entry_txs_number entry_txs_le by blast
  then show ?thesis using parseBlock_closed [OF assms] by (simp add: strict_sorted_iff)
qed


lemma reparse:
  assumes "parseBlock pb pt st now raw = Ok b" and "Validate v get b = (b', flt, None, v')"
    and "scatter flt (b_Transactions b') (raw_filter pb raw) = Ok f"
    and "reads_filter st fn" and "codes_faithful fn v"
  shows "\<exists>b1. parseBlock pb pt st now' (withFilter pb f raw) = Ok b1 \<and> b_Number b1 = b_Number b'
    \<and> map unexplained (b_Transactions b1) = map unexplained (b_Transactions b')"
proof -
  have loop: "validateLoop (v\<lparr>pendingWrites := {}\<rparr>) get (b_Transactions b) = (b_Transactions b', flt, None, v')"
    and num: "b_Number b' = b_Number b"
    using assms(2) by (auto simp: Validate_def split: prod.splits)
  have mk: "marked (v\<lparr>pendingWrites := {}\<rparr>) = marked v" by (rule marked_cong) simp
  note M = validateLoop_marks [OF loop, unfolded mk]
  have len: "length (b_Transactions b') = length (b_Transactions b)" "length flt = length (b_Transactions b)"
    and L: "list_all2 (marked v) (b_Transactions b) (zip (b_Transactions b') flt)" using M by blast+
  have marks: "marked v (b_Transactions b ! i) (b_Transactions b' ! i, flt ! i)" if "i < length (b_Transactions b)" for i
    using list_all2_nthD [OF L that] that len by (simp only: nth_zip)
  have same: "tx_Number (b_Transactions b' ! i) = tx_Number (b_Transactions b ! i)" if "i < length (b_Transactions b)" for i
    using marks [OF that] by (auto simp: marked_def SetStatus_def)
  then have "map tx_Number (b_Transactions b') = map tx_Number (b_Transactions b)"
    using len by (intro nth_equalityI) auto
  then have "distinct (map tx_Number (b_Transactions b'))" using parseBlock_numbers_distinct [OF assms(1)] by simp
  note W = scatter_writes [OF assms(3) this]
  have wr: "0 \<le> tx_Number (b_Transactions b ! i) \<and> tx_Number (b_Transactions b ! i) < int (length f)
      \<and> f ! nat (tx_Number (b_Transactions b ! i)) = char_of (unat (flt ! i))" if "i < length (b_Transactions b)" for i
  proof -
    have l: "take (length flt) (b_Transactions b') = b_Transactions b'" "i < length flt" using len that by simp_all
    from list_all2_nthD2 [OF W l(2)] show ?thesis unfolding l(1) same [OF that] .
  qed
  from parseBlock_restatus [OF assms(1), of now' f] obtain b1 where b1: "parseBlock pb pt st now' (withFilter pb f raw) = Ok b1"
    "b_Number b1 = b_Number b" "b_Transactions b1 = map (\<lambda>t. restatus (st f) (nat (tx_Number t)) t) (b_Transactions b)" by blast
  have "map unexplained (b_Transactions b1) = map unexplained (b_Transactions b')"
    unfolding b1(3) using len marked_restatus [OF marks assms(4,5)] wr
    by (intro nth_equalityI) (auto simp: nat_less_iff)
  with b1(1,2) num show ?thesis by auto
qed

lemma insertBlock_unexplained:
  assumes "b_Number b = b_Number b'" and "map unexplained (b_Transactions b) = map unexplained (b_Transactions b')"
  shows "insertBlock ch b = insertBlock ch b'"
proof -
  define F where "F n = (\<lambda>tx rows.
         if tx_Valid tx then
           for_each (\<lambda>nsrws. for_each (insertWrite ch n tx (ns_Namespace nsrws)) (Writes (ns_RWS nsrws))) (tx_NsRWS tx) rows
         else Inr rows)" for n
  have e: "tx_Number (unexplained t) = tx_Number t" "tx_ID (unexplained t) = tx_ID t" "tx_NsRWS (unexplained t) = tx_NsRWS t"
    "tx_Valid (unexplained t) = tx_Valid t" for t by (simp_all add: unexplained_def tx_Valid_iff)
  have iw: "insertWrite ch n (unexplained t) = insertWrite ch n t" for n t
    unfolding insertWrite_def e ..
  have F: "F n (unexplained t) = F n t" for n t unfolding F_def e iw ..
  have "for_each (F n) (map unexplained ts) rows = for_each (F n) ts rows" for n ts rows
    by (induction ts arbitrary: rows) (simp_all add: F split: sum.splits)
  then have "insertBlock ch c = for_each (F (b_Number c)) (map unexplained (b_Transactions c))" for c
    by (simp add: insertBlock_def F_def fun_eq_iff)
  with assms show ?thesis by simp
qed

lemma UpdateWorldState_unexplained:
  assumes "b_Number b = b_Number b'" and "map unexplained (b_Transactions b) = map unexplained (b_Transactions b')"
  shows "UpdateWorldState db b = UpdateWorldState db b'"
  unfolding UpdateWorldState_def insertBlock_unexplained [OF assms] assms(1) ..

subsection \<open>The chain replays to the ledger's world state\<close>

lemma validateLoop_codes: "validateLoop l get txs = (txs', flt, e, l') \<Longrightarrow> codeFor l' = codeFor l"
  by (induction l get txs arbitrary: txs' flt e l' rule: validateLoop.induct)
    (fastforce simp: Let_def split: prod.splits if_splits option.splits)+

lemma Validate_codes: "Validate l get b = (b', flt, e, l') \<Longrightarrow> codeFor l' = codeFor l"
  by (auto simp: Validate_def split: prod.splits dest!: validateLoop_codes)

lemma validateLoop_versions: "validateLoop l get txs = (txs', flt, e, l') \<Longrightarrow> monotonicVersions l' = monotonicVersions l"
  by (induction l get txs arbitrary: txs' flt rule: validateLoop.induct) (auto simp: addPending_def Let_def split: prod.splits if_splits option.splits)

lemma Validate_versions: "Validate l get b = (b', flt, e, l') \<Longrightarrow> monotonicVersions l' = monotonicVersions l"
  by (auto simp: Validate_def split: prod.splits dest!: validateLoop_versions)

definition kept :: "ledger \<Rightarrow> ledger \<Rightarrow> bool" where
  "kept l l' \<longleftrightarrow> l_blocks l' = l_blocks l \<and> l_db l' = l_db l"

text \<open>What an attempt to add a block leaves: the chain and the world state as they were, or one more block.\<close>

lemma commit_own:
  assumes "l_db l = Some db" and "commit l bl fbl = (l', r)"
  shows "kept l l' \<or> (\<exists>db'. UpdateWorldState db bl = (db', None) \<and> l_db l' = Some db' \<and> l_blocks l' = l_blocks l @ [fbl])"
proof -
  obtain db' e where u: "UpdateWorldState db bl = (db', e)" by (rule prod.exhaust)
  then have "db' = db" if "e \<noteq> None" using that by (auto simp: UpdateWorldState_def split: sum.splits)
  with u assms show ?thesis by (cases e; cases "l_closed l") (auto simp: commit_def kept_def)
qed

lemma commit_frame:
  "commit l bl fbl = (l', r) \<Longrightarrow> l_parser l' = l_parser l \<and> l_validator l' = l_validator l \<and> l_closed l' = l_closed l"
  by (auto simp: commit_def split: option.splits prod.splits)

lemma ledger_process_frame:
  "ledger_process pb lc now ext l env = (l', r) \<Longrightarrow> l_parser l' = l_parser l \<and> codeFor (l_validator l') = codeFor (l_validator l)
    \<and> monotonicVersions (l_validator l') = monotonicVersions (l_validator l) \<and> l_closed l' = l_closed l"
  by (auto simp: ledger_process_def Let_def dest: Validate_codes Validate_versions dest!: commit_frame
      split: option.splits prod.splits result.splits if_splits)

text \<open>Once the database is closed, no block can be added.\<close>

lemma closed_process:
  assumes "l_db l = Some db" and "l_closed l" and "ledger_process pb lc now ext l env = (l', r)"
  shows "kept l l' \<and> r \<noteq> Ok ()"
  using assms by (auto simp: ledger_process_def commit_def kept_def Let_def split: option.splits result.splits prod.splits if_splits)

lemma ledger_process_own:
  assumes "l_db l = Some db" and "ledger_process pb lc now ext l env = (l', r)"
  shows "kept l l' \<or> (\<exists>fbl bl bl' flt v' f db'. raw_number fbl = of_nat (length (l_blocks l)) \<and> l_parser l now fbl = Ok bl
      \<and> Validate (l_validator l) (db_Get db) bl = (bl', flt, None, v')
      \<and> scatter flt (b_Transactions bl') (raw_filter pb fbl) = Ok f
      \<and> UpdateWorldState db bl' = (db', None) \<and> l_db l' = Some db' \<and> l_blocks l' = l_blocks l @ [withFilter pb f fbl])"
proof (cases "l_closed l \<or> nextBlock pb l = None")
  case True
  with assms closed_process [OF assms(1) _ assms(2)] show ?thesis by (auto simp: ledger_process_def kept_def)
next
  case False
  then have open0: "\<not> l_closed l" and "nextBlock pb l \<noteq> None" by simp_all
  then obtain h where h: "nextBlock pb l = Some (of_nat (length (l_blocks l)), h)" by (auto simp: nextBlock_def)
  let ?fbl = "makeBlock lc (of_nat (length (l_blocks l))) h env"
  show ?thesis
  proof (cases "l_parser l now ?fbl")
    case (Ok bl)
    obtain bl' flt e v' where v: "Validate (l_validator l) (db_Get db) bl = (bl', flt, e, v')" by (rule prod_cases4)
    show ?thesis
    proof (cases "e = None \<and> TRANSACTIONS_FILTER pb < 3 \<and> (\<exists>f. scatter flt (b_Transactions bl') (raw_filter pb ?fbl) = Ok f)")
      case True
      then obtain f where f: "scatter flt (b_Transactions bl') (raw_filter pb ?fbl) = Ok f" by blast
      have "commit (l\<lparr>l_validator := v'\<rparr>) bl' (withFilter pb f ?fbl) = (l', r)"
        using assms h Ok v f True open0 by (simp add: ledger_process_def getter_def)
      from commit_own [OF _ this, of db] assms(1) have "kept l l' \<or> (\<exists>db'. UpdateWorldState db bl' = (db', None)
          \<and> l_db l' = Some db' \<and> l_blocks l' = l_blocks l @ [withFilter pb f ?fbl])" by (simp add: kept_def)
      moreover have "Validate (l_validator l) (db_Get db) bl = (bl', flt, None, v')" "raw_number ?fbl = of_nat (length (l_blocks l))"
        using v True by simp_all
      ultimately show ?thesis using Ok f by blast
    next
      case False
      with assms h Ok v open0 show ?thesis
        by (auto simp: ledger_process_def getter_def kept_def Let_def split: option.splits result.splits if_splits)
    qed
  qed (use assms(2) h in \<open>simp_all add: ledger_process_def kept_def\<close>)
qed

definition started :: "string \<Rightarrow> VersionedDB" where
  "started ch = (NewWriteDB ch)\<lparr>channel_progress := [ch \<mapsto> 0]\<rparr>"

definition replicates :: "(int64 \<Rightarrow> pb_Block \<Rightarrow> Block result) \<Rightarrow> string \<Rightarrow> pb_Block list \<Rightarrow> VersionedDB \<Rightarrow> bool" where
  "replicates p ch bs db \<longleftrightarrow> (\<forall>now. \<exists>d. replayed (p now) (NewWriteDB ch) bs = Some d
     \<and> (d = db \<or> length bs = 1 \<and> db = NewWriteDB ch \<and> d = started ch))"

lemma started_step:
  assumes "UpdateWorldState (NewWriteDB ch) b = (db, None)" and "b_Number b = 1"
  shows "UpdateWorldState (started ch) b = (db, None)"
  using assms by (auto simp: UpdateWorldState_def started_def NewWriteDB_def upsertProgress_def bind_u64_def split: sum.splits)

lemma replicates_snoc:
  assumes "replicates (parseBlock pb pt st) ch bs db" and "reads_filter st fn" and "codes_faithful fn v"
    and "raw_number fbl = of_nat (length bs)" and "parseBlock pb pt st now fbl = Ok bl"
    and "Validate v get bl = (bl', flt, None, v')" and "scatter flt (b_Transactions bl') (raw_filter pb fbl) = Ok f"
    and "UpdateWorldState db bl' = (db', None)"
  shows "replicates (parseBlock pb pt st) ch (bs @ [withFilter pb f fbl]) db'"
  unfolding replicates_def
proof
  fix now'
  from assms(1) obtain d where d: "replayed (parseBlock pb pt st now') (NewWriteDB ch) bs = Some d"
    "d = db \<or> length bs = 1 \<and> db = NewWriteDB ch \<and> d = started ch" unfolding replicates_def by blast
  from reparse [OF assms(5-7,2,3), of now'] obtain b1 where b1: "parseBlock pb pt st now' (withFilter pb f fbl) = Ok b1"
    "b_Number b1 = b_Number bl'" "map unexplained (b_Transactions b1) = map unexplained (b_Transactions bl')" by blast
  have n: "b_Number b1 = of_nat (length bs)"
    using parseBlock_closed [OF b1(1)] assms(4) by (simp add: raw_number_def)
  have u: "UpdateWorldState db b1 = (db', None)" using UpdateWorldState_unexplained [OF b1(2,3)] assms(8) by simp
  have "db_Handle d b1 = (db', None)"
  proof (cases "d = db")
    case True
    then show ?thesis using u by (simp add: db_Handle_def)
  next
    case False
    with d(2) have d': "length bs = 1" "db = NewWriteDB ch" "d = started ch" by blast+
    with started_step [of ch b1 db'] u n show ?thesis by (simp add: db_Handle_def)
  qed
  then have "replayed (parseBlock pb pt st now') (NewWriteDB ch) (bs @ [withFilter pb f fbl]) = Some db'"
    using d(1) b1(1) by (simp add: replayed_append)
  then show "\<exists>d. replayed (parseBlock pb pt st now') (NewWriteDB ch) (bs @ [withFilter pb f fbl]) = Some d
     \<and> (d = db' \<or> length (bs @ [withFilter pb f fbl]) = 1 \<and> db' = NewWriteDB ch \<and> d = started ch)" by blast
qed

definition replica_inv :: "protos \<Rightarrow> (pb_Envelope \<Rightarrow> Transaction option result) \<Rightarrow> (bytes \<Rightarrow> nat \<Rightarrow> Status \<times> int32 \<times> gomsg)
    \<Rightarrow> MVCCValidator \<Rightarrow> string \<Rightarrow> ledger \<Rightarrow> bool" where
  "replica_inv pb pt st v ch l \<longleftrightarrow> l_parser l = parseBlock pb pt st \<and> codeFor (l_validator l) = codeFor v
     \<and> monotonicVersions (l_validator l) = monotonicVersions v \<and> \<not> l_closed l
     \<and> (\<exists>db. l_db l = Some db \<and> replicates (parseBlock pb pt st) ch (l_blocks l) db)"

lemma replica_process:
  assumes "reads_filter st fn" and "codes_faithful fn v" and "replica_inv pb pt st v ch l"
  shows "replica_inv pb pt st v ch (fst (ledger_process pb lc now ext l env))"
proof -
  obtain l' r where p: "ledger_process pb lc now ext l env = (l', r)" by (rule prod.exhaust)
  from assms(3) obtain db where l: "l_parser l = parseBlock pb pt st" "codeFor (l_validator l) = codeFor v"
    "monotonicVersions (l_validator l) = monotonicVersions v" "l_db l = Some db" "replicates (parseBlock pb pt st) ch (l_blocks l) db"
    "\<not> l_closed l" unfolding replica_inv_def by blast
  have f: "codes_faithful fn (l_validator l)" using assms(2) l(2) by (simp add: codes_faithful_def)
  from ledger_process_own [OF l(4) p] have "\<exists>db'. l_db l' = Some db' \<and> replicates (parseBlock pb pt st) ch (l_blocks l') db'"
  proof
    assume "kept l l'"
    with l show ?thesis by (simp add: kept_def)
  next
    assume "\<exists>fbl bl bl' flt v' f db'. raw_number fbl = of_nat (length (l_blocks l)) \<and> l_parser l now fbl = Ok bl
      \<and> Validate (l_validator l) (db_Get db) bl = (bl', flt, None, v')
      \<and> scatter flt (b_Transactions bl') (raw_filter pb fbl) = Ok f
      \<and> UpdateWorldState db bl' = (db', None) \<and> l_db l' = Some db' \<and> l_blocks l' = l_blocks l @ [withFilter pb f fbl]"
    then show ?thesis unfolding l(1) using replicates_snoc [OF l(5) assms(1) f] by (elim exE conjE) metis
  qed
  then show ?thesis using ledger_process_frame [OF p] l(1-3,6) p by (simp add: replica_inv_def)
qed

lemma replica_truncate: "replica_inv pb pt st v ch l \<Longrightarrow> replica_inv pb pt st v ch (fst (ledger_truncate num l))"
  by (auto simp: replica_inv_def ledger_truncate_def)

subsection \<open>The genesis block\<close>

definition ledger_codecs_ok :: "protos \<Rightarrow> ledger_protos \<Rightarrow> bool" where
  "ledger_codecs_ok pb lc \<longleftrightarrow> codec_ok (ma_Envelope lc) (um_Envelope pb) \<and> codec_ok (ma_Payload pb) (um_Payload pb)
     \<and> codec_ok (ma_ChannelHeader pb) (um_ChannelHeader pb) \<and> codec_ok (ma_ConfigEnvelope lc) (um_ConfigEnvelope pb)
     \<and> (\<forall>p. ma_Envelope lc \<lparr>env_Payload = p, env_Signature = ''''\<rparr> \<in> range Inr) \<and> (\<forall>c. ma_Config pb c \<in> range Inr)
     \<and> TRANSACTIONS_FILTER pb < 3"

lemma genesis_parses:
  assumes "ledger_codecs_ok pb lc" and "makeGenesisBlock pb lc = Ok g"
  shows "\<exists>b. parseBlock pb pt st now g = Ok b \<and> b_Number b = 0 \<and> b_Transactions b = []"
proof -
  from assms(2) obtain chdr data payload where m: "ma_ChannelHeader pb \<lparr>ch_Type = HeaderType_CONFIG pb, ch_Timestamp = None,
        ch_ChannelId = '''', ch_TxId = '''', ch_Epoch = 0, ch_Extension = ''''\<rparr> = Inr chdr"
      "ma_ConfigEnvelope lc \<lparr>ce_Config = Some \<lparr>cfg_Sequence = 0, cfg_Groups = ''''\<rparr>\<rparr> = Inr data"
      "ma_Payload pb \<lparr>pl_Header = Some \<lparr>hdr_ChannelHeader = chdr, hdr_SignatureHeader = ''''\<rparr>, pl_Data = data\<rparr> = Inr payload"
    and g: "g = makeBlock lc 0 '''' [\<lparr>env_Payload = payload, env_Signature = ''''\<rparr>]"
    by (auto simp: makeGenesisBlock_def MarshalOrPanic_def split: sum.splits)
  from assms(1) obtain env where env: "ma_Envelope lc \<lparr>env_Payload = payload, env_Signature = ''''\<rparr> = Inr env"
    unfolding ledger_codecs_ok_def by blast
  from assms(1) obtain c where c: "ma_Config pb \<lparr>cfg_Sequence = 0, cfg_Groups = ''''\<rparr> = Inr c"
    unfolding ledger_codecs_ok_def by blast
  from assms(1) m env have "um_Envelope pb env = Inr \<lparr>env_Payload = payload, env_Signature = ''''\<rparr>"
    "um_Payload pb payload = Inr \<lparr>pl_Header = Some \<lparr>hdr_ChannelHeader = chdr, hdr_SignatureHeader = ''''\<rparr>, pl_Data = data\<rparr>"
    "um_ChannelHeader pb chdr = Inr \<lparr>ch_Type = HeaderType_CONFIG pb, ch_Timestamp = None,
        ch_ChannelId = '''', ch_TxId = '''', ch_Epoch = 0, ch_Extension = ''''\<rparr>"
    "um_ConfigEnvelope pb data = Inr \<lparr>ce_Config = Some \<lparr>cfg_Sequence = 0, cfg_Groups = ''''\<rparr>\<rparr>"
    unfolding ledger_codecs_ok_def codec_ok_def by blast+
  with assms(1) env c show ?thesis
    by (simp add: parseBlock_def g makeBlock_def parseEntry_def addEntry_def zero_Block_def ledger_codecs_ok_def Let_def)
qed

lemma replica_newLedger:
  assumes "ledger_codecs_ok pb lc" and "newLedger pb lc (Some (NewWriteDB ch)) (parseBlock pb pt st) v = Ok l"
  shows "replica_inv pb pt st v ch l"
proof -
  from assms(2) obtain g where g: "makeGenesisBlock pb lc = Ok g" "l = \<lparr>l_blocks = [g], l_subs = [], l_db = Some (NewWriteDB ch),
      l_parser = parseBlock pb pt st, l_validator = v, l_closed = False\<rparr>" by (auto simp: newLedger_def split: result.splits)
  have "replayed (parseBlock pb pt st now) (NewWriteDB ch) [g] = Some (started ch)" for now
  proof -
    from genesis_parses [OF assms(1) g(1), of pt st now] obtain b where "parseBlock pb pt st now g = Ok b" "b_Number b = 0"
      "b_Transactions b = []" by blast
    then show ?thesis by (simp add: db_Handle_def UpdateWorldState_def insertBlock_def NewWriteDB_def started_def
          upsertProgress_def bind_u64_def)
  qed
  then show ?thesis by (auto simp: replica_inv_def replicates_def g(2))
qed

subsection \<open>The two kinds of network\<close>

lemma fabricx_faithful:
  assumes "committer_codes_ok cc" and "enumerates codes (Status_name cc)"
  shows "codes_faithful (StatusFromCommitterStatus cc) (fabricx_NewMVCCValidator cc codes)"
  unfolding codes_faithful_def
proof
  fix s assume "s \<in> {StatusCommitted, StatusMVCCConflict}"
  with fabricx_codes_defined [OF assms, of s] obtain c where c: "fabricx_CodesByStatus cc codes s = Some c" by auto
  then have "fst (StatusFromCommitterStatus cc c) = s" unfolding fabricx_CodesByStatus_def
    by (rule CodesByStatus_roundtrip) simp
  moreover have "codeFor (fabricx_NewMVCCValidator cc codes) s = c" using c by (simp add: codeFor_def fabricx_NewMVCCValidator_def)
  ultimately show "\<exists>m. StatusFromCommitterStatus cc (codeFor (fabricx_NewMVCCValidator cc codes) s)
      = (s, codeFor (fabricx_NewMVCCValidator cc codes) s, m)"
    by (cases "StatusFromCommitterStatus cc c") (use StatusFrom_rawCode(2) [of cc c] in auto)
qed

lemma fabric_faithful:
  assumes "tx_validation_codes_ok vc" and "enumerates codes (TxValidationCode_name vc)"
  shows "codes_faithful (StatusFromValidationCode vc) (fabric_NewMVCCValidator vc codes)"
  unfolding codes_faithful_def
proof
  fix s assume "s \<in> {StatusCommitted, StatusMVCCConflict}"
  with fabric_codes_defined [OF assms, of s] obtain c where c: "fabric_CodesByStatus vc codes s = Some c" by auto
  then have "fst (StatusFromValidationCode vc c) = s" unfolding fabric_CodesByStatus_def
    by (rule CodesByStatus_roundtrip) simp
  moreover have "codeFor (fabric_NewMVCCValidator vc codes) s = c" using c by (simp add: codeFor_def fabric_NewMVCCValidator_def)
  ultimately show "\<exists>m. StatusFromValidationCode vc (codeFor (fabric_NewMVCCValidator vc codes) s)
      = (s, codeFor (fabric_NewMVCCValidator vc codes) s, m)"
    by (cases "StatusFromValidationCode vc c") (use StatusFrom_rawCode(1) [of vc c] in auto)
qed

lemma parsers_read_filter:
  "reads_filter (fabricx_statusForTx cc) (StatusFromCommitterStatus cc)"
  "reads_filter (fabric_statusForTx vc) (StatusFromValidationCode vc)"
  by (simp_all add: reads_filter_def fabricx_statusForTx_def fabric_statusForTx_def)

lemma own_ledger_inv:
  assumes "reads_filter st fn" and "codes_faithful fn v" and "ledger_codecs_ok pb lc"
    and "newLedger pb lc (Some (NewWriteDB ch)) (parseBlock pb pt st) v = Ok l"
    and "(orderer_step pb lc cfg)\<^sup>*\<^sup>* (newTestOrderer l) ord"
  shows "replica_inv pb pt st v ch (o_ledger ord)"
proof (rule orderer_ledger_invariant [OF assms(5)])
  show "replica_inv pb pt st v ch (o_ledger (newTestOrderer l))"
    using replica_newLedger [OF assms(3,4)] by (simp add: newTestOrderer_def)
  show "replica_inv pb pt st v ch (fst (subscribe l))" if "replica_inv pb pt st v ch l" for l
    using that by (simp add: replica_inv_def subscribe_def)
qed (rule replica_process [OF assms(1,2)] replica_truncate; assumption)+

lemma own_ledger_replicates:
  assumes "reads_filter st fn" and "codes_faithful fn v" and "ledger_codecs_ok pb lc"
    and "newLedger pb lc (Some (NewWriteDB ch)) (parseBlock pb pt st) v = Ok l"
    and "(orderer_step pb lc cfg)\<^sup>*\<^sup>* (newTestOrderer l) ord"
  shows "\<exists>db. l_db (o_ledger ord) = Some db \<and> replicates (parseBlock pb pt st) ch (l_blocks (o_ledger ord)) db"
  using own_ledger_inv [OF assms] by (simp add: replica_inv_def)

subsection \<open>Starting a network (fabrictest/network.go)\<close>

text \<open>
  \<open>netListen\<close> is \<open>net.Listen\<close> on the local host: the address that is bound, given the addresses that are bound
  already. What \<open>Start\<close> leaves bound is part of its result. A network that is stopped has its servers stopped and
  the channel that ends the loop closed; closing a closed channel panics.
\<close>

record Network =
  n_OrdererPort :: int64
  n_PeerPort :: int64
  n_orderer :: testOrderer
  n_serving :: bool
  n_stopped :: bool

definition localAddr :: "int64 \<Rightarrow> string" where
  "localAddr port = ''127.0.0.1:'' @ decimal port"

definition listen :: "(string list \<Rightarrow> string \<Rightarrow> string res) \<Rightarrow> int64 \<Rightarrow> string list \<Rightarrow> string list \<times> int64 res" where
  "listen netListen port bound =
     (case netListen bound (localAddr port) of
        Inl err \<Rightarrow> (bound, Inl err)
      | Inr addr \<Rightarrow>
          (case SplitHostPort addr of
             Inl err \<Rightarrow> (bound, Inl err)
           | Inr (_, actualPort) \<Rightarrow>
               (case Atoi actualPort of Inl err \<Rightarrow> (bound, Inl err) | Inr p \<Rightarrow> (addr # bound, Inr p))))"

definition networkKind :: "protos \<Rightarrow> tx_validation_codes \<Rightarrow> int32 list \<Rightarrow> committer_codes \<Rightarrow> int32 list \<Rightarrow> string
    \<Rightarrow> ((int64 \<Rightarrow> pb_Block \<Rightarrow> Block result) \<times> MVCCValidator) option" where
  "networkKind pb vc fcodes cc xcodes networkType =
     (if networkType = ''fabric'' then Some (fabric_Parse pb vc, fabric_NewMVCCValidator vc fcodes)
      else if networkType = ''fabric-x'' then Some (fabricx_Parse pb cc, fabricx_NewMVCCValidator cc xcodes)
      else None)"

definition Start :: "(string list \<Rightarrow> string \<Rightarrow> string res) \<Rightarrow> protos \<Rightarrow> ledger_protos \<Rightarrow> tx_validation_codes \<Rightarrow> int32 list
    \<Rightarrow> committer_codes \<Rightarrow> int32 list \<Rightarrow> string \<Rightarrow> orderer_config \<Rightarrow> bool \<Rightarrow> string list \<Rightarrow> string list \<times> Network result" where
  "Start netListen pb lc vc fcodes cc xcodes networkType cfg external bound =
     (let db = (if external then None else Some (NewWriteDB ''mychannel'')) in
      case networkKind pb vc fcodes cc xcodes networkType of
        None \<Rightarrow> (bound, Err (Msg ''networkType must be fabric or fabric-x'' []))
      | Some (p, v) \<Rightarrow>
          (case listen netListen (OrdererPort cfg) bound of (bound1, Inl err) \<Rightarrow> (bound1, Err err) | (bound1, Inr oPort) \<Rightarrow>
          (case listen netListen (OrdererPort cfg) bound1 of (bound2, Inl err) \<Rightarrow> (bound2, Err err) | (bound2, Inr pPort) \<Rightarrow>
             (bound2, map_result (\<lambda>l. \<lparr>n_OrdererPort = oPort, n_PeerPort = pPort, n_orderer = newTestOrderer l,
                n_serving = True, n_stopped = False\<rparr>) (newLedger pb lc db p v)))))"

definition CutBlock :: "orderer_config \<Rightarrow> (ledger \<Rightarrow> pb_Envelope list \<Rightarrow> ledger \<times> unit result) \<Rightarrow> handoff \<Rightarrow> goerror
    \<Rightarrow> Network \<Rightarrow> (Network \<times> goerror option) result" where
  "CutBlock cfg process h ctxErr n =
     map_result (\<lambda>(ord, err). (n\<lparr>n_orderer := ord\<rparr>, err)) (cutBlock cfg process h ctxErr (n_orderer n))"

definition Revert :: "orderer_config \<Rightarrow> (ledger \<Rightarrow> pb_Envelope list \<Rightarrow> ledger \<times> unit result) \<Rightarrow> u64 \<Rightarrow> handoff \<Rightarrow> goerror
    \<Rightarrow> Network \<Rightarrow> (Network \<times> goerror option) result" where
  "Revert cfg process num h ctxErr n =
     map_result (\<lambda>(ord, err). (n\<lparr>n_orderer := ord\<rparr>, err)) (revert cfg process num h ctxErr (n_orderer n))"

text \<open>\<open>Stop\<close>; \<open>Start\<close> also calls it when its context ends.\<close>

definition Stop :: "Network \<Rightarrow> Network \<times> unit result" where
  "Stop n =
     (if n_stopped n then (n\<lparr>n_serving := False\<rparr>, Panic)
      else (n\<lparr>n_serving := False, n_stopped := True,
              n_orderer := (n_orderer n)\<lparr>o_ledger := ledger_close (o_ledger (n_orderer n))\<rparr>\<rparr>, Ok ()))"

lemma Start_ledger:
  assumes "networkKind pb vc fcodes cc xcodes networkType = Some (p, v)"
    and "Start netListen pb lc vc fcodes cc xcodes networkType cfg False bound = (bound', Ok n)"
  obtains l where "newLedger pb lc (Some (NewWriteDB ''mychannel'')) p v = Ok l" "n_orderer n = newTestOrderer l"
  using assms by (auto simp: Start_def Let_def split: prod.splits sum.splits)

text \<open>
  C7: A replica of the test network has the network's world state. Take a network, Fabric or Fabric-X, with its
  own database, in any state its orderer can reach. Replaying the blocks of its chain from genesis into an empty
  database, with the parser a client uses and at any time, succeeds and gives exactly the rows of the network's
  own database, and also its progress once there is a block besides genesis. So the statuses that the validator
  decided reach the followers through the filter bytes, at the right positions, although the parser drops
  config and malformed envelopes.
\<close>

theorem test_network_replica:
  assumes "ledger_codecs_ok pb lc"
    and "committer_codes_ok cc" and "enumerates xcodes (Status_name cc)"
    and "tx_validation_codes_ok vc" and "enumerates fcodes (TxValidationCode_name vc)"
    and "networkKind pb vc fcodes cc xcodes networkType = Some (p, v)"
    and "Start netListen pb lc vc fcodes cc xcodes networkType cfg False bound = (bound', Ok n)"
    and "(orderer_step pb lc cfg)\<^sup>*\<^sup>* (n_orderer n) ord"
  shows "\<exists>db replica. l_db (o_ledger ord) = Some db
    \<and> replayed (p now) (NewWriteDB ''mychannel'') (l_blocks (o_ledger ord)) = Some replica
    \<and> worldstate replica = worldstate db \<and> (length (l_blocks (o_ledger ord)) > 1 \<longrightarrow> replica = db)"
proof -
  obtain l where l: "newLedger pb lc (Some (NewWriteDB ''mychannel'')) p v = Ok l" "n_orderer n = newTestOrderer l"
    by (rule Start_ledger [OF assms(6,7)])
  note steps = assms(8) [unfolded l(2)]
  from assms(6) consider "p = fabricx_Parse pb cc" "v = fabricx_NewMVCCValidator cc xcodes"
    | "p = fabric_Parse pb vc" "v = fabric_NewMVCCValidator vc fcodes" by (auto simp: networkKind_def split: if_splits)
  then have "\<exists>db. l_db (o_ledger ord) = Some db \<and> replicates p ''mychannel'' (l_blocks (o_ledger ord)) db"
  proof cases
    case 1
    with own_ledger_replicates [OF parsers_read_filter(1) fabricx_faithful [OF assms(2,3)] assms(1) _ steps,
        of "''mychannel''" "fabricx_ParseTx pb"] l(1) show ?thesis by (simp add: fabricx_Parse_def)
  next
    case 2
    with own_ledger_replicates [OF parsers_read_filter(2) fabric_faithful [OF assms(4,5)] assms(1) _ steps,
        of "''mychannel''" "fabric_ParseTx pb"] l(1) show ?thesis by (simp add: fabric_Parse_def)
  qed
  then show ?thesis unfolding replicates_def started_def NewWriteDB_def by fastforce
qed

lemma localAddr_split: "SplitHostPort (localAddr port) = Inr (''127.0.0.1'', decimal port)"
  by (rule SplitHostPort_joined) (simp add: joined_def localAddr_def decimal_plain, simp add: plain_def)

lemma listen_fixed:
  assumes "\<And>addr. netListen bound (localAddr port) = Inr addr \<Longrightarrow> addr = localAddr port"
    and "listen netListen port bound = (bound', Inr p)"
  shows "bound' = localAddr port # bound"
  using assms by (auto simp: listen_def split: sum.splits prod.splits)

text \<open>
  A network cannot be started on a fixed orderer port, and the configured peer port has no effect: \<open>Start\<close>
  listens for the peer on the orderer's port too. On a host where a bound address cannot be bound again, it fails
  for every configuration with an orderer port, whatever the peer port is. The listener of the orderer is not
  closed on this way out: if the port was free, it is bound afterwards, and listening on it fails from then on.
\<close>

theorem Start_fixed_port:
  assumes "\<And>bound addr. addr \<in> set bound \<Longrightarrow> \<exists>err. netListen bound addr = Inl err"
    and "\<And>bound port addr. netListen bound (localAddr port) = Inr addr \<Longrightarrow> port = 0 \<or> addr = localAddr port"
    and "OrdererPort cfg \<noteq> 0" and "- (2 ^ 63) \<le> OrdererPort cfg \<and> OrdererPort cfg < 2 ^ 63"
    and "Start netListen pb lc vc fcodes cc xcodes networkType cfg external bound = (bound', r)"
  shows "Start netListen pb lc vc fcodes cc xcodes networkType (cfg\<lparr>PeerPort := q\<rparr>) external bound = (bound', r) \<and> (\<forall>n. r \<noteq> Ok n)
    \<and> (networkKind pb vc fcodes cc xcodes networkType \<noteq> None \<and> netListen bound (localAddr (OrdererPort cfg)) = Inr addr
       \<longrightarrow> bound' = localAddr (OrdererPort cfg) # bound \<and> (\<exists>err. listen netListen (OrdererPort cfg) bound' = (bound', Inl err)))"
proof (intro conjI impI)
  let ?p = "OrdererPort cfg"
  have taken: "\<exists>err. listen netListen ?p (localAddr ?p # bs) = (localAddr ?p # bs, Inl err)" for bs
    using assms(1) [of "localAddr ?p" "localAddr ?p # bs"] by (auto simp: listen_def)
  have e: "OrdererPort (cfg\<lparr>PeerPort := q\<rparr>) = ?p" by simp
  show "Start netListen pb lc vc fcodes cc xcodes networkType (cfg\<lparr>PeerPort := q\<rparr>) external bound = (bound', r)"
    using assms(5) unfolding Start_def e .
  have twice: "\<exists>err. listen netListen ?p b1 = (b1, Inl err)" if "listen netListen ?p bound = (b1, Inr p)" for b1 p
  proof -
    have "b1 = localAddr ?p # bound" by (rule listen_fixed [OF _ that]) (use assms(2,3) in blast)
    with taken show ?thesis by blast
  qed
  show "\<forall>n. r \<noteq> Ok n"
  proof (cases "networkKind pb vc fcodes cc xcodes networkType")
    case (Some k)
    obtain b1 x where l: "listen netListen ?p bound = (b1, x)" by fastforce
    show ?thesis
    proof (cases x)
      case (Inr oPort)
      with l twice obtain err where "listen netListen ?p b1 = (b1, Inl err)" by blast
      with assms(5) Some l Inr show ?thesis by (cases k) (auto simp: Start_def)
    qed (use assms(5) Some l in \<open>cases k; auto simp: Start_def\<close>)
  qed (use assms(5) in \<open>auto simp: Start_def\<close>)
  assume k: "networkKind pb vc fcodes cc xcodes networkType \<noteq> None \<and> netListen bound (localAddr ?p) = Inr addr"
  with assms(2) [of bound ?p addr] assms(3) have "addr = localAddr ?p" by blast
  then have l: "listen netListen ?p bound = (localAddr ?p # bound, Inr ?p)"
    using k Atoi_decimal [of ?p] assms(4) by (simp add: listen_def localAddr_split)
  from taken [of bound] obtain err where err: "listen netListen ?p (localAddr ?p # bound) = (localAddr ?p # bound, Inl err)" by blast
  from k obtain p v where "networkKind pb vc fcodes cc xcodes networkType = Some (p, v)" by auto
  with assms(5) l err show "bound' = localAddr ?p # bound" by (simp add: Start_def)
  with err show "\<exists>err. listen netListen ?p bound' = (bound', Inl err)" by blast
qed

subsection \<open>Stopping a network\<close>

lemma flush_closed:
  assumes "l_db (o_ledger ord) \<noteq> None" and "l_closed (o_ledger ord)" and "o_batch ord \<noteq> []"
  shows "flush (ledger_process pb lc now ext) ord = Panic"
proof -
  obtain l' r where p: "ledger_process pb lc now ext (o_ledger ord) (o_batch ord) = (l', r)" by (rule prod.exhaust)
  from assms(1) obtain db where db: "l_db (o_ledger ord) = Some db" by auto
  from closed_process [OF db assms(2) p] have "r \<noteq> Ok ()" ..
  with assms(3) p show ?thesis by (cases r) (auto simp: flush_def)
qed

text \<open>
  C39: Stopping a network is not safe. \<open>Start\<close> stops the network when its context ends, and a caller can stop it
  before that with \<open>Stop\<close>: the second of the two calls panics, since it closes a closed channel. And the loop is
  only told to stop, while the database is closed at once: if envelopes wait in its channel, its next iteration
  may take one of them, and with blocks that are cut at once, or for a batch that the timer cuts, it panics.
\<close>

theorem Stop_unsafe:
  assumes "Stop n = (n', Ok ())"
  shows "snd (Stop n') = Panic \<and> l_subs (o_ledger (n_orderer n')) = []
    \<and> (l_db (o_ledger (n_orderer n)) \<noteq> None \<longrightarrow>
        (BlockCutTime cfg = 0 \<longrightarrow> batchingStep cfg (ledger_process pb lc now ext) (InCh env) (n_orderer n') = Panic)
        \<and> (o_batch (n_orderer n) \<noteq> [] \<longrightarrow> batchingStep cfg (ledger_process pb lc now ext) TimerC (n_orderer n') = Panic))"
proof -
  let ?ord = "n_orderer n"
  from assms have n': "n_stopped n'" "n_orderer n' = ?ord\<lparr>o_ledger := ledger_close (o_ledger ?ord)\<rparr>"
    by (auto simp: Stop_def split: if_splits)
  then show ?thesis by (auto simp: Stop_def batchingStep_def Let_def ledger_close_def flush_closed)
qed

subsection \<open>Witnesses\<close>

text \<open>A network that cuts blocks of two envelopes, the first of which no parser can read.\<close>

definition net_header :: pb_ChannelHeader where
  "net_header = \<lparr>ch_Type = 1, ch_Timestamp = None, ch_ChannelId = '''', ch_TxId = '''', ch_Epoch = 0, ch_Extension = ''''\<rparr>"

definition net_payload :: pb_Payload where
  "net_payload = \<lparr>pl_Header = Some \<lparr>hdr_ChannelHeader = ''gchdr'', hdr_SignatureHeader = ''''\<rparr>, pl_Data = ''gcfg''\<rparr>"

definition net_config :: pb_ConfigEnvelope where
  "net_config = \<lparr>ce_Config = Some \<lparr>cfg_Sequence = 0, cfg_Groups = ''''\<rparr>\<rparr>"

definition net_tx :: pb_Tx where
  "net_tx = \<lparr>xtx_Metadata = [], xtx_Namespaces = [\<lparr>txn_NsId = ''ns'', txn_NsVersion = 0, txn_ReadsOnly = [], txn_ReadWrites = [],
     txn_BlindWrites = [\<lparr>pw_Key = ''k'', pw_Value = ''v''\<rparr>]\<rparr>], xtx_Endorsements = []\<rparr>"

definition net_pb :: protos where
  "net_pb = sample_pb\<lparr>um_Envelope := (\<lambda>b. Inr \<lparr>env_Payload = b, env_Signature = ''''\<rparr>),
     ma_Payload := marshal_only net_payload ''gpl'', um_Payload := pick [(''gpl'', net_payload), (''pl'', sample_payload)],
     ma_ChannelHeader := marshal_only net_header ''gchdr'',
     um_ChannelHeader := pick [(''gchdr'', net_header), (''chdr'', sample_channel_header)],
     um_ConfigEnvelope := unmarshal_only net_config ''gcfg'', um_Tx := (\<lambda>_. Inr net_tx)\<rparr>"

definition net_lc :: ledger_protos where
  "net_lc = \<lparr>ma_Envelope = (\<lambda>e. if env_Signature e = '''' then Inr (env_Payload e) else Inl (Msg ''marshal'' [])),
     ma_ConfigEnvelope = marshal_only net_config ''gcfg'', ComputeBlockDataHash = concat\<rparr>"

definition net_cfg :: orderer_config where
  "net_cfg = \<lparr>BlockCutTime = 1, MaxTxPerBlock = 2, OrdererPort = 0, PeerPort = 0\<rparr>"

definition net_send :: "string \<Rightarrow> testOrderer \<Rightarrow> testOrderer result" where
  "net_send payload ord = map_result fst (batchingStep net_cfg (ledger_process net_pb net_lc 0 (\<lambda>_ _. Inr None))
     (InCh \<lparr>env_Payload = payload, env_Signature = ''''\<rparr>) ord)"

definition net_run :: "testOrderer \<Rightarrow> testOrderer result" where
  "net_run ord = (case net_send ''junk'' ord of Ok ord' \<Rightarrow> net_send ''pl'' ord' | r \<Rightarrow> r)"

definition net_start :: "ledger result" where
  "net_start = newLedger net_pb net_lc (Some (NewWriteDB ''mychannel'')) (fabricx_Parse net_pb sample_committer_codes)
     (fabricx_NewMVCCValidator sample_committer_codes [0, 1, 3])"

lemma net_result:
  "(case net_start of Ok l \<Rightarrow> (case net_run (newTestOrderer l) of
      Ok ord \<Rightarrow> length (l_blocks (o_ledger ord)) = 2
        \<and> map_option (\<lambda>db. map row_key (worldstate db)) (l_db (o_ledger ord)) = Some [''k'']
    | _ \<Rightarrow> False) | _ \<Rightarrow> False)"
  by code_simp


lemma net_steps:
  assumes "net_run ord = Ok ord'"
  shows "(orderer_step net_pb net_lc net_cfg)\<^sup>*\<^sup>* ord ord'"
proof -
  have s: "orderer_step net_pb net_lc net_cfg a b" if "net_send x a = Ok b" for x a b
    using that orderer_step.event [of net_cfg net_pb net_lc 0 "\<lambda>_ _. Inr None" "InCh \<lparr>env_Payload = x, env_Signature = ''''\<rparr>" a b]
    by (auto simp: net_send_def)
  from assms obtain mid where "net_send ''junk'' ord = Ok mid" "net_send ''pl'' mid = Ok ord'"
    by (auto simp: net_run_def split: result.splits)
  from s [OF this(1)] s [OF this(2)] show ?thesis by (simp add: converse_rtranclp_into_rtranclp)
qed

lemma net_obtain:
  obtains l ord where "newLedger net_pb net_lc (Some (NewWriteDB ''mychannel'')) (fabricx_Parse net_pb sample_committer_codes)
      (fabricx_NewMVCCValidator sample_committer_codes [0, 1, 3]) = Ok l"
    "(orderer_step net_pb net_lc net_cfg)\<^sup>*\<^sup>* (newTestOrderer l) ord" "length (l_blocks (o_ledger ord)) = 2"
    "map_option (\<lambda>db. map row_key (worldstate db)) (l_db (o_ledger ord)) = Some [''k'']"
proof -
  from net_result obtain l ord where "net_start = Ok l" "net_run (newTestOrderer l) = Ok ord" "length (l_blocks (o_ledger ord)) = 2"
    "map_option (\<lambda>db. map row_key (worldstate db)) (l_db (o_ledger ord)) = Some [''k'']"
    by (auto split: result.splits)
  then show thesis using net_steps by (intro that [of l ord]) (simp_all add: net_start_def)
qed

lemma net_codecs: "ledger_codecs_ok net_pb net_lc"
proof -
  have "codec_ok (ma_Envelope net_lc) (um_Envelope net_pb)" by (auto simp: codec_ok_def net_lc_def net_pb_def split: if_splits)
  moreover have "codec_ok (ma_Payload net_pb) (um_Payload net_pb)" "codec_ok (ma_ChannelHeader net_pb) (um_ChannelHeader net_pb)"
    "codec_ok (ma_ConfigEnvelope net_lc) (um_ConfigEnvelope net_pb)"
    by (auto simp: codec_ok_def net_lc_def net_pb_def marshal_only_def unmarshal_only_def split: if_splits)
  ultimately show ?thesis by (auto simp: ledger_codecs_ok_def net_lc_def net_pb_def sample_pb_defs)
qed

lemma net_codes:
  "committer_codes_ok sample_committer_codes" "enumerates [0, 1, 3] (Status_name sample_committer_codes)"
  "tx_validation_codes_ok sample_validation_codes" "enumerates [0, 11, 254] (TxValidationCode_name sample_validation_codes)"
  by (auto simp: committer_codes_ok_def sample_committer_codes_def tx_validation_codes_ok_def sample_validation_codes_def enumerates_def)

theorem ledger_linked_witness:
  "\<exists>l ord. newLedger net_pb net_lc (Some (NewWriteDB ''mychannel'')) (fabricx_Parse net_pb sample_committer_codes)
      (fabricx_NewMVCCValidator sample_committer_codes [0, 1, 3]) = Ok l
    \<and> (orderer_step net_pb net_lc net_cfg)\<^sup>*\<^sup>* (newTestOrderer l) ord \<and> length (l_blocks (o_ledger ord)) = 2
    \<and> linked net_pb net_lc (l_blocks (o_ledger ord))"
proof -
  obtain l ord where n: "newLedger net_pb net_lc (Some (NewWriteDB ''mychannel'')) (fabricx_Parse net_pb sample_committer_codes)
      (fabricx_NewMVCCValidator sample_committer_codes [0, 1, 3]) = Ok l"
    "(orderer_step net_pb net_lc net_cfg)\<^sup>*\<^sup>* (newTestOrderer l) ord" "length (l_blocks (o_ledger ord)) = 2"
    by (rule net_obtain)
  have "TRANSACTIONS_FILTER net_pb = 2" by (simp add: net_pb_def)
  from ledger_linked [OF this n(1,2)] n show ?thesis by blast
qed

definition net_listen :: "string list \<Rightarrow> string \<Rightarrow> string res" where
  "net_listen bound addr =
     (if addr \<in> set bound then Inl (Msg ''address already in use'' [])
      else Inr (if addr = localAddr 0 then localAddr (7050 + int (length bound)) else addr))"

lemma localAddr_inj: "localAddr i = localAddr j \<longleftrightarrow> i = j"
  by (simp add: localAddr_def decimal_inj)

lemma net_listen_ports:
  "listen net_listen 0 [] = ([localAddr 7050], Inr 7050)"
  "listen net_listen 0 [localAddr 7050] = ([localAddr 7051, localAddr 7050], Inr 7051)"
  by (simp_all add: listen_def net_listen_def localAddr_split localAddr_inj Atoi_decimal)

definition net_network :: "ledger \<Rightarrow> Network" where
  "net_network l = \<lparr>n_OrdererPort = 7050, n_PeerPort = 7051, n_orderer = newTestOrderer l, n_serving = True, n_stopped = False\<rparr>"

lemma net_kind: "networkKind net_pb sample_validation_codes [0, 11, 254] sample_committer_codes [0, 1, 3] ''fabric-x''
      = Some (fabricx_Parse net_pb sample_committer_codes, fabricx_NewMVCCValidator sample_committer_codes [0, 1, 3])"
  by (simp add: networkKind_def)

lemma net_Start:
  assumes "newLedger net_pb net_lc (Some (NewWriteDB ''mychannel'')) (fabricx_Parse net_pb sample_committer_codes)
      (fabricx_NewMVCCValidator sample_committer_codes [0, 1, 3]) = Ok l"
  shows "Start net_listen net_pb net_lc sample_validation_codes [0, 11, 254] sample_committer_codes [0, 1, 3]
      ''fabric-x'' net_cfg False [] = ([localAddr 7051, localAddr 7050], Ok (net_network l))"
  using assms by (simp add: Start_def net_kind net_listen_ports net_cfg_def net_network_def)

theorem test_network_replica_witness:
  "\<exists>bound n ord db. Start net_listen net_pb net_lc sample_validation_codes [0, 11, 254] sample_committer_codes [0, 1, 3]
      ''fabric-x'' net_cfg False [] = (bound, Ok n)
    \<and> (orderer_step net_pb net_lc net_cfg)\<^sup>*\<^sup>* (n_orderer n) ord
    \<and> map row_key (worldstate db) = [''k'']
    \<and> replayed (fabricx_Parse net_pb sample_committer_codes 5) (NewWriteDB ''mychannel'') (l_blocks (o_ledger ord)) = Some db"
proof -
  obtain l ord where n: "newLedger net_pb net_lc (Some (NewWriteDB ''mychannel'')) (fabricx_Parse net_pb sample_committer_codes)
      (fabricx_NewMVCCValidator sample_committer_codes [0, 1, 3]) = Ok l"
    "(orderer_step net_pb net_lc net_cfg)\<^sup>*\<^sup>* (newTestOrderer l) ord" "length (l_blocks (o_ledger ord)) = 2"
    "map_option (\<lambda>db. map row_key (worldstate db)) (l_db (o_ledger ord)) = Some [''k'']"
    by (rule net_obtain)
  note s = net_Start [OF n(1)]
  have st: "(orderer_step net_pb net_lc net_cfg)\<^sup>*\<^sup>* (n_orderer (net_network l)) ord" using n(2) by (simp add: net_network_def)
  from test_network_replica [OF net_codecs net_codes net_kind s st, of 5] n(3,4) obtain db where
    "l_db (o_ledger ord) = Some db"
    "replayed (fabricx_Parse net_pb sample_committer_codes 5) (NewWriteDB ''mychannel'') (l_blocks (o_ledger ord)) = Some db"
    by auto
  with n(4) s st show ?thesis by auto
qed

theorem Start_fixed_port_witness:
  "\<exists>err. Start net_listen net_pb net_lc sample_validation_codes [0, 11, 254] sample_committer_codes [0, 1, 3]
      ''fabric-x'' (net_cfg\<lparr>OrdererPort := 7050, PeerPort := 7051\<rparr>) False [] = ([localAddr 7050], Err err)"
proof -
  let ?cfg = "net_cfg\<lparr>OrdererPort := 7050, PeerPort := 7051\<rparr>"
  obtain bound r where s: "Start net_listen net_pb net_lc sample_validation_codes [0, 11, 254] sample_committer_codes [0, 1, 3]
      ''fabric-x'' ?cfg False [] = (bound, r)" by fastforce
  have "\<exists>err. net_listen bound addr = Inl err" if "addr \<in> set bound" for bound addr using that by (simp add: net_listen_def)
  moreover have "port = 0 \<or> addr = localAddr port" if "net_listen bound (localAddr port) = Inr addr" for bound port addr
    using that by (auto simp: net_listen_def localAddr_inj split: if_splits)
  moreover have "net_listen [] (localAddr 7050) = Inr (localAddr 7050)" by (simp add: net_listen_def localAddr_inj)
  ultimately have "bound = [localAddr 7050] \<and> (\<forall>n. r \<noteq> Ok n)"
    using Start_fixed_port [of net_listen ?cfg net_pb net_lc sample_validation_codes "[0, 11, 254]" sample_committer_codes
        "[0, 1, 3]" "''fabric-x''" False "[]" bound r 0 "localAddr 7050"] s net_kind by simp
  moreover have "r \<noteq> Panic" using s by (auto simp: Start_def net_kind listen_def net_listen_def localAddr_inj localAddr_split Atoi_decimal split: if_splits)
  ultimately show ?thesis using s by (cases r) auto
qed

theorem Stop_unsafe_witness:
  "\<exists>l n'. net_start = Ok l \<and> Stop (net_network l) = (n', Ok ()) \<and> snd (Stop n') = Panic
     \<and> batchingStep (net_cfg\<lparr>BlockCutTime := 0\<rparr>) (ledger_process net_pb net_lc 0 (\<lambda>_ _. Inr None))
         (InCh \<lparr>env_Payload = ''pl'', env_Signature = ''''\<rparr>) (n_orderer n') = Panic"
proof -
  from net_result obtain l where l: "net_start = Ok l" by (auto split: result.splits)
  then have db: "l_db (o_ledger (n_orderer (net_network l))) \<noteq> None"
    by (auto simp: net_start_def newLedger_def net_network_def newTestOrderer_def split: result.splits)
  obtain n' where s: "Stop (net_network l) = (n', Ok ())" by (simp add: Stop_def net_network_def)
  from Stop_unsafe [OF s, of "net_cfg\<lparr>BlockCutTime := 0\<rparr>" net_pb net_lc 0 "\<lambda>_ _. Inr None"] db l s show ?thesis by auto
qed

theorem orderer_batches_witness:
  "\<exists>l ord. newLedger net_pb net_lc (Some (NewWriteDB ''mychannel'')) (fabricx_Parse net_pb sample_committer_codes)
      (fabricx_NewMVCCValidator sample_committer_codes [0, 1, 3]) = Ok l
    \<and> (orderer_step net_pb net_lc net_cfg)\<^sup>*\<^sup>* (newTestOrderer l) ord \<and> length (l_blocks (o_ledger ord)) = 2
    \<and> length (o_batch ord) < 2"
proof -
  obtain l ord where n: "newLedger net_pb net_lc (Some (NewWriteDB ''mychannel'')) (fabricx_Parse net_pb sample_committer_codes)
      (fabricx_NewMVCCValidator sample_committer_codes [0, 1, 3]) = Ok l"
    "(orderer_step net_pb net_lc net_cfg)\<^sup>*\<^sup>* (newTestOrderer l) ord" "length (l_blocks (o_ledger ord)) = 2"
    by (rule net_obtain)
  with orderer_batches [OF _ n(1,2)] have "length (o_batch ord) < 2" by (simp add: net_cfg_def)
  with n show ?thesis by blast
qed

end
