(* ===== verification/Endorsement.thy ===== *)
theory Endorsement
  imports Sample_Protos
begin

section \<open>Invocations and endorsements (endorsement/)\<close>

text \<open>
  From an invocation to a signed proposal response, in the Fabric format and in the Fabric-X format.
  The signer is an argument; the random nonce, the clock and the orders in which Go ranges over maps
  are too. Instants are nanoseconds since the epoch.
\<close>

subsection \<open>Invocations and results (endorsement/proposal.go)\<close>

record Invocation =
  inv_TxID :: string
  inv_Nonce :: bytes
  inv_Creator :: bytes
  inv_Args :: "bytes list"
  inv_Namespace :: string
  inv_ChaincodeVersion :: string
  inv_NsVersion :: u64
  inv_Channel :: string
  inv_Proposal :: pb_Proposal
  inv_ProposalHash :: bytes

record ExecutionResult =
  er_RWS :: ReadWriteSet
  er_Event :: bytes
  er_EventName :: string
  er_Status :: int32
  er_Message :: string
  er_Payload :: bytes

definition ErrMissingEventName :: goerror where
  "ErrMissingEventName = Msg ''event name is required when an event is set'' []"

definition er_Validate :: "ExecutionResult \<Rightarrow> goerror option" where
  "er_Validate res =
     (if length (er_Event res) > 0 \<and> er_EventName res = '''' then Some ErrMissingEventName else None)"

definition er_Response :: "ExecutionResult \<Rightarrow> pb_Response" where
  "er_Response res = \<lparr>rsp_Status = er_Status res, rsp_Message = er_Message res, rsp_Payload = er_Payload res\<rparr>"

definition BadRequest :: "string \<Rightarrow> ExecutionResult" where
  "BadRequest msg = \<lparr>er_RWS = \<lparr>Reads = [], Writes = []\<rparr>, er_Event = '''', er_EventName = '''',
     er_Status = 400, er_Message = ''Bad Request'', er_Payload = msg\<rparr>"

definition Success :: "ReadWriteSet \<Rightarrow> string \<Rightarrow> bytes \<Rightarrow> bytes \<Rightarrow> ExecutionResult" where
  "Success rws eventName event payload = \<lparr>er_RWS = rws, er_Event = event, er_EventName = eventName,
     er_Status = 200, er_Message = ''OK'', er_Payload = payload\<rparr>"

subsection \<open>Fabric-X: NewInvocation and Endorse (endorsement/fabricx)\<close>

definition res_and_then :: "'a res \<Rightarrow> (goerror \<Rightarrow> goerror) \<Rightarrow> ('a \<Rightarrow> 'b res) \<Rightarrow> 'b res" where
  "res_and_then r w f = (case r of Inl e \<Rightarrow> Inl (w e) | Inr x \<Rightarrow> f x)"

lemma res_and_then_eq_Inr: "res_and_then r w f = Inr y \<longleftrightarrow> (\<exists>x. r = Inr x \<and> f x = Inr y)"
  by (cases r) (simp_all add: res_and_then_def)

lemma guards_eq_Inr:
  "(if b then Inl e else r) = Inr y \<longleftrightarrow> \<not> b \<and> r = Inr y"
  "(case m of None \<Rightarrow> Inl e | Some x \<Rightarrow> f x) = Inr y \<longleftrightarrow> (\<exists>x. m = Some x \<and> f x = Inr y)"
  "(case err of None \<Rightarrow> r | Some e' \<Rightarrow> Inl (w e')) = Inr y \<longleftrightarrow> err = None \<and> r = Inr y"
  by (auto split: option.splits)

lemmas guard_eq_Inr = res_and_then_eq_Inr guards_eq_Inr guards_eq_Inr(3) [where w = id, simplified]

lemma res_and_then_simps [simp]:
  "res_and_then (Inl e) w f = Inl (w e)"
  "res_and_then (Inr x) w f = f x"
  by (simp_all add: res_and_then_def)

definition fabricx_NewInvocation :: "protos \<Rightarrow> Signer option \<Rightarrow> bytes res \<Rightarrow> pb_Timestamp
    \<Rightarrow> string \<Rightarrow> string \<Rightarrow> string \<Rightarrow> u64 \<Rightarrow> bytes list \<Rightarrow> Invocation res" where
  "fabricx_NewInvocation pb signer rnd now channel ns chaincodeVersion nsVersion args =
     (case signer of None \<Rightarrow> Inl (Msg ''nil signer'' []) | Some sg \<Rightarrow>
      res_and_then (Serialize sg) id (\<lambda>creator.
      res_and_then rnd (wrap ''read nonce: %w'') (\<lambda>nonce.
      let txID = ComputeTxID pb nonce creator in
      res_and_then (ma_ChannelHeader pb \<lparr>ch_Type = HeaderType_MESSAGE pb, ch_Timestamp = Some now,
          ch_ChannelId = channel, ch_TxId = txID, ch_Epoch = 0, ch_Extension = ''''\<rparr>)
        (wrap ''marshal channel header: %w'') (\<lambda>chdr.
      res_and_then (ma_SignatureHeader pb \<lparr>sh_Creator = creator, sh_Nonce = nonce\<rparr>)
        (wrap ''marshal signature header: %w'') (\<lambda>shdr.
      res_and_then (ma_Header pb \<lparr>hdr_ChannelHeader = chdr, hdr_SignatureHeader = shdr\<rparr>)
        (wrap ''marshal header: %w'') (\<lambda>hdr.
      Inr \<lparr>inv_TxID = txID, inv_Nonce = nonce, inv_Creator = creator, inv_Args = args,
           inv_Namespace = ns, inv_ChaincodeVersion = chaincodeVersion, inv_NsVersion = nsVersion,
           inv_Channel = channel, inv_Proposal = \<lparr>prop_Header = hdr, prop_Payload = ''''\<rparr>,
           inv_ProposalHash = ''''\<rparr>))))))"

definition fabricx_Endorse :: "protos \<Rightarrow> Signer \<Rightarrow> string list \<Rightarrow> Invocation \<Rightarrow> ExecutionResult
    \<Rightarrow> pb_ProposalResponse res" where
  "fabricx_Endorse pb sg ks ivk res =
     (case er_Validate res of Some err \<Rightarrow> Inl err | None \<Rightarrow>
      res_and_then (EncodeMetadata pb \<lparr>meta_Event = er_Event res, meta_EventName = er_EventName res,
          meta_Payload = er_Payload res, meta_InputArgs = inv_Args ivk\<rparr>) id (\<lambda>metadata.
      let tx = buildTx ks (er_RWS res) (inv_Namespace ivk) (inv_NsVersion ivk) metadata in
      res_and_then (ma_Tx pb tx) (wrap ''failed to marshal read/write set: %w'') (\<lambda>prpBytes.
      res_and_then (ASN1Marshal pb (hd (xtx_Namespaces tx)) (inv_TxID ivk) metadata)
        (wrap ''cannot serialize tx: %w'') (\<lambda>digest.
      res_and_then (Serialize sg) id (\<lambda>identityBytes.
      res_and_then (Sign sg digest) (wrap ''could not sign the proposal response payload: %w'') (\<lambda>sig.
      Inr \<lparr>pr_Version = 1, pr_Endorsement = Some \<lparr>end_Endorser = identityBytes, end_Signature = sig\<rparr>,
           pr_Payload = prpBytes, pr_Response = Some (er_Response res)\<rparr>))))))"

subsection \<open>Fabric: Endorse and marshalRWSet (endorsement/fabric/builder.go)\<close>

text \<open>
  \<open>marshalRWSet\<close> sorts the caller's slices in place and panics when a message cannot be marshalled.
\<close>

definition kvRWSet :: "ReadWriteSet \<Rightarrow> pb_KVRWSet" where
  "kvRWSet res =
     \<lparr>kvs_Reads = map (\<lambda>r. (r_Key r, map_option (\<lambda>v. (v_BlockNum v, v_TxNum v)) (r_Version r)))
        (sort_key r_Key (Reads res)),
      kvs_Writes = map (\<lambda>w. (w_Key w, w_IsDelete w, w_Value w)) (sort_key w_Key (Writes res))\<rparr>"

definition marshalRWSet :: "protos \<Rightarrow> ReadWriteSet \<Rightarrow> string \<Rightarrow> bytes result" where
  "marshalRWSet pb res ns =
     (case ma_KVRWSet pb (kvRWSet res) of
        Inl _ \<Rightarrow> Panic
      | Inr rws \<Rightarrow>
          (case ma_TxReadWriteSet pb \<lparr>trw_NsRwset = [\<lparr>nrw_Namespace = ns, nrw_Rwset = rws\<rparr>]\<rparr> of
             Inl _ \<Rightarrow> Panic
           | Inr b \<Rightarrow> Ok b))"

definition fabric_Endorse :: "protos \<Rightarrow> Signer \<Rightarrow> Invocation \<Rightarrow> ExecutionResult \<Rightarrow> pb_ProposalResponse result" where
  "fabric_Endorse pb sg ivk res =
     (case er_Validate res of Some err \<Rightarrow> Err err | None \<Rightarrow>
     (case marshalRWSet pb (er_RWS res) (inv_Namespace ivk) of
        Panic \<Rightarrow> Panic | Err e \<Rightarrow> Err (wrap ''marshal rwset: %w'' e)
      | Ok simResBytes \<Rightarrow>
     res_bind (if er_EventName res \<noteq> ''''
               then ma_ChaincodeEvent pb \<lparr>ev_ChaincodeId = inv_Namespace ivk, ev_TxId = inv_TxID ivk,
                      ev_EventName = er_EventName res, ev_Payload = er_Event res\<rparr>
               else Inr '''') (wrap ''marshal events: %w'') (\<lambda>event.
     res_bind (GetBytesProposalResponsePayload pb (inv_ProposalHash ivk)
                \<lparr>rsp_Status = 200, rsp_Message = '''', rsp_Payload = er_Payload res\<rparr> simResBytes event
                \<lparr>ccid_Name = inv_Namespace ivk, ccid_Version = inv_ChaincodeVersion ivk\<rparr>)
       (wrap ''marshal response: %w'') (\<lambda>prpBytes.
     res_bind (Serialize sg) id (\<lambda>identityBytes.
     res_bind (Sign sg (prpBytes @ identityBytes)) id (\<lambda>sig.
     Ok \<lparr>pr_Version = 1, pr_Endorsement = Some \<lparr>end_Endorser = identityBytes, end_Signature = sig\<rparr>,
         pr_Payload = prpBytes, pr_Response = Some (er_Response res)\<rparr>))))))"

subsection \<open>Fabric: NewInvocation and Parse (endorsement/fabric/invocation.go)\<close>

definition fabric_NewInvocation :: "protos \<Rightarrow> Signer option \<Rightarrow> bytes res
    \<Rightarrow> string \<Rightarrow> string \<Rightarrow> string \<Rightarrow> u64 \<Rightarrow> bytes list \<Rightarrow> Invocation res" where
  "fabric_NewInvocation pb signer rnd channel ns chaincodeVersion nsVersion args =
     (case signer of None \<Rightarrow> Inl (Msg ''nil signer'' []) | Some sg \<Rightarrow>
      res_and_then (Serialize sg) id (\<lambda>creator.
      res_and_then rnd (wrap ''read nonce: %w'') (\<lambda>nonce.
      let txID = ComputeTxID pb nonce creator;
          ccid = \<lparr>ccid_Name = ns, ccid_Version = chaincodeVersion\<rparr> in
      res_and_then (CreateChaincodeProposal pb txID (HeaderType_ENDORSER_TRANSACTION pb) channel
          \<lparr>cis_ChaincodeSpec = Some \<lparr>cs_Type = ChaincodeSpec_CAR pb, cs_ChaincodeId = Some ccid,
             cs_Input = Some args\<rparr>\<rparr> nonce creator) id (\<lambda>proposal.
      res_and_then (um_Header pb (prop_Header proposal)) id (\<lambda>hdr.
      res_and_then (GetProposalHash1 pb hdr (prop_Payload proposal)) id (\<lambda>propHash.
      Inr \<lparr>inv_TxID = txID, inv_Nonce = nonce, inv_Creator = creator, inv_Args = args,
           inv_Namespace = ccid_Name ccid, inv_ChaincodeVersion = ccid_Version ccid, inv_NsVersion = 0,
           inv_Channel = channel, inv_Proposal = proposal, inv_ProposalHash = propHash\<rparr>))))))"

definition timestamp_nanos :: "pb_Timestamp \<Rightarrow> int" where
  "timestamp_nanos t = ts_Seconds t * 1000000000 + ts_Nanos t"

definition five_minutes :: int where
  "five_minutes = 5 * 60 * 1000000000"

definition checkTime :: "int option \<Rightarrow> pb_Timestamp \<Rightarrow> goerror option" where
  "checkTime expectedTime t =
     (case expectedTime of
        None \<Rightarrow> None
      | Some e \<Rightarrow>
          if timestamp_nanos t < e - five_minutes \<or> timestamp_nanos t > e + five_minutes
          then Some (Msg ''proposal timestamp %v outside valid window (expected: %v)''
                 [FInt (timestamp_nanos t), FInt e])
          else None)"

text \<open>
  The \<open>Unmarshal\<close> functions of \<open>protoutil\<close> return a message whenever they return no error, so the two
  nil checks after them (\<open>proposal is empty\<close>, \<open>header is empty\<close>) have no branch here. The zero time, for
  which \<open>Parse\<close> skips the window check, is \<open>None\<close>. The getters of a chaincode id accept nil.
\<close>

definition ccid_GetName :: "pb_ChaincodeID option \<Rightarrow> string" where
  "ccid_GetName c = (case c of Some i \<Rightarrow> ccid_Name i | None \<Rightarrow> '''')"

definition ccid_GetVersion :: "pb_ChaincodeID option \<Rightarrow> string" where
  "ccid_GetVersion c = (case c of Some i \<Rightarrow> ccid_Version i | None \<Rightarrow> '''')"

definition fabric_ParseProposal :: "protos \<Rightarrow> int option \<Rightarrow> pb_SignedProposal \<Rightarrow> Invocation res" where
  "fabric_ParseProposal pb expectedTime signedProp =
     res_and_then (um_Proposal pb (sp_ProposalBytes signedProp)) id (\<lambda>prop.
     res_and_then (um_Header pb (prop_Header prop)) id (\<lambda>hdr.
     res_and_then (um_ChannelHeader pb (hdr_ChannelHeader hdr)) id (\<lambda>chdr.
     if ch_Type chdr \<noteq> HeaderType_ENDORSER_TRANSACTION pb
     then Inl (Msg ''invalid header type %s'' [FInt (ch_Type chdr)])
     else if ch_Epoch chdr \<noteq> 0 then Inl (Msg ''epoch is non-zero'' [])
     else case ch_Timestamp chdr of
       None \<Rightarrow> Inl (Msg ''proposal timestamp is required'' [])
     | Some t \<Rightarrow>
     (case checkTime expectedTime t of Some err \<Rightarrow> Inl err | None \<Rightarrow>
     res_and_then (um_SignatureHeader pb (hdr_SignatureHeader hdr)) id (\<lambda>shdr.
     if length (sh_Nonce shdr) = 0 then Inl (Msg ''nonce is empty'' [])
     else if length (sh_Creator shdr) = 0 then Inl (Msg ''creator is empty'' [])
     else if ch_TxId chdr \<noteq> ComputeTxID pb (sh_Nonce shdr) (sh_Creator shdr)
     then Inl (Msg ''txid mismatch [%s != expected %s]''
            [FStr (ch_TxId chdr), FStr (ComputeTxID pb (sh_Nonce shdr) (sh_Creator shdr))])
     else
     res_and_then (um_ChaincodeProposalPayload pb (prop_Payload prop)) id (\<lambda>cpp.
     res_and_then (um_ChaincodeInvocationSpec pb (cpp_Input cpp)) id (\<lambda>cis.
     case cis_ChaincodeSpec cis of
       None \<Rightarrow> Inl (Msg ''invalid spec %v for tx %s'' [FStr (ch_TxId chdr)])
     | Some sp \<Rightarrow>
     (case cs_Input sp of
        None \<Rightarrow> Inl (Msg ''invalid spec %v for tx %s'' [FStr (ch_TxId chdr)])
      | Some args \<Rightarrow>
     if length args = 0 then Inl (Msg ''invalid spec %v for tx %s'' [FStr (ch_TxId chdr)])
     else
     res_and_then (GetProposalHash1 pb hdr (prop_Payload prop)) id (\<lambda>propHash.
     Inr \<lparr>inv_TxID = ch_TxId chdr, inv_Nonce = sh_Nonce shdr, inv_Creator = sh_Creator shdr, inv_Args = args,
          inv_Namespace = ccid_GetName (cs_ChaincodeId sp), inv_ChaincodeVersion = ccid_GetVersion (cs_ChaincodeId sp),
          inv_NsVersion = 0, inv_Channel = ch_ChannelId chdr, inv_Proposal = prop,
          inv_ProposalHash = propHash\<rparr>)))))))))"

subsection \<open>What a parsed proposal guarantees\<close>

lemma checkTime_None: "checkTime expectedTime t = None \<longleftrightarrow>
    (\<forall>e. expectedTime = Some e \<longrightarrow> \<bar>timestamp_nanos t - e\<bar> \<le> five_minutes)"
  by (auto simp: checkTime_def split: option.splits)

text \<open>
  C24: \<open>Parse\<close> only accepts proposals whose transaction id is the one computed from their nonce and
  creator, both present, with at least one argument, of the endorser type with epoch zero, and, when an
  expected time is given, signed at most five minutes before or after it.
\<close>

theorem fabric_ParseProposal_sound:
  assumes "fabric_ParseProposal pb expectedTime sp = Inr ivk"
  shows "inv_TxID ivk = ComputeTxID pb (inv_Nonce ivk) (inv_Creator ivk)
    \<and> inv_Nonce ivk \<noteq> '''' \<and> inv_Creator ivk \<noteq> '''' \<and> inv_Args ivk \<noteq> []
    \<and> um_Proposal pb (sp_ProposalBytes sp) = Inr (inv_Proposal ivk)
    \<and> (\<exists>hdr chdr t. um_Header pb (prop_Header (inv_Proposal ivk)) = Inr hdr
         \<and> um_ChannelHeader pb (hdr_ChannelHeader hdr) = Inr chdr
         \<and> ch_Type chdr = HeaderType_ENDORSER_TRANSACTION pb \<and> ch_Epoch chdr = 0
         \<and> ch_TxId chdr = inv_TxID ivk \<and> ch_ChannelId chdr = inv_Channel ivk \<and> ch_Timestamp chdr = Some t
         \<and> (\<forall>e. expectedTime = Some e \<longrightarrow> \<bar>timestamp_nanos t - e\<bar> \<le> five_minutes)
         \<and> GetProposalHash1 pb hdr (prop_Payload (inv_Proposal ivk)) = Inr (inv_ProposalHash ivk))"
  using assms by (clarsimp simp: fabric_ParseProposal_def guard_eq_Inr) (auto simp: checkTime_None)

theorem fabric_ParseProposal_sound_witness:
  "\<exists>ivk. fabric_ParseProposal sample_pb (Some 60) \<lparr>sp_ProposalBytes = ''prop'', sp_Signature = ''''\<rparr> = Inr ivk
     \<and> inv_TxID ivk = ComputeTxID sample_pb (inv_Nonce ivk) (inv_Creator ivk)"
proof -
  have "\<exists>ivk. fabric_ParseProposal sample_pb (Some 60) \<lparr>sp_ProposalBytes = ''prop'', sp_Signature = ''''\<rparr> = Inr ivk"
    by (simp add: fabric_ParseProposal_def checkTime_def timestamp_nanos_def five_minutes_def)
  then obtain ivk where
    i: "fabric_ParseProposal sample_pb (Some 60) \<lparr>sp_ProposalBytes = ''prop'', sp_Signature = ''''\<rparr> = Inr ivk" by blast
  from fabric_ParseProposal_sound [OF i] i show ?thesis by blast
qed

text \<open>What \<open>protoutil\<close> documents about the proposal it creates.\<close>

definition creates_proposals :: "protos \<Rightarrow> bool" where
  "creates_proposals pb \<longleftrightarrow> (\<forall>txid typ channel cis nonce creator pp.
     CreateChaincodeProposal pb txid typ channel cis nonce creator = Inr pp \<longrightarrow>
     (\<exists>hdr chdr t cpp. um_Header pb (prop_Header pp) = Inr hdr \<and> um_ChannelHeader pb (hdr_ChannelHeader hdr) = Inr chdr
        \<and> um_SignatureHeader pb (hdr_SignatureHeader hdr) = Inr \<lparr>sh_Creator = creator, sh_Nonce = nonce\<rparr>
        \<and> ch_Type chdr = typ \<and> ch_TxId chdr = txid \<and> ch_ChannelId chdr = channel \<and> ch_Epoch chdr = 0
        \<and> ch_Timestamp chdr = Some t
        \<and> um_ChaincodeProposalPayload pb (prop_Payload pp) = Inr cpp \<and> um_ChaincodeInvocationSpec pb (cpp_Input cpp) = Inr cis))"

text \<open>
  An endorser that parses the proposal of an invocation recovers the invocation: \<open>Parse\<close> inverts
  \<open>NewInvocation\<close> on Fabric, for a signer with a non-empty identity and at least one argument.
\<close>

theorem fabric_invocation_roundtrip:
  assumes "creates_proposals pb"
    and "fabric_NewInvocation pb (Some sg) (Inr nonce) channel ns cv v args = Inr ivk"
    and "Serialize sg = Inr creator" and "creator \<noteq> ''''" and "nonce \<noteq> ''''" and "args \<noteq> []"
    and "um_Proposal pb b = Inr (inv_Proposal ivk)"
  shows "fabric_ParseProposal pb None \<lparr>sp_ProposalBytes = b, sp_Signature = sig\<rparr> = Inr ivk"
proof -
  let ?spec = "\<lparr>cs_Type = ChaincodeSpec_CAR pb, cs_ChaincodeId = Some \<lparr>ccid_Name = ns, ccid_Version = cv\<rparr>, cs_Input = Some args\<rparr>"
  from assms(2,3) obtain pp hdr0 h where
    pp: "CreateChaincodeProposal pb (ComputeTxID pb nonce creator) (HeaderType_ENDORSER_TRANSACTION pb) channel
        \<lparr>cis_ChaincodeSpec = Some ?spec\<rparr> nonce creator = Inr pp" and
    hdr0: "um_Header pb (prop_Header pp) = Inr hdr0" "GetProposalHash1 pb hdr0 (prop_Payload pp) = Inr h" and
    i: "ivk = \<lparr>inv_TxID = ComputeTxID pb nonce creator, inv_Nonce = nonce, inv_Creator = creator, inv_Args = args,
           inv_Namespace = ns, inv_ChaincodeVersion = cv, inv_NsVersion = 0,
           inv_Channel = channel, inv_Proposal = pp, inv_ProposalHash = h\<rparr>"
    by (auto simp: fabric_NewInvocation_def Let_def res_and_then_eq_Inr)
  from assms(1) pp obtain hdr chdr t cpp where
    "um_Header pb (prop_Header pp) = Inr hdr" "um_ChannelHeader pb (hdr_ChannelHeader hdr) = Inr chdr"
    "um_SignatureHeader pb (hdr_SignatureHeader hdr) = Inr \<lparr>sh_Creator = creator, sh_Nonce = nonce\<rparr>"
    "ch_Type chdr = HeaderType_ENDORSER_TRANSACTION pb" "ch_TxId chdr = ComputeTxID pb nonce creator"
    "ch_ChannelId chdr = channel" "ch_Epoch chdr = 0" "ch_Timestamp chdr = Some t"
    "um_ChaincodeProposalPayload pb (prop_Payload pp) = Inr cpp"
    "um_ChaincodeInvocationSpec pb (cpp_Input cpp) = Inr \<lparr>cis_ChaincodeSpec = Some ?spec\<rparr>"
    unfolding creates_proposals_def by blast
  with hdr0 i assms(4-7) show ?thesis
    by (simp add: fabric_ParseProposal_def checkTime_def ccid_GetName_def ccid_GetVersion_def)
qed

definition sample_proposals :: protos where
  "sample_proposals = sample_pb\<lparr>CreateChaincodeProposal := (\<lambda>txid typ channel cis nonce creator.
     if txid = ''txid'' \<and> typ = 3 \<and> channel = ''ch'' \<and> nonce = ''n'' \<and> creator = ''id''
        \<and> cis = \<lparr>cis_ChaincodeSpec = Some \<lparr>cs_Type = 4, cs_ChaincodeId = Some \<lparr>ccid_Name = ''ns'', ccid_Version = ''1''\<rparr>, cs_Input = Some [''f'']\<rparr>\<rparr>
     then Inr \<lparr>prop_Header = ''fhdr'', prop_Payload = ''cpp''\<rparr> else Inl (Msg ''proposal'' []))\<rparr>"

lemma sample_proposals_simps [simp]:
  "um_Header sample_proposals = um_Header sample_pb" "um_ChannelHeader sample_proposals = um_ChannelHeader sample_pb"
  "um_SignatureHeader sample_proposals = um_SignatureHeader sample_pb" "um_Proposal sample_proposals = um_Proposal sample_pb"
  "um_ChaincodeProposalPayload sample_proposals = um_ChaincodeProposalPayload sample_pb"
  "um_ChaincodeInvocationSpec sample_proposals = um_ChaincodeInvocationSpec sample_pb"
  "HeaderType_ENDORSER_TRANSACTION sample_proposals = 3" "ComputeTxID sample_proposals = ComputeTxID sample_pb"
  "GetProposalHash1 sample_proposals = GetProposalHash1 sample_pb" "ChaincodeSpec_CAR sample_proposals = 4"
  by (simp_all add: sample_proposals_def) (simp add: sample_pb_defs)

theorem fabric_invocation_roundtrip_witness:
  "\<exists>ivk. fabric_NewInvocation sample_proposals (Some sample_signer) (Inr ''n'') ''ch'' ''ns'' ''1'' 0 [''f''] = Inr ivk
     \<and> fabric_ParseProposal sample_proposals None \<lparr>sp_ProposalBytes = ''prop'', sp_Signature = ''''\<rparr> = Inr ivk"
proof -
  have c: "creates_proposals sample_proposals"
    by (auto simp: creates_proposals_def) (auto simp: sample_proposals_def split: if_splits)
  have "\<exists>ivk. fabric_NewInvocation sample_proposals (Some sample_signer) (Inr ''n'') ''ch'' ''ns'' ''1'' 0 [''f''] = Inr ivk
      \<and> inv_Proposal ivk = \<lparr>prop_Header = ''fhdr'', prop_Payload = ''cpp''\<rparr>"
    by (simp add: fabric_NewInvocation_def sample_signer_def Let_def) (simp add: sample_proposals_def)
  then obtain ivk where i: "fabric_NewInvocation sample_proposals (Some sample_signer) (Inr ''n'') ''ch'' ''ns'' ''1'' 0 [''f''] = Inr ivk"
    "inv_Proposal ivk = \<lparr>prop_Header = ''fhdr'', prop_Payload = ''cpp''\<rparr>" by blast
  have "Serialize sample_signer = Inr ''id''" by (simp add: sample_signer_def)
  from fabric_invocation_roundtrip [OF c i(1) this, of "''prop''"] i show ?thesis by simp
qed

end
