(* ===== verification/Packager.thy ===== *)
theory Packager
  imports Endorsement Block_Parsers
begin

section \<open>Packaging endorsements (network/fabricx/packager.go)\<close>

text \<open>
  \<open>CreateTx\<close> checks the proposal responses, collects one endorsement per endorser, adds them to the
  transaction the endorsers signed and wraps it in an envelope with the proposal's channel header. A
  response without a \<open>Response\<close> message is a nil dereference. The random nonce is an argument.
\<close>

record sdk_Endorsement =
  e_Proposal :: pb_Proposal
  e_Responses :: "pb_ProposalResponse list"

subsection \<open>CreateTx\<close>

text \<open>The first loop: every response successful and every payload the same as the first.\<close>

fun checkResponses :: "bytes option \<Rightarrow> pb_ProposalResponse list \<Rightarrow> bytes result" where
  "checkResponses a1 [] = Ok (case a1 of Some a \<Rightarrow> a | None \<Rightarrow> '''')"
| "checkResponses a1 (r # rs) =
     (case pr_Response r of
        None \<Rightarrow> Panic
      | Some rsp \<Rightarrow>
          if rsp_Status rsp < 200 \<or> rsp_Status rsp \<ge> 400
          then Err (Msg ''proposal response was not successful, error code %d, msg %s''
                 [FInt (rsp_Status rsp), FStr (rsp_Message rsp)])
          else
            (case a1 of
               None \<Rightarrow> checkResponses (Some (pr_Payload r)) rs
             | Some a \<Rightarrow>
                 if a \<noteq> pr_Payload r
                 then Err (Msg (''ProposalResponsePayloads do not match (base64): '' @ [CHR 0x27] @ ''%s'' @ [CHR 0x27]
                        @ '' vs '' @ [CHR 0x27] @ ''%s'' @ [CHR 0x27]) [FStr (pr_Payload r), FStr a])
                 else checkResponses a1 rs))"

text \<open>The second loop: the first endorsement of each endorser.\<close>

fun uniqueEndorsements :: "bytes set \<Rightarrow> pb_ProposalResponse list \<Rightarrow> pb_Endorsement list" where
  "uniqueEndorsements used [] = []"
| "uniqueEndorsements used (r # rs) =
     (case pr_Endorsement r of
        None \<Rightarrow> uniqueEndorsements used rs
      | Some e \<Rightarrow>
          if end_Endorser e \<in> used then uniqueEndorsements used rs
          else e # uniqueEndorsements (insert (end_Endorser e) used) rs)"

text \<open>The third loop: the endorsements with their decoded identities.\<close>

fun decodeEndorsers :: "protos \<Rightarrow> pb_Endorsement list \<Rightarrow> pb_Endorsements res" where
  "decodeEndorsers pb [] = Inr []"
| "decodeEndorsers pb (e # es) =
     res_and_then (um_Identity pb (end_Endorser e)) (wrap ''failed to unmarshal endorser identity: %w'') (\<lambda>ident.
     res_and_then (decodeEndorsers pb es) id (\<lambda>rest. Inr ((end_Signature e, ident) # rest)))"

definition messageHeader :: "protos \<Rightarrow> pb_Proposal \<Rightarrow> bytes res" where
  "messageHeader pb proposal =
     res_and_then (um_Header pb (prop_Header proposal)) id (\<lambda>hdr.
     res_and_then (um_ChannelHeader pb (hdr_ChannelHeader hdr)) id (\<lambda>chdr.
     if ch_Type chdr \<noteq> HeaderType_MESSAGE pb
     then res_and_then (ma_ChannelHeader pb (chdr\<lparr>ch_Type := HeaderType_MESSAGE pb, ch_Extension := ''''\<rparr>))
            (wrap ''marshal channel header: %w'') Inr
     else Inr (hdr_ChannelHeader hdr)))"

definition signatureHeader :: "protos \<Rightarrow> Signer option \<Rightarrow> bytes res \<Rightarrow> bytes res" where
  "signatureHeader pb signer rnd =
     res_and_then
       (case signer of
          None \<Rightarrow> Inr \<lparr>sh_Creator = '''', sh_Nonce = ''''\<rparr>
        | Some sg \<Rightarrow>
            res_and_then (Serialize sg) (wrap ''serialize signer: %w'') (\<lambda>creator.
            res_and_then rnd (wrap ''read nonce: %w'') (\<lambda>nonce.
            Inr \<lparr>sh_Creator = creator, sh_Nonce = nonce\<rparr>))) id (\<lambda>shdr.
     res_and_then (ma_SignatureHeader pb shdr) (wrap ''marshal signature header: %w'') Inr)"

definition CreateTx :: "protos \<Rightarrow> Signer option \<Rightarrow> bytes res \<Rightarrow> pb_Proposal \<Rightarrow> pb_ProposalResponse list
    \<Rightarrow> pb_Envelope result" where
  "CreateTx pb signer rnd proposal resps =
     (if length resps = 0 then Err (Msg ''at least one proposal response is required'' [])
      else case checkResponses None resps of Panic \<Rightarrow> Panic | Err e \<Rightarrow> Err e | Ok a1 \<Rightarrow>
     (let endorsements = uniqueEndorsements {} resps in
      if length endorsements = 0 then Err (Msg ''no endorsements'' [])
      else
     (case um_Tx pb a1 of
        Inl e \<Rightarrow> Err (Msg ''expected applicationpb.Tx endorsement payload, %s'' [FErr e])
      | Inr tx \<Rightarrow>
     res_bind (decodeEndorsers pb endorsements) id (\<lambda>nsEndorsements.
     res_bind (ma_Tx pb (tx\<lparr>xtx_Endorsements := map (\<lambda>_. nsEndorsements) (xtx_Namespaces tx)\<rparr>))
       (\<lambda>_. Msg (''can'' @ [CHR 0x27] @ ''t marshal transaction payload'') []) (\<lambda>txBytes.
     res_bind (signatureHeader pb signer rnd) id (\<lambda>shdrBytes.
     res_bind (messageHeader pb proposal) id (\<lambda>chdrBytes.
     res_bind (ma_Payload pb \<lparr>pl_Header = Some \<lparr>hdr_ChannelHeader = chdrBytes, hdr_SignatureHeader = shdrBytes\<rparr>,
                 pl_Data = txBytes\<rparr>) id (\<lambda>paylBytes.
     case signer of
       None \<Rightarrow> Ok \<lparr>env_Payload = paylBytes, env_Signature = ''''\<rparr>
     | Some sg \<Rightarrow> res_bind (Sign sg paylBytes) (wrap ''sign envelope payload: %w'') (\<lambda>sig.
         Ok \<lparr>env_Payload = paylBytes, env_Signature = sig\<rparr>)))))))))"

definition fabricx_PackageTx :: "protos \<Rightarrow> Signer option \<Rightarrow> bytes res \<Rightarrow> sdk_Endorsement \<Rightarrow> pb_Envelope result" where
  "fabricx_PackageTx pb signer rnd e = CreateTx pb signer rnd (e_Proposal e) (e_Responses e)"

subsection \<open>The loops in closed form\<close>

definition successful :: "pb_ProposalResponse \<Rightarrow> bool" where
  "successful r \<longleftrightarrow> (\<exists>rsp. pr_Response r = Some rsp \<and> 200 \<le> rsp_Status rsp \<and> rsp_Status rsp < 400)"

lemma checkResponses_Some:
  "checkResponses (Some a) rs = Ok b \<longleftrightarrow> b = a \<and> (\<forall>r \<in> set rs. successful r \<and> pr_Payload r = a)"
  by (induction rs) (auto simp: successful_def split: option.splits)

lemma checkResponses_Ok:
  "rs \<noteq> [] \<Longrightarrow> checkResponses None rs = Ok b \<longleftrightarrow>
     b = pr_Payload (hd rs) \<and> (\<forall>r \<in> set rs. successful r \<and> pr_Payload r = pr_Payload (hd rs))"
  by (cases rs) (auto simp: checkResponses_Some successful_def split: option.splits if_splits)

lemma uniqueEndorsements_props:
  "distinct (map end_Endorser (uniqueEndorsements used rs))
   \<and> set (map end_Endorser (uniqueEndorsements used rs)) =
       {end_Endorser e | e r. r \<in> set rs \<and> pr_Endorsement r = Some e} - used
   \<and> (\<forall>e \<in> set (uniqueEndorsements used rs). \<exists>r \<in> set rs. pr_Endorsement r = Some e)"
proof (induction rs arbitrary: used)
  case (Cons r rs)
  show ?case
  proof (cases "pr_Endorsement r")
    case None
    with Cons.IH [of used] show ?thesis by auto
  next
    case (Some e)
    with Cons.IH [of used] Cons.IH [of "insert (end_Endorser e) used"] show ?thesis by auto
  qed
qed simp

lemma decodeEndorsers_Inr:
  "decodeEndorsers pb es = Inr xs \<longleftrightarrow> length xs = length es \<and>
     (\<forall>i < length es. um_Identity pb (end_Endorser (es ! i)) = Inr (snd (xs ! i)) \<and> fst (xs ! i) = end_Signature (es ! i))"
proof (induction es arbitrary: xs)
  case (Cons e es)
  show ?case
  proof (cases xs)
    case Nil
    then show ?thesis by (auto simp: res_and_then_eq_Inr)
  next
    case (Cons x ys)
    with Cons.IH show ?thesis by (cases x) (auto simp: res_and_then_eq_Inr All_less_Suc2)
  qed
qed auto

subsection \<open>Round trips\<close>

definition packager_codecs :: "protos \<Rightarrow> bool" where
  "packager_codecs pb \<longleftrightarrow> codec_ok (ma_Tx pb) (um_Tx pb) \<and> codec_ok (ma_Payload pb) (um_Payload pb)
     \<and> codec_ok (ma_ChannelHeader pb) (um_ChannelHeader pb) \<and> codec_ok (ma_Header pb) (um_Header pb)
     \<and> codec_ok (ma_Metadata pb) (um_Metadata pb)"

definition proposal_channel_header :: "protos \<Rightarrow> pb_Proposal \<Rightarrow> pb_ChannelHeader \<Rightarrow> bool" where
  "proposal_channel_header pb p chdr \<longleftrightarrow>
     (\<exists>hdr. um_Header pb (prop_Header p) = Inr hdr \<and> um_ChannelHeader pb (hdr_ChannelHeader hdr) = Inr chdr)"

text \<open>The transaction an applicationpb.Tx with id \<open>txid\<close> stands for.\<close>

definition decoded_tx :: "protos \<Rightarrow> string \<Rightarrow> pb_Tx \<Rightarrow> Transaction" where
  "decoded_tx pb txid ptx = (let md = DecodeMetadata pb (xtx_Metadata ptx) in
     zero_Transaction\<lparr>tx_ID := txid, tx_InputArgs := meta_InputArgs md,
        tx_Event := meta_Event md, tx_EventName := meta_EventName md, tx_Payload := meta_Payload md,
        tx_NsRWS := DecodeNamespaces (xtx_Namespaces ptx)\<rparr>)"

lemma messageHeader_roundtrip:
  assumes "codec_ok (ma_ChannelHeader pb) (um_ChannelHeader pb)" and "messageHeader pb p = Inr b"
  shows "\<exists>chdr chdr'. proposal_channel_header pb p chdr \<and> um_ChannelHeader pb b = Inr chdr'
    \<and> ch_Type chdr' = HeaderType_MESSAGE pb \<and> ch_TxId chdr' = ch_TxId chdr \<and> ch_ChannelId chdr' = ch_ChannelId chdr"
proof -
  from assms(2) obtain hdr chdr where h: "um_Header pb (prop_Header p) = Inr hdr"
      "um_ChannelHeader pb (hdr_ChannelHeader hdr) = Inr chdr" and
    r: "if ch_Type chdr \<noteq> HeaderType_MESSAGE pb
        then ma_ChannelHeader pb (chdr\<lparr>ch_Type := HeaderType_MESSAGE pb, ch_Extension := ''''\<rparr>) = Inr b
        else b = hdr_ChannelHeader hdr"
    by (auto simp: messageHeader_def res_and_then_eq_Inr split: if_splits)
  show ?thesis
  proof (cases "ch_Type chdr = HeaderType_MESSAGE pb")
    case True
    with h r show ?thesis by (auto simp: proposal_channel_header_def)
  next
    case False
    with r codec_okD [OF assms(1)]
    have "um_ChannelHeader pb b = Inr (chdr\<lparr>ch_Type := HeaderType_MESSAGE pb, ch_Extension := ''''\<rparr>)" by simp
    with h show ?thesis by (auto simp: proposal_channel_header_def)
  qed
qed

lemma CreateTx_cases:
  assumes "CreateTx pb signer rnd p resps = Ok env"
  obtains ptx ends txBytes shdr chdr where
    "resps \<noteq> []" "\<forall>r \<in> set resps. successful r \<and> pr_Payload r = pr_Payload (hd resps)"
    "um_Tx pb (pr_Payload (hd resps)) = Inr ptx"
    "decodeEndorsers pb (uniqueEndorsements {} resps) = Inr ends" "uniqueEndorsements {} resps \<noteq> []"
    "ma_Tx pb (ptx\<lparr>xtx_Endorsements := map (\<lambda>_. ends) (xtx_Namespaces ptx)\<rparr>) = Inr txBytes"
    "messageHeader pb p = Inr chdr"
    "ma_Payload pb \<lparr>pl_Header = Some \<lparr>hdr_ChannelHeader = chdr, hdr_SignatureHeader = shdr\<rparr>, pl_Data = txBytes\<rparr>
       = Inr (env_Payload env)"
proof -
  from assms obtain a1 where a1: "resps \<noteq> []" "checkResponses None resps = Ok a1"
    by (auto simp: CreateTx_def split: if_splits result.splits)
  then have c: "\<forall>r \<in> set resps. successful r \<and> pr_Payload r = pr_Payload (hd resps)" "a1 = pr_Payload (hd resps)"
    using checkResponses_Ok [OF a1(1), of a1] by blast+
  let ?ends = "uniqueEndorsements {} resps"
  from assms a1 have ne: "?ends \<noteq> []" by (simp add: CreateTx_def Let_def split: if_splits)
  from assms a1 ne obtain ptx where tx: "um_Tx pb a1 = Inr ptx"
    by (simp add: CreateTx_def Let_def split: sum.splits)
  note rest = assms [unfolded CreateTx_def Let_def a1(2), simplified a1(1) ne tx, simplified]
  from rest obtain ends txBytes shdr cb where e:
    "decodeEndorsers pb ?ends = Inr ends"
    "ma_Tx pb (ptx\<lparr>xtx_Endorsements := map (\<lambda>_. ends) (xtx_Namespaces ptx)\<rparr>) = Inr txBytes"
    "messageHeader pb p = Inr cb"
    "ma_Payload pb \<lparr>pl_Header = Some \<lparr>hdr_ChannelHeader = cb, hdr_SignatureHeader = shdr\<rparr>, pl_Data = txBytes\<rparr>
       = Inr (env_Payload env)"
    using a1(1) ne tx by (auto simp: res_bind_eq_Ok split: option.splits)
  show ?thesis by (rule that [OF a1(1) c(1) tx [unfolded c(2)] e(1) ne e(2,3,4)])
qed

lemma ParseTx_payload:
  assumes "um_Payload pb (env_Payload env) = Inr \<lparr>pl_Header = Some \<lparr>hdr_ChannelHeader = cb, hdr_SignatureHeader = sb\<rparr>, pl_Data = txBytes\<rparr>"
    and "um_ChannelHeader pb cb = Inr chdr" and "ch_Type chdr = HeaderType_MESSAGE pb" and "um_Tx pb txBytes = Inr ptx"
  shows "fabricx_ParseTx pb env = Ok (Some (decoded_tx pb (ch_TxId chdr) ptx))"
  using assms by (simp add: fabricx_ParseTx_def decoded_tx_def Let_def)

lemma CreateTx_decoded:
  assumes "packager_codecs pb" and "CreateTx pb signer rnd p resps = Ok env"
  shows "\<exists>ptx chdr pl ends. (\<forall>r \<in> set resps. successful r \<and> um_Tx pb (pr_Payload r) = Inr ptx)
    \<and> proposal_channel_header pb p chdr
    \<and> fabricx_ParseTx pb env = Ok (Some (decoded_tx pb (ch_TxId chdr) ptx))
    \<and> um_Payload pb (env_Payload env) = Inr pl
    \<and> um_Tx pb (pl_Data pl) = Inr (ptx\<lparr>xtx_Endorsements := map (\<lambda>_. ends) (xtx_Namespaces ptx)\<rparr>)
    \<and> decodeEndorsers pb (uniqueEndorsements {} resps) = Inr ends"
  using assms(2)
proof (rule CreateTx_cases)
  fix ptx ends txBytes shdr cb
  assume r: "resps \<noteq> []" "\<forall>r \<in> set resps. successful r \<and> pr_Payload r = pr_Payload (hd resps)"
    and tx: "um_Tx pb (pr_Payload (hd resps)) = Inr ptx"
    and ends: "decodeEndorsers pb (uniqueEndorsements {} resps) = Inr ends" "uniqueEndorsements {} resps \<noteq> []"
    and mtx: "ma_Tx pb (ptx\<lparr>xtx_Endorsements := map (\<lambda>_. ends) (xtx_Namespaces ptx)\<rparr>) = Inr txBytes"
    and mh: "messageHeader pb p = Inr cb"
    and mpl: "ma_Payload pb \<lparr>pl_Header = Some \<lparr>hdr_ChannelHeader = cb, hdr_SignatureHeader = shdr\<rparr>, pl_Data = txBytes\<rparr>
       = Inr (env_Payload env)"
  have codecs: "codec_ok (ma_Tx pb) (um_Tx pb)" "codec_ok (ma_Payload pb) (um_Payload pb)"
    "codec_ok (ma_ChannelHeader pb) (um_ChannelHeader pb)"
    using assms(1) by (simp_all add: packager_codecs_def)
  from codec_okD [OF codecs(1) mtx]
  have utx: "um_Tx pb txBytes = Inr (ptx\<lparr>xtx_Endorsements := map (\<lambda>_. ends) (xtx_Namespaces ptx)\<rparr>)" .
  from codec_okD [OF codecs(2) mpl] have upl: "um_Payload pb (env_Payload env) =
      Inr \<lparr>pl_Header = Some \<lparr>hdr_ChannelHeader = cb, hdr_SignatureHeader = shdr\<rparr>, pl_Data = txBytes\<rparr>" .
  from messageHeader_roundtrip [OF codecs(3) mh] obtain chdr chdr' where c: "proposal_channel_header pb p chdr"
    "um_ChannelHeader pb cb = Inr chdr'" "ch_Type chdr' = HeaderType_MESSAGE pb" "ch_TxId chdr' = ch_TxId chdr" by blast
  have "fabricx_ParseTx pb env = Ok (Some (decoded_tx pb (ch_TxId chdr) ptx))"
    using ParseTx_payload [OF upl c(2,3) utx] c(4) by (simp add: decoded_tx_def)
  moreover have "\<forall>r \<in> set resps. successful r \<and> um_Tx pb (pr_Payload r) = Inr ptx" using r tx by metis
  ultimately show ?thesis using c(1) upl utx ends(1)
    by (intro exI [of _ ptx] exI [of _ chdr] exI [of _ "\<lparr>pl_Header = Some \<lparr>hdr_ChannelHeader = cb, hdr_SignatureHeader = shdr\<rparr>, pl_Data = txBytes\<rparr>"]
        exI [of _ ends] conjI) simp_all
qed

lemma length_decoded_endorsers:
  assumes "decodeEndorsers pb (uniqueEndorsements {} resps) = Inr ends"
  shows "length ends = card {end_Endorser e | e r. r \<in> set resps \<and> pr_Endorsement r = Some e}"
proof -
  note u = uniqueEndorsements_props [of "{}" resps]
  have "length ends = length (map end_Endorser (uniqueEndorsements {} resps))"
    using assms by (simp add: decodeEndorsers_Inr)
  also have "\<dots> = card (set (map end_Endorser (uniqueEndorsements {} resps)))"
    using u distinct_card by metis
  finally show ?thesis using u by simp
qed

text \<open>
  What is packaged is what was endorsed. If \<open>CreateTx\<close> returns an envelope, then every response
  was successful and carried the same payload, that payload is a Fabric-X transaction, the envelope
  carries one endorsement per distinct endorser, the same for every namespace, and the parser reads
  from the envelope exactly that transaction under the transaction id of the proposal.
\<close>

theorem CreateTx_ParseTx:
  assumes "packager_codecs pb" and "CreateTx pb signer rnd p resps = Ok env"
  shows "\<exists>ptx chdr. (\<forall>r \<in> set resps. successful r \<and> um_Tx pb (pr_Payload r) = Inr ptx)
    \<and> proposal_channel_header pb p chdr
    \<and> fabricx_ParseTx pb env = Ok (Some (decoded_tx pb (ch_TxId chdr) ptx))
    \<and> (\<exists>pl ends. um_Payload pb (env_Payload env) = Inr pl
        \<and> um_Tx pb (pl_Data pl) = Inr (ptx\<lparr>xtx_Endorsements := map (\<lambda>_. ends) (xtx_Namespaces ptx)\<rparr>)
        \<and> length ends = card {end_Endorser e | e r. r \<in> set resps \<and> pr_Endorsement r = Some e})"
  using CreateTx_decoded [OF assms] length_decoded_endorsers by blast

subsection \<open>From invocation to block\<close>

lemma fabricx_NewInvocation_header:
  assumes "packager_codecs pb" and "fabricx_NewInvocation pb signer rnd now channel ns cv v args = Inr ivk"
    and "proposal_channel_header pb (inv_Proposal ivk) chdr"
  shows "ch_TxId chdr = inv_TxID ivk \<and> ch_ChannelId chdr = channel \<and> inv_Args ivk = args
    \<and> inv_Namespace ivk = ns \<and> inv_NsVersion ivk = v"
proof -
  from assms(2) obtain creator nonce cb sb hb where
    cb: "ma_ChannelHeader pb \<lparr>ch_Type = HeaderType_MESSAGE pb, ch_Timestamp = Some now,
          ch_ChannelId = channel, ch_TxId = ComputeTxID pb nonce creator, ch_Epoch = 0, ch_Extension = ''''\<rparr> = Inr cb" and
    hb: "ma_Header pb \<lparr>hdr_ChannelHeader = cb, hdr_SignatureHeader = sb\<rparr> = Inr hb" and
    i: "inv_TxID ivk = ComputeTxID pb nonce creator" "inv_Args ivk = args" "inv_Namespace ivk = ns"
      "inv_NsVersion ivk = v" "prop_Header (inv_Proposal ivk) = hb"
    by (auto simp: fabricx_NewInvocation_def Let_def res_and_then_eq_Inr split: option.splits)
  have codecs: "codec_ok (ma_ChannelHeader pb) (um_ChannelHeader pb)" "codec_ok (ma_Header pb) (um_Header pb)"
    using assms(1) by (simp_all add: packager_codecs_def)
  from codec_okD [OF codecs(1) cb] codec_okD [OF codecs(2) hb] assms(3) i show ?thesis
    by (auto simp: proposal_channel_header_def)
qed

lemma fabricx_Endorse_payload:
  assumes "packager_codecs pb" and "fabricx_Endorse pb sg ks ivk res = Inr r" and "um_Tx pb (pr_Payload r) = Inr ptx"
  shows "\<exists>metadata. EncodeMetadata pb \<lparr>meta_Event = er_Event res, meta_EventName = er_EventName res,
          meta_Payload = er_Payload res, meta_InputArgs = inv_Args ivk\<rparr> = Inr metadata
    \<and> ptx = buildTx ks (er_RWS res) (inv_Namespace ivk) (inv_NsVersion ivk) metadata"
proof -
  from assms(2) obtain metadata where m: "EncodeMetadata pb \<lparr>meta_Event = er_Event res, meta_EventName = er_EventName res,
          meta_Payload = er_Payload res, meta_InputArgs = inv_Args ivk\<rparr> = Inr metadata" and
    t: "ma_Tx pb (buildTx ks (er_RWS res) (inv_Namespace ivk) (inv_NsVersion ivk) metadata) = Inr (pr_Payload r)"
    by (auto simp: fabricx_Endorse_def Let_def res_and_then_eq_Inr split: option.splits)
  have "codec_ok (ma_Tx pb) (um_Tx pb)" using assms(1) by (simp add: packager_codecs_def)
  from codec_okD [OF this t] assms(3) m show ?thesis by auto
qed

lemma EncodeMetadata_roundtrip:
  assumes "codec_ok (ma_Metadata pb) (um_Metadata pb)" and "EncodeMetadata pb m = Inr b"
  shows "DecodeMetadata pb b = m"
proof -
  from assms(2) obtain c where c: "ma_Metadata pb \<lparr>md_InputArgs = meta_InputArgs m, md_Event = meta_Event m,
             md_EventName = meta_EventName m, md_Payload = meta_Payload m\<rparr> = Inr c" "b = [c]"
    by (auto simp: EncodeMetadata_def split: sum.splits)
  from codec_okD [OF assms(1) c(1)] c(2) show ?thesis by (simp add: DecodeMetadata_def)
qed

definition endorsed_by :: "protos \<Rightarrow> Invocation \<Rightarrow> ExecutionResult \<Rightarrow> pb_ProposalResponse \<Rightarrow> bool" where
  "endorsed_by pb ivk res r \<longleftrightarrow> (\<exists>sg ks. enumerates ks (unwritten (er_RWS res)) \<and> fabricx_Endorse pb sg ks ivk res = Inr r)"

lemma endorsed_transaction_parses:
  assumes "packager_codecs pb" and "fabricx_NewInvocation pb (Some sg) rnd now channel ns cv v args = Inr ivk"
    and "rws_keys_ok (er_RWS res)" and "\<forall>r \<in> set resps. endorsed_by pb ivk res r"
    and "CreateTx pb signer rnd' (inv_Proposal ivk) resps = Ok env"
  shows "\<exists>tx rws'. fabricx_ParseTx pb env = Ok (Some tx) \<and> tx_ID tx = inv_TxID ivk \<and> tx_InputArgs tx = args
    \<and> tx_Event tx = er_Event res \<and> tx_EventName tx = er_EventName res \<and> tx_Payload tx = er_Payload res
    \<and> tx_NsRWS tx = [\<lparr>ns_Namespace = ns, ns_RWS = rws'\<rparr>]
    \<and> mset (Reads rws') = image_mset strip_read (mset (Reads (er_RWS res)))
    \<and> mset (Writes rws') = image_mset strip_write (mset (Writes (er_RWS res)))"
proof -
  from CreateTx_decoded [OF assms(1,5)] obtain ptx chdr where
    resps: "\<forall>r \<in> set resps. successful r \<and> um_Tx pb (pr_Payload r) = Inr ptx" and
    hdr: "proposal_channel_header pb (inv_Proposal ivk) chdr" and
    p: "fabricx_ParseTx pb env = Ok (Some (decoded_tx pb (ch_TxId chdr) ptx))" by blast
  note h = fabricx_NewInvocation_header [OF assms(1,2) hdr]
  from assms(5) have "resps \<noteq> []" by (auto simp: CreateTx_def)
  then obtain r where r: "r \<in> set resps" by (metis hd_in_set)
  with assms(4) obtain sg' ks where e: "enumerates ks (unwritten (er_RWS res))" "fabricx_Endorse pb sg' ks ivk res = Inr r"
    by (auto simp: endorsed_by_def)
  from fabricx_Endorse_payload [OF assms(1) e(2)] resps r obtain metadata where
    m: "EncodeMetadata pb \<lparr>meta_Event = er_Event res, meta_EventName = er_EventName res,
          meta_Payload = er_Payload res, meta_InputArgs = inv_Args ivk\<rparr> = Inr metadata" and
    ptx: "ptx = buildTx ks (er_RWS res) (inv_Namespace ivk) (inv_NsVersion ivk) metadata" by blast
  have "codec_ok (ma_Metadata pb) (um_Metadata pb)" using assms(1) by (simp add: packager_codecs_def)
  note md = EncodeMetadata_roundtrip [OF this m]
  have x: "xtx_Metadata ptx = metadata" unfolding ptx buildTx_closed [OF assms(3)] by (simp add: Let_def)
  from buildTx_decode [OF assms(3) e(1), of "inv_Namespace ivk" "inv_NsVersion ivk" metadata] obtain rws' where
    "DecodeNamespaces (xtx_Namespaces ptx) = [\<lparr>ns_Namespace = inv_Namespace ivk, ns_RWS = rws'\<rparr>]"
    "mset (Reads rws') = image_mset strip_read (mset (Reads (er_RWS res)))"
    "mset (Writes rws') = image_mset strip_write (mset (Writes (er_RWS res)))" unfolding ptx by blast
  with h p md x show ?thesis
    by (intro exI [of _ "decoded_tx pb (ch_TxId chdr) ptx"] exI [of _ rws']) (simp add: decoded_tx_def Let_def)
qed

text \<open>
  A Fabric-X transaction survives its way to the block. An invocation is built, any number of
  endorsers sign the same execution result, \<open>CreateTx\<close> packages their responses and the block parser
  reads the envelope: the parsed transaction has the invocation's id and arguments, the result's event
  and payload, and one namespace with exactly the reads and writes of the result, as Fabric-X keeps them.
\<close>

theorem endorse_package_parse:
  assumes "packager_codecs pb" and "fabricx_NewInvocation pb (Some sg) rnd now channel ns cv v args = Inr ivk"
    and "rws_keys_ok (er_RWS res)" and "\<forall>r \<in> set resps. endorsed_by pb ivk res r"
    and "CreateTx pb signer rnd' (inv_Proposal ivk) resps = Ok env"
  shows "\<exists>tx rws'. fabricx_ParseTx pb env = Ok (Some tx) \<and> tx_ID tx = inv_TxID ivk \<and> tx_InputArgs tx = args
    \<and> tx_Event tx = er_Event res \<and> tx_EventName tx = er_EventName res \<and> tx_Payload tx = er_Payload res
    \<and> tx_NsRWS tx = [\<lparr>ns_Namespace = ns, ns_RWS = rws'\<rparr>]
    \<and> mset (Reads rws') = image_mset strip_read (mset (Reads (er_RWS res)))
    \<and> mset (Writes rws') = image_mset strip_write (mset (Writes (er_RWS res)))"
  using assms by (rule endorsed_transaction_parses)

subsection \<open>Witnesses\<close>

lemma sample_codecs: "packager_codecs sample_pb"
proof -
  have "codec_ok (ma_Tx sample_pb) (um_Tx sample_pb)"
    using sample_tx_distinct by (auto simp: codec_ok_def sample_pb_defs split: if_splits)
  moreover have "codec_ok (ma_Metadata sample_pb) (um_Metadata sample_pb)"
    by (auto simp: codec_ok_def marshal_only_def split: if_splits)
  ultimately show ?thesis
    by (auto simp: packager_codecs_def codec_ok_def marshal_only_def split: if_splits)
qed

definition sample_result :: ExecutionResult where
  "sample_result = Success sample_rws '''' '''' ''ok''"

definition sample_invocation :: Invocation where
  "sample_invocation = \<lparr>inv_TxID = ''txid'', inv_Nonce = ''n'', inv_Creator = ''id'', inv_Args = [''f''],
     inv_Namespace = ''ns'', inv_ChaincodeVersion = '''', inv_NsVersion = 0, inv_Channel = ''ch'',
     inv_Proposal = \<lparr>prop_Header = ''hdr'', prop_Payload = ''''\<rparr>, inv_ProposalHash = ''''\<rparr>"

definition sample_response :: pb_ProposalResponse where
  "sample_response = \<lparr>pr_Version = 1, pr_Endorsement = Some \<lparr>end_Endorser = ''id'', end_Signature = ''sig''\<rparr>,
     pr_Payload = ''tx1'', pr_Response = Some \<lparr>rsp_Status = 200, rsp_Message = ''OK'', rsp_Payload = ''ok''\<rparr>\<rparr>"

lemma sample_NewInvocation:
  "fabricx_NewInvocation sample_pb (Some sample_signer) (Inr ''n'') \<lparr>ts_Seconds = 0, ts_Nanos = 0\<rparr> ''ch'' ''ns'' '''' 0 [''f'']
     = Inr sample_invocation"
  by (simp add: fabricx_NewInvocation_def sample_signer_def marshal_only_def sample_channel_header_def
      sample_header_def sample_invocation_def Let_def)

lemma sample_Endorse: "fabricx_Endorse sample_pb sample_signer [''a''] sample_invocation sample_result = Inr sample_response"
proof -
  have "buildTx [''a''] sample_rws ''ns'' 0 [''md''] = sample_tx" by (simp add: sample_tx_def)
  then show ?thesis
    by (simp add: fabricx_Endorse_def sample_result_def Success_def er_Validate_def EncodeMetadata_def
        marshal_only_def sample_metadata_def sample_invocation_def Let_def sample_signer_def sample_response_def er_Response_def)
qed

lemma sample_CreateTx:
  "CreateTx sample_pb None (Inr '''') (inv_Proposal sample_invocation) [sample_response, sample_response]
     = Ok \<lparr>env_Payload = ''pl'', env_Signature = ''''\<rparr>"
proof -
  have "sample_tx\<lparr>xtx_Endorsements := map (\<lambda>_. [(''sig'', sample_identity)]) (xtx_Namespaces sample_tx)\<rparr> = sample_endorsed_tx"
    by (simp add: sample_endorsed_tx_def sample_tx_def buildTx_def split: prod.splits)
  moreover have "\<lparr>pl_Header = Some \<lparr>hdr_ChannelHeader = ''chdr'', hdr_SignatureHeader = ''shdr''\<rparr>, pl_Data = ''tx2''\<rparr> = sample_payload"
    by (simp add: sample_payload_def sample_header_def)
  ultimately show ?thesis
    by (simp add: CreateTx_def sample_response_def signatureHeader_def messageHeader_def sample_invocation_def
        Let_def marshal_only_def)
qed

theorem CreateTx_ParseTx_witness:
  "\<exists>ptx. um_Tx sample_pb (pr_Payload sample_response) = Inr ptx
     \<and> fabricx_ParseTx sample_pb \<lparr>env_Payload = ''pl'', env_Signature = ''''\<rparr> = Ok (Some (decoded_tx sample_pb ''txid'' ptx))"
  using CreateTx_ParseTx [OF sample_codecs sample_CreateTx]
  by (auto simp: proposal_channel_header_def sample_invocation_def)

theorem endorse_package_parse_witness:
  "\<exists>tx. fabricx_ParseTx sample_pb \<lparr>env_Payload = ''pl'', env_Signature = ''''\<rparr> = Ok (Some tx)
     \<and> tx_ID tx = ''txid'' \<and> tx_InputArgs tx = [''f''] \<and> tx_Payload tx = ''ok''"
proof -
  have keys: "rws_keys_ok (er_RWS sample_result)" by (simp add: sample_result_def Success_def sample_rws_ok)
  have by_all: "\<forall>r \<in> set [sample_response, sample_response]. endorsed_by sample_pb sample_invocation sample_result r"
    using sample_Endorse sample_rws_unwritten(1) by (auto simp: endorsed_by_def sample_result_def Success_def)
  from endorse_package_parse [OF sample_codecs sample_NewInvocation keys by_all sample_CreateTx]
  show ?thesis by (auto simp: sample_invocation_def sample_result_def Success_def)
qed

end
