(* ===== verification/Local_Submit.thy ===== *)
theory Local_Submit
  imports Packager Commit_Flow
begin

section \<open>The local submitter (local/submit.go)\<close>

text \<open>
  \<open>LocalSubmitter\<close> stands in for an ordering service and a committer: it packages an endorsement, parses
  the envelope back, checks the reads against the shared state and stores the transaction as the next
  block. Database, packager and parser are interfaces, so they are fields of the model; the database
  operations take the database as it is when they are called. \<open>submitCheck\<close> is \<open>Submit\<close> up to the point
  where it hands the block to the database, so that two calls can be interleaved there.
\<close>

record 'db LocalSubmitter =
  ls_BlockNumber :: "'db \<Rightarrow> u64 res"
  ls_Handle :: "'db \<Rightarrow> Block \<Rightarrow> 'db \<times> goerror option"
  ls_recordGetter :: "'db \<Rightarrow> record_getter"
  ls_packager :: "sdk_Endorsement \<Rightarrow> pb_Envelope result"
  ls_parser :: "pb_Envelope \<Rightarrow> Transaction option result"
  ls_channel :: string
  ls_namespace :: string
  ls_monotonicVersions :: bool

definition NewLocalSubmitter :: "('db \<Rightarrow> u64 res) \<Rightarrow> ('db \<Rightarrow> Block \<Rightarrow> 'db \<times> goerror option) \<Rightarrow> ('db \<Rightarrow> record_getter)
    \<Rightarrow> string \<Rightarrow> string \<Rightarrow> (sdk_Endorsement \<Rightarrow> pb_Envelope result) \<Rightarrow> (pb_Envelope \<Rightarrow> Transaction option result)
    \<Rightarrow> bool \<Rightarrow> 'db LocalSubmitter" where
  "NewLocalSubmitter blockNumber handle recordGetter channel namespace packager txparser mv =
     \<lparr>ls_BlockNumber = blockNumber, ls_Handle = handle, ls_recordGetter = recordGetter, ls_packager = packager,
      ls_parser = txparser, ls_channel = channel, ls_namespace = namespace, ls_monotonicVersions = mv\<rparr>"

definition findNs :: "string \<Rightarrow> NsReadWriteSet list \<Rightarrow> ReadWriteSet" where
  "findNs ns nss =
     (case List.find (\<lambda>n. ns_Namespace n = ns) nss of Some n \<Rightarrow> ns_RWS n | None \<Rightarrow> \<lparr>Reads = [], Writes = []\<rparr>)"

definition checkMVCC :: "'db LocalSubmitter \<Rightarrow> 'db \<Rightarrow> Transaction \<Rightarrow> goerror option" where
  "checkMVCC s db tx =
     (let rws = findNs (ls_namespace s) (tx_NsRWS tx);
          block = zero_Block\<lparr>b_Transactions :=
            [zero_Transaction\<lparr>tx_NsRWS := [\<lparr>ns_Namespace = ls_namespace s, ns_RWS = rws\<rparr>]\<rparr>]\<rparr> in
      case Validate (NewMVCCValidator (ls_monotonicVersions s)) (ls_recordGetter s db) block of
        (_, _, Some err, _) \<Rightarrow> Some (wrap ''failed to get state for read validation: %w'' err)
      | (block', _, None, _) \<Rightarrow>
          if \<not> tx_Valid (hd (b_Transactions block'))
          then Some (Msg ''RWS INVALID for tx %q in namespace %q: %s''
                 [FQuo (tx_ID tx), FQuo (ls_namespace s), FErr (tx_Reason (hd (b_Transactions block')))])
          else None)"

definition submitCheck :: "'db LocalSubmitter \<Rightarrow> 'db \<Rightarrow> sdk_Endorsement \<Rightarrow> Block result" where
  "submitCheck s db end0 =
     (case ls_packager s end0 of
        Panic \<Rightarrow> Panic | Err err \<Rightarrow> Err (wrap ''package proposal: %w'' err)
      | Ok env \<Rightarrow>
     (case ls_parser s env of
        Panic \<Rightarrow> Panic | Err err \<Rightarrow> Err (wrap ''unpackage proposal: %w'' err)
      | Ok None \<Rightarrow> Panic
      | Ok (Some tx0) \<Rightarrow>
     (let tx = SetStatus StatusCommitted 0 emptyMsg tx0 in
      case ls_BlockNumber s db of
        Inl err \<Rightarrow> Err err
      | Inr blockNum \<Rightarrow>
     (case checkMVCC s db tx of
        Some err \<Rightarrow> Err err
      | None \<Rightarrow> Ok (zero_Block\<lparr>b_Number := blockNum + 1, b_Transactions := [tx]\<rparr>)))))"

definition Submit :: "'db LocalSubmitter \<Rightarrow> 'db \<Rightarrow> sdk_Endorsement \<Rightarrow> 'db \<times> unit result" where
  "Submit s db end0 =
     (case submitCheck s db end0 of
        Panic \<Rightarrow> (db, Panic) | Err err \<Rightarrow> (db, Err err)
      | Ok block \<Rightarrow>
          (case ls_Handle s db block of
             (db', Some err) \<Rightarrow> (db', Err err)
           | (db', None) \<Rightarrow> (db', Ok ())))"

subsection \<open>One submission at a time\<close>

text \<open>The reads of the submitter's namespace, judged as the committer judges them.\<close>

definition reads_current :: "bool \<Rightarrow> record_getter \<Rightarrow> string \<Rightarrow> Transaction \<Rightarrow> bool" where
  "reads_current mv get ns tx \<longleftrightarrow> (\<forall>r \<in> set (Reads (findNs ns (tx_NsRWS tx))).
     read_valid mv (state_of get ns (r_Key r)) (r_Version r))"

lemma checkMVCC_iff:
  assumes "get_total (ls_recordGetter s db)"
  shows "checkMVCC s db tx = None \<longleftrightarrow>
    reads_current (ls_monotonicVersions s) (ls_recordGetter s db) (ls_namespace s) tx"
proof -
  let ?t = "zero_Transaction\<lparr>tx_NsRWS := [\<lparr>ns_Namespace = ls_namespace s, ns_RWS = findNs (ls_namespace s) (tx_NsRWS tx)\<rparr>]\<rparr>"
  let ?l = "NewMVCCValidator (ls_monotonicVersions s)" and ?b = "zero_Block\<lparr>b_Transactions := [?t]\<rparr>"
  obtain b' filt e l' where v: "Validate ?l (ls_recordGetter s db) ?b = (b', filt, e, l')" by (metis prod_cases4)
  from Validate_single [OF assms codes_fit_default v, of ?t]
  obtain t' where t': "b_Transactions b' = [t']" "e = None"
    "tx_Status t' = (if \<forall>(ns, r) \<in> set (reads_of ?t). read_valid (ls_monotonicVersions s)
        (state_of (ls_recordGetter s db) ns (r_Key r)) (r_Version r) then StatusCommitted else StatusMVCCConflict)"
    by (auto simp: NewMVCCValidator_def)
  have "checkMVCC s db tx = None \<longleftrightarrow> tx_Valid t'" using v t'(1,2) by (simp add: checkMVCC_def)
  also have "\<dots> \<longleftrightarrow> reads_current (ls_monotonicVersions s) (ls_recordGetter s db) (ls_namespace s) tx"
    using t'(3) by (auto simp: tx_Valid_iff reads_current_def reads_of_def)
  finally show ?thesis .
qed

definition submitted_block :: "u64 \<Rightarrow> Transaction \<Rightarrow> Block" where
  "submitted_block n tx = zero_Block\<lparr>b_Number := n, b_Transactions := [SetStatus StatusCommitted 0 emptyMsg tx]\<rparr>"

lemma submitted_block_ok:
  assumes "tx_Number tx = 0" and "distinct (map (\<lambda>(ns, w). (ns, w_Key w)) (writes_of tx))"
  shows "numbers_ok (submitted_block n tx)" "single_writes (submitted_block n tx)" "b_Number (submitted_block n tx) = n"
proof -
  let ?t = "SetStatus StatusCommitted 0 emptyMsg tx"
  have "block_writes (submitted_block n tx) = map (Pair ?t) (writes_of tx)"
    by (simp add: submitted_block_def block_writes_def tx_Valid_iff)
  then have "map (\<lambda>(t, ns, w). (tx_Number t, ns, w_Key w)) (block_writes (submitted_block n tx))
      = map (Pair 0) (map (\<lambda>(ns, w). (ns, w_Key w)) (writes_of tx))"
    using assms(1) by auto
  then show "single_writes (submitted_block n tx)"
    using assms(2) unfolding single_writes_def by (simp only:) (simp add: distinct_map inj_on_def)
  show "numbers_ok (submitted_block n tx)" "b_Number (submitted_block n tx) = n"
    using assms(1) by (simp_all add: numbers_ok_def submitted_block_def)
qed

lemma next_block_height:
  assumes "db_inv db" and "BlockNumber db = Inr n" and "uint n + 1 < 2 ^ 63" and "b_Number b = n + 1"
  shows "next_block db b"
proof -
  have u: "uint (n + 1) = uint n + 1" using assms(3) by (simp add: uint_word_ariths(1))
  have "m \<le> uint n" if "channel_progress db (db_channel db) = Some m" for m
    using that assms(2) BlockNumber_uint [OF assms(1)] progress_uint [OF assms(1) that] by simp
  with u assms(3,4) show ?thesis by (fastforce simp: next_block_def split: option.splits)
qed

text \<open>
  C26: A submission on its own is atomic and exact: the transaction is stored as the next block if and
  only if the version of every read of the submitter's namespace is current; otherwise \<open>Submit\<close> returns an
  error and the state is unchanged.
\<close>

theorem Submit_exact:
  assumes "db_inv db" and "BlockNumber db = Inr n" and "uint n + 1 < 2 ^ 63"
    and "s = NewLocalSubmitter BlockNumber db_Handle db_Get ch ns packager txparser mv"
    and "packager end0 = Ok env" and "txparser env = Ok (Some tx)"
    and "tx_Number tx = 0" and "distinct (map (\<lambda>(ns, w). (ns, w_Key w)) (writes_of tx))"
    and "Submit s db end0 = (db', r)"
  shows "if reads_current mv (db_Get db) ns tx
    then r = Ok () \<and> db_inv db' \<and> BlockNumber db' = Inr (n + 1)
      \<and> history db' = commit_block (submitted_block (n + 1) tx) (history db)
    else (\<exists>e. r = Err e) \<and> db' = db"
proof -
  have s: "ls_BlockNumber s = BlockNumber" "ls_Handle s = db_Handle" "ls_recordGetter s = db_Get"
    "ls_packager s = packager" "ls_parser s = txparser" "ls_namespace s = ns" "ls_monotonicVersions s = mv"
    by (simp_all add: assms(4) NewLocalSubmitter_def)
  let ?tx = "SetStatus StatusCommitted 0 emptyMsg tx" and ?b = "submitted_block (n + 1) tx"
  have c: "checkMVCC s db ?tx = None \<longleftrightarrow> reads_current mv (db_Get db) ns tx"
    using checkMVCC_iff [of s db ?tx] db_Get_total [OF assms(1)] by (simp add: s reads_current_def)
  have sc: "submitCheck s db end0 = (case checkMVCC s db ?tx of Some err \<Rightarrow> Err err | None \<Rightarrow> Ok ?b)"
    using assms(2,5,6) by (simp add: submitCheck_def s submitted_block_def Let_def split: option.split)
  show ?thesis
  proof (cases "checkMVCC s db ?tx")
    case (Some err)
    with c sc assms(9) show ?thesis by (auto simp: Submit_def)
  next
    case None
    note B = submitted_block_ok [OF assms(7,8), of "n + 1"]
    obtain db1 where "UpdateWorldState db ?b = (db1, None)" "history db1 = commit_block ?b (history db)"
        "BlockNumber db1 = Inr (n + 1)"
      using UpdateWorldState_commits [OF assms(1) B(1) next_block_height [OF assms(1-3) B(3)] B(2)] B(3) by auto
    moreover from this have "db_inv db1" using db_inv_UpdateWorldState [OF assms(1) B(1)] by blast
    ultimately show ?thesis using None c sc assms(9) by (auto simp: Submit_def s db_Handle_def)
  qed
qed

subsection \<open>Two submissions at a time\<close>

text \<open>
  A packager that takes the transaction to be the payload of the proposal, and a parser that knows two of
  them: one reads \<open>a\<close> and writes \<open>b\<close>, the other reads \<open>b\<close> and writes \<open>a\<close>.
\<close>

definition sample_packager :: "sdk_Endorsement \<Rightarrow> pb_Envelope result" where
  "sample_packager e = Ok \<lparr>env_Payload = prop_Payload (e_Proposal e), env_Signature = ''''\<rparr>"

definition sample_skew :: "string \<Rightarrow> string \<Rightarrow> string \<Rightarrow> Transaction" where
  "sample_skew txid k k' = zero_Transaction\<lparr>tx_ID := txid, tx_NsRWS := [\<lparr>ns_Namespace = ''ns'',
     ns_RWS = \<lparr>Reads = [\<lparr>r_Key = k, r_Version = None\<rparr>], Writes = [\<lparr>w_Key = k', w_IsDelete = False, w_Value = ''v''\<rparr>]\<rparr>\<rparr>]\<rparr>"

definition sample_txparser :: "pb_Envelope \<Rightarrow> Transaction option result" where
  "sample_txparser env =
     (if env_Payload env = ''1'' then Ok (Some (sample_skew ''1'' ''a'' ''b''))
      else if env_Payload env = ''2'' then Ok (Some (sample_skew ''2'' ''b'' ''a''))
      else Ok None)"

definition sample_submitter :: "VersionedDB LocalSubmitter" where
  "sample_submitter = NewLocalSubmitter BlockNumber db_Handle db_Get ''ch'' ''ns'' sample_packager sample_txparser True"

definition sample_end :: "string \<Rightarrow> sdk_Endorsement" where
  "sample_end p = \<lparr>e_Proposal = \<lparr>prop_Header = '''', prop_Payload = p\<rparr>, e_Responses = []\<rparr>"

lemmas sample_submit_defs = sample_submitter_def NewLocalSubmitter_def sample_packager_def sample_txparser_def sample_end_def

theorem Submit_exact_witness:
  "\<exists>db'. Submit sample_submitter (NewWriteDB ''ch'') (sample_end ''1'') = (db', Ok ()) \<and> BlockNumber db' = Inr 1
     \<and> length (history db' (''ns'', ''b'')) = 1"
proof -
  let ?t = "sample_skew ''1'' ''a'' ''b''"
  obtain db' r where S: "Submit sample_submitter (NewWriteDB ''ch'') (sample_end ''1'') = (db', r)" by fastforce
  have n: "BlockNumber (NewWriteDB ''ch'') = Inr 0" by (simp add: BlockNumber_def NewWriteDB_def)
  have "db_Get (NewWriteDB ''ch'') ns k = Inr None" for ns k
    by (simp add: db_Get_def queryLatest_def NewWriteDB_def)
  then have "reads_current True (db_Get (NewWriteDB ''ch'')) ''ns'' ?t"
    by (simp add: reads_current_def sample_skew_def findNs_def state_of_def read_valid_def live_def)
  with Submit_exact [OF db_inv_NewWriteDB n _ sample_submitter_def _ _ _ _ S,
      of "\<lparr>env_Payload = ''1'', env_Signature = ''''\<rparr>" ?t]
  have "r = Ok ()" "BlockNumber db' = Inr 1"
    "history db' = commit_block (submitted_block 1 ?t) (history (NewWriteDB ''ch''))"
    by (auto simp: sample_submit_defs) (simp_all add: sample_skew_def zero_Transaction_def writes_of_def)
  with S show ?thesis
    by (simp add: commit_block_def submitted_block_def block_writes_def tx_Valid_iff append_write_def)
      (simp add: sample_skew_def writes_of_def append_write_def history_def NewWriteDB_def)
qed


end
