(* ===== verification/Network_Client.thy ===== *)
theory Network_Client
  imports Test_Replica Local_Submit
begin

section \<open>The test network and its clients\<close>

text \<open>
  The components put together. A network runs while a synchronizer follows it: the steps of the two interleave,
  and the chain the synchronizer reads is the one the ledger has at that moment. A transaction goes all the way:
  simulated on the current state, endorsed, packaged, ordered, validated, committed, and read back.
\<close>

subsection \<open>The ledger of a network with its own database\<close>

lemma linked_chain_ok:
  assumes "linked pb lc bs" and "length bs \<le> 2 ^ 63" and "\<forall>b \<in> set bs. length (raw_data b) \<le> 2 ^ 63"
  shows "chain_ok bs"
  unfolding chain_ok_def
proof (intro conjI allI impI assms(2))
  fix i assume i: "i < length bs"
  with assms(1) have "link_ok pb lc (if i = 0 then None else Some (bs ! (i - 1))) i (bs ! i)" by (simp add: linked_def)
  then show "raw_number (bs ! i) = of_nat i" by (cases "blk_Header (bs ! i)"; cases "blk_Data (bs ! i)") (simp_all add: link_ok_def raw_number_def)
  from i assms(3) show "length (raw_data (bs ! i)) \<le> 2 ^ 63" by simp
qed

lemma chain_ok_append:
  assumes "chain_ok (xs @ ys)"
  shows "chain_ok xs"
proof -
  have "(xs @ ys) ! i = xs ! i" if "i < length xs" for i using that by (simp add: nth_append)
  with assms show ?thesis by (simp add: chain_ok_def) (metis trans_less_add1)
qed

text \<open>
  What a step of the network does to the chain and to the channels of a ledger with its own database: at most one
  block is added, and every channel with room gets it.
\<close>

definition offered :: "pb_Block list \<Rightarrow> pb_Block list \<Rightarrow> pb_Block list" where
  "offered bs ch = (if length ch < l_subCap then ch @ bs else ch)"

lemma offered_Nil [simp]: "offered [] ch = ch"
  by (simp add: offered_def)

definition published :: "ledger \<Rightarrow> ledger \<Rightarrow> bool" where
  "published l l' \<longleftrightarrow> (l_db l \<noteq> None \<longrightarrow> l_db l' \<noteq> None \<and> (\<exists>bs new. length bs \<le> 1 \<and> l_blocks l' = l_blocks l @ bs
     \<and> l_subs l' = map (offered bs) (l_subs l) @ new))"

lemma published_same: "l_blocks l' = l_blocks l \<Longrightarrow> l_db l' = l_db l \<Longrightarrow> l_subs l' = l_subs l @ new \<Longrightarrow> published l l'"
  unfolding published_def by (intro impI conjI exI [of _ "[]"] exI [of _ new]) (simp_all add: map_idI)

lemma published_commit: "published l (fst (commit l bl fbl))"
proof (cases "l_db l")
  case (Some db)
  obtain db' e where u: "UpdateWorldState db bl = (db', e)" by (rule prod.exhaust)
  show ?thesis
  proof (cases "if l_closed l then Some errDBClosed else e")
    case None
    then have "\<not> l_closed l" "e = None" by (simp_all split: if_splits)
    with Some u show ?thesis unfolding published_def
      by (intro impI conjI exI [of _ "[fbl]"] exI [of _ "[]"]) (simp_all add: commit_def offered_def)
  next
    case e: (Some err)
    from u e have "l_closed l \<or> e = Some err \<and> db' = db" by (auto simp: UpdateWorldState_def split: sum.splits if_splits)
    with Some u show ?thesis by (intro published_same [of _ _ "[]"]) (auto simp: commit_def)
  qed
qed (simp add: published_def)

lemma published_validator [simp]: "published (l\<lparr>l_validator := v\<rparr>) l' = published l l'" "published l (l\<lparr>l_validator := v\<rparr>)" "published l l"
  by (simp add: published_def) (rule published_same [of _ _ "[]"]; simp)+

lemma published_process: "published l (fst (ledger_process pb lc now ext l env))"
proof -
  have c: "published l (fst (commit (l\<lparr>l_validator := v\<rparr>) bl fbl))" for v bl fbl
    using published_commit [of "l\<lparr>l_validator := v\<rparr>" bl fbl] by simp
  show ?thesis by (auto simp: ledger_process_def Let_def c split: option.splits prod.splits result.splits)
qed

lemma published_truncate: "published l (fst (ledger_truncate num l))"
  by (cases "l_db l") (simp_all add: ledger_truncate_def, simp add: published_def)

lemma orderer_step_published:
  assumes "orderer_step pb lc cfg ord ord'"
  shows "published (o_ledger ord) (o_ledger ord')"
  using assms
proof (cases rule: orderer_step.cases)
  case (event now ext ev r)
  show ?thesis by (rule batchingStep_ledger [OF event(1)]) (simp_all add: published_process published_truncate)
next
  case (subscribed l' existing)
  then show ?thesis by (intro published_same [of _ _ "[[]]"]) (auto simp: subscribe_def)
qed

subsection \<open>A synchronizer on the network's peer\<close>

text \<open>
  A connection as \<open>Deliver\<close> serves it: the blocks of the snapshot still to be sent, the blocks sent and not yet
  received, the number of the subscription and the start block. The peer reads the channel of the subscription
  only when the snapshot is sent. A subscription stays in the ledger when its stream ends.
\<close>

record connection =
  c_snapshot :: "pb_Block list"
  c_wire :: "pb_Block list"
  c_sub :: nat
  c_start :: u64

record 's client_net =
  net :: testOrderer
  client :: "'s sync_world"
  conn :: "connection option"

definition wanted :: "u64 \<Rightarrow> pb_Block list \<Rightarrow> pb_Block list" where
  "wanted startNum = filter (\<lambda>b. \<not> raw_number b < startNum)"

definition hangup :: "'s sync_world \<Rightarrow> connection option \<Rightarrow> connection option" where
  "hangup w c = (case pc w of Delivering k \<Rightarrow> c | _ \<Rightarrow> None)"

definition connectStep :: "nat \<Rightarrow> 's client_net \<Rightarrow> 's client_net" where
  "connectStep k s =
     (case subscribe (o_ledger (net s)) of (l', existing) \<Rightarrow>
        s\<lparr>net := (net s)\<lparr>o_ledger := l'\<rparr>,
          conn := Some \<lparr>c_snapshot = wanted (of_nat k) existing, c_wire = [], c_sub = length (l_subs (o_ledger (net s))),
            c_start = of_nat k\<rparr>\<rparr>)"

definition takeStep :: "connection \<Rightarrow> pb_Block \<Rightarrow> pb_Block list \<Rightarrow> 's client_net \<Rightarrow> 's client_net" where
  "takeStep c b bs s =
     s\<lparr>net := (net s)\<lparr>o_ledger := (o_ledger (net s))\<lparr>l_subs := (l_subs (o_ledger (net s)))[c_sub c := bs]\<rparr>\<rparr>,
       conn := Some (c\<lparr>c_wire := c_wire c @ wanted (c_start c) [b]\<rparr>)\<rparr>"

inductive client_step :: "protos \<Rightarrow> ledger_protos \<Rightarrow> orderer_config \<Rightarrow> (int64 \<Rightarrow> 's \<Rightarrow> pb_Block \<Rightarrow> 's \<times> unit result) \<Rightarrow> ('s \<Rightarrow> u64 res)
    \<Rightarrow> 's client_net \<Rightarrow> 's client_net \<Rightarrow> bool"
  for pb lc cfg process height where
  network: "orderer_step pb lc cfg (net s) ord' \<Longrightarrow> client_step pb lc cfg process height s (s\<lparr>net := ord'\<rparr>)"
| connect: "pc (client s) = Delivering k \<Longrightarrow> conn s = None \<Longrightarrow> client_step pb lc cfg process height s (connectStep k s)"
| send: "conn s = Some c \<Longrightarrow> c_snapshot c = b # bs
    \<Longrightarrow> client_step pb lc cfg process height s (s\<lparr>conn := Some (c\<lparr>c_snapshot := bs, c_wire := c_wire c @ [b]\<rparr>)\<rparr>)"
| take_sub: "conn s = Some c \<Longrightarrow> c_snapshot c = [] \<Longrightarrow> l_subs (o_ledger (net s)) ! c_sub c = b # bs
    \<Longrightarrow> client_step pb lc cfg process height s (takeStep c b bs s)"
| receive: "conn s = Some c \<Longrightarrow> c_wire c = b # bs \<Longrightarrow> pc (client s) = Delivering k
    \<Longrightarrow> w' = received (process now) (RecvBlock b) k (client s)
    \<Longrightarrow> client_step pb lc cfg process height s (s\<lparr>client := w', conn := hangup w' (Some (c\<lparr>c_wire := bs\<rparr>))\<rparr>)"
| other: "sync_step process height [] (client s) w'
    \<Longrightarrow> client_step pb lc cfg process height s (s\<lparr>client := w', conn := hangup w' (conn s)\<rparr>)"

text \<open>The peer keeps up when the channel of the client's subscription has room.\<close>

definition keeps_up :: "'s client_net \<Rightarrow> bool" where
  "keeps_up s = (case conn s of None \<Rightarrow> True | Some c \<Rightarrow> length (l_subs (o_ledger (net s)) ! c_sub c) < l_subCap)"

definition client_start :: "testOrderer \<Rightarrow> 's \<Rightarrow> 's client_net" where
  "client_start ord s = \<lparr>net = ord, client = NewSynchronizer s, conn = None\<rparr>"

abbreviation chain_of :: "'s client_net \<Rightarrow> pb_Block list" where
  "chain_of s \<equiv> l_blocks (o_ledger (net s))"


subsection \<open>A client whose peer keeps up\<close>

lemma wanted_drop:
  assumes "chain_ok chain" and "k \<le> length chain"
  shows "wanted (of_nat k) chain = drop k chain"
proof -
  have "wanted (of_nat k) (take k chain) = []" "wanted (of_nat k) (drop k chain) = drop k chain"
    using assms chain_number_less [OF assms(1) _ assms(2)]
    by (auto simp: wanted_def filter_empty_conv filter_id_conv in_set_conv_nth)
  then show ?thesis by (metis append_Nil append_take_drop_id filter_append wanted_def)
qed

lemma sync_step_no_block: "sync_step process hgt [] w w' \<Longrightarrow> sync_step process hgt chain w w'"
  by (erule sync_step.cases) (auto intro: sync_step.intros)

lemma sync_step_keeps_position:
  assumes "sync_step process hgt [] w w'" and "pc w = Delivering k" and "pc w' = Delivering k'"
  shows "k' = k"
  using assms
  by (cases rule: sync_step.cases)
    (auto simp: received_def failed_def exitStart_def monitorExit_def monitorCompare_def split: prod.splits option.splits result.splits if_splits sum.splits)

lemma received_position:
  "pc (received p (RecvBlock b) k w) = Delivering k' \<Longrightarrow> k' = Suc k"
  by (auto simp: received_def failed_def exitStart_def split: prod.splits option.splits result.splits if_splits)

text \<open>
  What is on its way to a connected client is the rest of the chain, with nothing missing: the blocks sent, then
  the snapshot, then the channel.
\<close>

definition on_the_way :: "'s client_net \<Rightarrow> bool" where
  "on_the_way s = (case conn s of None \<Rightarrow> True | Some c \<Rightarrow>
     c_sub c < length (l_subs (o_ledger (net s)))
     \<and> (\<exists>k. pc (client s) = Delivering k \<and> c_wire c @ c_snapshot c @ l_subs (o_ledger (net s)) ! c_sub c = drop k (chain_of s))
     \<and> (\<exists>j. c_start c = of_nat j \<and> j + length (l_subs (o_ledger (net s)) ! c_sub c) \<le> length (chain_of s)))"

lemma network_on_the_way:
  assumes "published (o_ledger (net s)) (o_ledger ord')" and "l_db (o_ledger (net s)) \<noteq> None"
    and "on_the_way s" and "keeps_up s" and "delivers_held n (client s)" and "n \<le> length (chain_of s)"
  shows "on_the_way (s\<lparr>net := ord'\<rparr>)"
proof (cases "conn s")
  case (Some c)
  from assms(1,2) obtain bs new where p: "l_blocks (o_ledger ord') = chain_of s @ bs" 
    "l_subs (o_ledger ord') = map (offered bs) (l_subs (o_ledger (net s))) @ new" by (auto simp: published_def)
  from assms(3) Some obtain k j where c: "c_sub c < length (l_subs (o_ledger (net s)))" "pc (client s) = Delivering k"
    "c_wire c @ c_snapshot c @ l_subs (o_ledger (net s)) ! c_sub c = drop k (chain_of s)"
    "c_start c = of_nat j" "j + length (l_subs (o_ledger (net s)) ! c_sub c) \<le> length (chain_of s)"
    by (auto simp: on_the_way_def)
  have "k \<le> length (chain_of s)" using assms(5,6) c(2) by (simp add: delivers_held_def)
  then have d: "drop k (chain_of s @ bs) = drop k (chain_of s) @ bs" by simp
  have "l_subs (o_ledger ord') ! c_sub c = l_subs (o_ledger (net s)) ! c_sub c @ bs"
    using assms(4) Some c(1) p(2) by (simp add: nth_append keeps_up_def offered_def)
  moreover have "j + length (l_subs (o_ledger (net s)) ! c_sub c @ bs) \<le> length (l_blocks (o_ledger ord'))" using c(5) p(1) by simp
  moreover have "c_wire c @ c_snapshot c @ l_subs (o_ledger (net s)) ! c_sub c @ bs = drop k (l_blocks (o_ledger ord'))"
    unfolding p(1) d c(3) [symmetric] by simp
  moreover have "c_sub c < length (l_subs (o_ledger ord'))" using c(1) p(2) by simp
  ultimately show ?thesis using Some c(2,4) unfolding on_the_way_def by simp blast
qed (simp add: on_the_way_def)

lemma take_on_the_way:
  assumes "on_the_way s" and "chain_ok (chain_of s)" and "conn s = Some c" and "c_snapshot c = []"
    and "l_subs (o_ledger (net s)) ! c_sub c = b # bs"
  shows "on_the_way (takeStep c b bs s)"
proof -
  from assms(1,3-5) obtain k j where c: "c_sub c < length (l_subs (o_ledger (net s)))" "pc (client s) = Delivering k"
    "c_wire c @ b # bs = drop k (chain_of s)" "c_start c = of_nat j" "j + length (b # bs) \<le> length (chain_of s)"
    by (auto simp: on_the_way_def)
  let ?i = "k + length (c_wire c)"
  have l: "?i + length (b # bs) = length (chain_of s)" using arg_cong [OF c(3), of length] by (cases "k \<le> length (chain_of s)") auto
  have "drop k (chain_of s) ! length (c_wire c) = b" using c(3) by (metis nth_append_length)
  with l have "chain_of s ! ?i = b" by simp
  with chain_number_less [OF assms(2), of ?i j] l c(5) have "\<not> raw_number b < c_start c" by (simp add: c(4))
  then have w: "wanted (c_start c) [b] = [b]" by (simp add: wanted_def)
  from c(5) have "j + length bs \<le> length (chain_of s)" by simp
  with c(1-4) assms(4) w show ?thesis by (auto simp: on_the_way_def takeStep_def)
qed

text \<open>Runs in which the peer keeps up, and what a run keeps of the ledger.\<close>

abbreviation kept_up :: "protos \<Rightarrow> ledger_protos \<Rightarrow> orderer_config \<Rightarrow> (int64 \<Rightarrow> 's \<Rightarrow> pb_Block \<Rightarrow> 's \<times> unit result) \<Rightarrow> ('s \<Rightarrow> u64 res)
    \<Rightarrow> 's client_net \<Rightarrow> 's client_net \<Rightarrow> bool" where
  "kept_up pb lc cfg process hgt \<equiv> (\<lambda>s s'. keeps_up s \<and> client_step pb lc cfg process hgt s s')\<^sup>*\<^sup>*"

lemma client_step_ledger:
  assumes "client_step pb lc cfg process hgt s s'" and "P (o_ledger (net s))"
    and "\<And>now ext l env. P l \<Longrightarrow> P (fst (ledger_process pb lc now ext l env))"
    and "\<And>num l. P l \<Longrightarrow> P (fst (ledger_truncate num l))" and "\<And>l subs. P l \<Longrightarrow> P (l\<lparr>l_subs := subs\<rparr>)"
  shows "P (o_ledger (net s'))"
  using assms(1)
proof (cases rule: client_step.cases)
  case (network ord')
  from orderer_ledger_invariant [OF r_into_rtranclp [where r = "orderer_step pb lc cfg"], OF network(2), of P] assms(2-5) network(1)
  show ?thesis by (simp add: subscribe_def)
qed (use assms(2,5) in \<open>simp_all add: connectStep_def takeStep_def subscribe_def\<close>)

lemma kept_up_ledger:
  assumes "kept_up pb lc cfg process hgt s s'" and "P (o_ledger (net s))"
    and "\<And>now ext l env. P l \<Longrightarrow> P (fst (ledger_process pb lc now ext l env))"
    and "\<And>num l. P l \<Longrightarrow> P (fst (ledger_truncate num l))" and "\<And>l subs. P l \<Longrightarrow> P (l\<lparr>l_subs := subs\<rparr>)"
  shows "P (o_ledger (net s'))"
  using assms(1)
proof (induction rule: rtranclp_induct)
  case (step s1 s2)
  from step(2) have "client_step pb lc cfg process hgt s1 s2" ..
  then show ?case by (rule client_step_ledger [of pb lc cfg process hgt s1 s2 P, OF _ step(3) assms(3-5)])
qed (rule assms(2))

lemma client_step_grows:
  assumes "client_step pb lc cfg process hgt s s'" and "l_db (o_ledger (net s)) \<noteq> None"
  shows "\<exists>bs. chain_of s' = chain_of s @ bs"
  using assms(1)
proof (cases rule: client_step.cases)
  case (network ord')
  with orderer_step_published [OF network(2)] assms(2) show ?thesis by (auto simp: published_def)
qed (simp_all add: connectStep_def takeStep_def subscribe_def)

locale growing_replica = replica process height holds
  for process :: "int64 \<Rightarrow> 's \<Rightarrow> pb_Block \<Rightarrow> 's \<times> unit result" and height :: "'s \<Rightarrow> u64 res"
    and holds :: "pb_Block list \<Rightarrow> nat \<Rightarrow> 's \<Rightarrow> bool" +
  assumes holds_grows: "holds chain n s \<Longrightarrow> chain_ok (chain @ bs) \<Longrightarrow> holds (chain @ bs) n s"
begin

definition client_inv :: "'s client_net \<Rightarrow> bool" where
  "client_inv s \<longleftrightarrow> l_db (o_ledger (net s)) \<noteq> None \<and> on_the_way s
     \<and> (\<exists>n. holds (chain_of s) n (store (client s)) \<and> delivers_held n (client s))"

lemma receive_inv:
  assumes "client_inv s" and "conn s = Some c" and "c_wire c = b # bs" and "pc (client s) = Delivering k"
    and "w' = received (process now) (RecvBlock b) k (client s)"
  shows "client_inv (s\<lparr>client := w', conn := hangup w' (Some (c\<lparr>c_wire := bs\<rparr>))\<rparr>)"
proof -
  from assms(1-4) obtain n where n: "holds (chain_of s) n (store (client s))" "delivers_held n (client s)"
    and d: "b # bs @ c_snapshot c @ l_subs (o_ledger (net s)) ! c_sub c = drop k (chain_of s)"
    by (auto simp: client_inv_def on_the_way_def)
  from d have k: "k < length (chain_of s)" "chain_of s ! k = b" "bs @ c_snapshot c @ l_subs (o_ledger (net s)) ! c_sub c = drop (Suc k) (chain_of s)"
    by (cases "k < length (chain_of s)"; simp add: Cons_nth_drop_Suc [symmetric])+
  from sync_step.block [OF assms(4) k(1), of process height now] have "sync_step process height (chain_of s) (client s) w'"
    by (simp add: assms(5) k(2))
  from sync_step_holds [OF this n] obtain m where "holds (chain_of s) m (store w')" "delivers_held m w'" by blast
  moreover have "on_the_way (s\<lparr>client := w', conn := hangup w' (Some (c\<lparr>c_wire := bs\<rparr>))\<rparr>)"
  proof (cases "pc w'")
    case (Delivering k')
    with assms(5) received_position have "k' = Suc k" by blast
    with Delivering k(3) assms(1,2) show ?thesis by (auto simp: client_inv_def on_the_way_def hangup_def)
  qed (simp_all add: on_the_way_def hangup_def)
  ultimately show ?thesis using assms(1) by (auto simp: client_inv_def)
qed

lemma other_inv:
  assumes "client_inv s" and "sync_step process height [] (client s) w'"
  shows "client_inv (s\<lparr>client := w', conn := hangup w' (conn s)\<rparr>)"
proof -
  from assms(1) obtain n where n: "holds (chain_of s) n (store (client s))" "delivers_held n (client s)"
    by (auto simp: client_inv_def)
  from sync_step_holds [OF sync_step_no_block [OF assms(2)] n] obtain m where
    "holds (chain_of s) m (store w')" "delivers_held m w'" by blast
  moreover have "on_the_way (s\<lparr>client := w', conn := hangup w' (conn s)\<rparr>)"
  proof (cases "pc w'")
    case (Delivering k')
    show ?thesis
    proof (cases "conn s")
      case (Some c)
      with assms(1) obtain k where "pc (client s) = Delivering k" by (auto simp: client_inv_def on_the_way_def)
      with sync_step_keeps_position [OF assms(2) this Delivering] Delivering Some assms(1) show ?thesis
        by (auto simp: client_inv_def on_the_way_def hangup_def)
    qed (simp add: on_the_way_def hangup_def Delivering)
  qed (simp_all add: on_the_way_def hangup_def)
  ultimately show ?thesis using assms(1) by (auto simp: client_inv_def)
qed

lemma connect_inv:
  assumes "client_inv s" and "pc (client s) = Delivering k" and "conn s = None" and "chain_ok (chain_of s)"
  shows "client_inv (connectStep k s)"
proof -
  from assms(1) obtain n where n: "holds (chain_of s) n (store (client s))" "delivers_held n (client s)"
    by (auto simp: client_inv_def)
  from n(2) holds_bound [OF n(1)] assms(2) have k: "k \<le> length (chain_of s)" by (simp add: delivers_held_def)
  have "on_the_way (connectStep k s)"
    using assms(2) k by (simp add: on_the_way_def connectStep_def subscribe_def wanted_drop [OF assms(4) k]) blast
  with assms(1) show ?thesis by (simp add: client_inv_def connectStep_def subscribe_def)
qed

lemma network_inv:
  assumes "client_inv s" and "orderer_step pb lc cfg (net s) ord'" and "keeps_up s" and "chain_ok (l_blocks (o_ledger ord'))"
  shows "client_inv (s\<lparr>net := ord'\<rparr>)"
proof -
  note p = orderer_step_published [OF assms(2)]
  from assms(1) obtain n where n: "holds (chain_of s) n (store (client s))" "delivers_held n (client s)"
    and db: "l_db (o_ledger (net s)) \<noteq> None" "on_the_way s" by (auto simp: client_inv_def)
  from holds_bound [OF n(1)] have le: "n \<le> length (chain_of s)" by simp
  from p db(1) obtain bs where bs: "l_blocks (o_ledger ord') = chain_of s @ bs" "l_db (o_ledger ord') \<noteq> None" by (auto simp: published_def)
  have "holds (l_blocks (o_ledger ord')) n (store (client s))" using holds_grows [OF n(1)] assms(4) bs(1) by simp
  with network_on_the_way [OF p db assms(3) n(2) le] n(2) bs(2) show ?thesis by (auto simp: client_inv_def)
qed

lemma client_step_inv:
  assumes "client_step pb lc cfg process height s s'" and "client_inv s" and "keeps_up s" and "chain_ok (chain_of s')"
  shows "client_inv s'"
  using assms(1)
proof (cases rule: client_step.cases)
  case (network ord')
  with network_inv [OF assms(2) network(2) assms(3)] assms(4) show ?thesis by simp
next
  case (connect k)
  with connect_inv [OF assms(2)] assms(4) show ?thesis by (simp add: connectStep_def subscribe_def)
next
  case (send c b bs)
  with assms(2) show ?thesis by (auto simp: client_inv_def on_the_way_def)
next
  case (take_sub c b bs)
  with take_on_the_way [of s c b bs] assms(2,4) show ?thesis by (auto simp: client_inv_def takeStep_def)
next
  case (receive c b bs k w' now)
  with receive_inv [OF assms(2)] show ?thesis by blast
next
  case (other w')
  with other_inv [OF assms(2)] show ?thesis by blast
qed

lemma kept_up_inv:
  assumes "kept_up pb lc cfg process height s s'" and "client_inv s" and "chain_ok (chain_of s')"
  shows "client_inv s'"
  using assms(1,3)
proof (induction rule: rtranclp_induct)
  case (step s1 s2)
  from step(2) have st: "keeps_up s1" "client_step pb lc cfg process height s1 s2" by simp_all
  have "l_db (o_ledger (net s1)) \<noteq> None"
  proof (rule kept_up_ledger [OF step(1), of "\<lambda>l. l_db l \<noteq> None"])
    show "l_db (fst (ledger_process pb lc now ext l env)) \<noteq> None" if "l_db l \<noteq> None" for now ext l env
      using published_process [of l pb lc now ext env] that by (simp add: published_def)
    show "l_db (fst (ledger_truncate num l)) \<noteq> None" if "l_db l \<noteq> None" for num l
      using published_truncate [of l num] that by (simp add: published_def)
  qed (use assms(2) in \<open>simp_all add: client_inv_def\<close>)
  from client_step_grows [OF st(2) this] step(4) have "chain_ok (chain_of s1)" by (auto dest: chain_ok_append)
  from client_step_inv [OF st(2) step(3) [OF this] st(1) step(4)] show ?case .
qed (rule assms(2))

lemma follows_network:
  assumes "kept_up pb lc cfg process height (client_start ord s) s'" and "holds (l_blocks (o_ledger ord)) 0 s"
    and "l_db (o_ledger ord) \<noteq> None" and "chain_ok (chain_of s')"
  shows "\<exists>n. holds (chain_of s') n (store (client s'))"
proof -
  have "client_inv (client_start ord s)" using assms(2,3)
    by (auto simp: client_inv_def client_start_def on_the_way_def NewSynchronizer_def delivers_held_def)
  from kept_up_inv [OF assms(1) this assms(4)] show ?thesis by (auto simp: client_inv_def)
qed

end

lemma store_grows:
  assumes "store_holds p ch chain n s" and "chain_ok (chain @ bs)"
  shows "store_holds p ch (chain @ bs) n s"
  using assms by (simp add: store_holds_def)

interpretation fabricx_client: growing_replica "\<lambda>now. ProcessBlock (store_processor (fabricx_Parse pb cc now) before after)"
    "\<lambda>s. BlockNumber (fst s)" "store_holds (fabricx_Parse pb cc 0) ch"
  by unfold_locales (rule store_grows)

interpretation fabric_client: growing_replica "\<lambda>now. ProcessBlock (store_processor (fabric_Parse pb vc now) before after)"
    "\<lambda>s. BlockNumber (fst s)" "store_holds (fabric_Parse pb vc 0) ch"
  by unfold_locales (rule store_grows)

lemma kept_up_linked:
  assumes "TRANSACTIONS_FILTER pb = 2" and "newLedger pb lc db p v = Ok l"
    and "kept_up pb lc cfg process hgt (client_start (newTestOrderer l) x) s"
  shows "linked pb lc (chain_of s)"
  by (rule kept_up_ledger [OF assms(3), of "\<lambda>l. linked pb lc (l_blocks l)"])
    (use linked_newLedger [OF assms(1,2)] linked_ledger_process [OF assms(1)] linked_truncate
      in \<open>simp_all add: client_start_def newTestOrderer_def\<close>)

lemma kept_up_replica:
  assumes "reads_filter st fn" and "codes_faithful fn v" and "ledger_codecs_ok pb lc"
    and "newLedger pb lc (Some (NewWriteDB ch)) (parseBlock pb pt st) v = Ok l"
    and "kept_up pb lc cfg process hgt (client_start (newTestOrderer l) x) s"
  shows "replica_inv pb pt st v ch (o_ledger (net s))"
proof (rule kept_up_ledger [OF assms(5)])
  show "replica_inv pb pt st v ch (o_ledger (net (client_start (newTestOrderer l) x)))"
    using replica_newLedger [OF assms(3,4)] by (simp add: newTestOrderer_def client_start_def)
  show "replica_inv pb pt st v ch (l\<lparr>l_subs := subs\<rparr>)" if "replica_inv pb pt st v ch l" for l subs
    using that by (simp add: replica_inv_def)
qed (rule replica_process [OF assms(1,2)] replica_truncate; assumption)+

lemma holds_all_replicates:
  assumes "store_holds (q 0) ch chain (length chain) s" and "replicates q ch chain db" and "1 < length chain"
  shows "fst s = db"
  using assms by (auto simp: store_holds_def replicates_def)

lemma chain_within:
  assumes "TRANSACTIONS_FILTER pb = 2" and "newLedger pb lc db p v = Ok l"
    and "kept_up pb lc cfg process hgt (client_start (newTestOrderer l) x) s"
    and "length (chain_of s) \<le> 2 ^ 63 \<and> (\<forall>b \<in> set (chain_of s). length (raw_data b) \<le> 2 ^ 63)"
  shows "chain_ok (chain_of s)"
  using linked_chain_ok [OF kept_up_linked [OF assms(1-3)]] assms(4) by blast

lemma newLedger_own:
  assumes "newLedger pb lc (Some db) p v = Ok l"
  shows "l_db (o_ledger (newTestOrderer l)) \<noteq> None" and "chain_ok (l_blocks (o_ledger (newTestOrderer l)))"
  using assms by (auto simp: newLedger_def newTestOrderer_def makeGenesisBlock_def MarshalOrPanic_def chain_ok_def
      split: result.splits sum.splits)

text \<open>
  C8: A client follows the network. Take a network, Fabric or Fabric-X, with its own database, a synchronizer on
  its peer with an empty database, and any interleaving of the orderer's loop, the peer's stream, the
  synchronizer's goroutines, failures and reconnections in which the channel of the client's subscription is not
  full when a step is made. Then the client's database is the one that results from the first blocks of the
  network's chain, its block number says how many, and when these are all the blocks of a chain that has more
  than the genesis block, the client's database is the network's own.
\<close>

theorem client_follows_network:
  fixes x :: 'o
  assumes "ledger_codecs_ok pb lc" and "TRANSACTIONS_FILTER pb = 2"
    and "committer_codes_ok cc" and "enumerates xcodes (Status_name cc)"
    and "tx_validation_codes_ok vc" and "enumerates fcodes (TxValidationCode_name vc)"
    and "networkKind pb vc fcodes cc xcodes networkType = Some (p, v)"
    and "Start netListen pb lc vc fcodes cc xcodes networkType cfg False bound = (bound', Ok n)"
    and "kept_up pb lc cfg (\<lambda>now. ProcessBlock (store_processor (p now) before after)) (\<lambda>s. BlockNumber (fst s))
           (client_start (n_orderer n) (NewWriteDB ''mychannel'', x)) s"
    and "length (chain_of s) \<le> 2 ^ 63 \<and> (\<forall>b \<in> set (chain_of s). length (raw_data b) \<le> 2 ^ 63)"
  shows "\<exists>m db. m \<le> length (chain_of s) \<and> BlockNumber (fst (store (client s))) = Inr (of_nat (m - 1))
    \<and> replayed (p 0) (NewWriteDB ''mychannel'') (take m (chain_of s)) = Some (fst (store (client s)))
    \<and> l_db (o_ledger (net s)) = Some db \<and> (m = length (chain_of s) \<and> 1 < m \<longrightarrow> fst (store (client s)) = db)"
proof -
  obtain l where l: "newLedger pb lc (Some (NewWriteDB ''mychannel'')) p v = Ok l" "n_orderer n = newTestOrderer l"
    by (rule Start_ledger [OF assms(7,8)])
  note run = assms(9) [unfolded l(2)]
  note ok = chain_within [OF assms(2) l(1) run assms(10)]
  note own = newLedger_own [OF l(1)]
  have empty: "store_holds (p 0) ''mychannel'' (l_blocks (o_ledger (newTestOrderer l))) 0 (NewWriteDB ''mychannel'', x)"
    using own(2) by (simp add: store_holds_def)
  have "\<exists>m db. store_holds (p 0) ''mychannel'' (chain_of s) m (store (client s)) \<and> BlockNumber (fst (store (client s))) = Inr (of_nat (m - 1))
      \<and> l_db (o_ledger (net s)) = Some db \<and> replicates p ''mychannel'' (chain_of s) db"
  proof (cases "networkType = ''fabric''")
    case True
    with assms(7) have k: "p = fabric_Parse pb vc" "v = fabric_NewMVCCValidator vc fcodes" by (simp_all add: networkKind_def)
    from fabric_client.follows_network [OF run [unfolded k] empty [unfolded k] own(1) ok] fabric_replica.holds_height
      kept_up_replica [OF parsers_read_filter(2) fabric_faithful [OF assms(5,6)] assms(1) l(1) [unfolded k fabric_Parse_def] run]
    show ?thesis unfolding k replica_inv_def fabric_Parse_def by blast
  next
    case False
    with assms(7) have k: "p = fabricx_Parse pb cc" "v = fabricx_NewMVCCValidator cc xcodes" by (simp_all add: networkKind_def split: if_splits)
    from fabricx_client.follows_network [OF run [unfolded k] empty [unfolded k] own(1) ok] fabricx_replica.holds_height
      kept_up_replica [OF parsers_read_filter(1) fabricx_faithful [OF assms(3,4)] assms(1) l(1) [unfolded k fabricx_Parse_def] run]
    show ?thesis unfolding k replica_inv_def fabricx_Parse_def by blast
  qed
  then obtain m db where "store_holds (p 0) ''mychannel'' (chain_of s) m (store (client s))"
    "BlockNumber (fst (store (client s))) = Inr (of_nat (m - 1))" "l_db (o_ledger (net s)) = Some db"
    "replicates p ''mychannel'' (chain_of s) db" by blast
  with holds_all_replicates [of p "''mychannel''" "chain_of s" "store (client s)" db] show ?thesis
    by (intro exI [of _ m] exI [of _ db]) (auto simp: store_holds_def)
qed

subsection \<open>A client whose peer does not keep up\<close>

text \<open>Runs of the network and the client by a list of actions.\<close>

datatype client_action = DoEnvelope string | DoCut | DoStart | DoCheck | DoRead | DoConnect | DoSend | DoTake | DoReceive

definition do_event :: "protos \<Rightarrow> ledger_protos \<Rightarrow> orderer_config \<Rightarrow> batching_event \<Rightarrow> 's client_net \<Rightarrow> 's client_net option" where
  "do_event pb lc cfg ev s =
     (case batchingStep cfg (ledger_process pb lc 0 (\<lambda>_ _. Inr None)) ev (net s) of
        Ok (ord', _) \<Rightarrow> Some (s\<lparr>net := ord'\<rparr>) | _ \<Rightarrow> None)"

definition client_do :: "protos \<Rightarrow> ledger_protos \<Rightarrow> orderer_config \<Rightarrow> (int64 \<Rightarrow> 's \<Rightarrow> pb_Block \<Rightarrow> 's \<times> unit result) \<Rightarrow> ('s \<Rightarrow> u64 res)
    \<Rightarrow> client_action \<Rightarrow> 's client_net \<Rightarrow> 's client_net option" where
  "client_do pb lc cfg process hgt a s =
     (case a of
        DoEnvelope payload \<Rightarrow> do_event pb lc cfg (InCh \<lparr>env_Payload = payload, env_Signature = ''''\<rparr>) s
      | DoCut \<Rightarrow> do_event pb lc cfg CutCh s
      | DoStart \<Rightarrow> (case (pc (client s), StartCall (client s)) of
          (NotRunning, w', None) \<Rightarrow> Some (s\<lparr>client := w', conn := hangup w' (conn s)\<rparr>) | _ \<Rightarrow> None)
      | DoCheck \<Rightarrow> (case (pc (client s), ctxDone (client s)) of
          (LoopHead, False) \<Rightarrow> (let w' = (client s)\<lparr>pc := ReadHeight\<rparr> in Some (s\<lparr>client := w', conn := hangup w' (conn s)\<rparr>)) | _ \<Rightarrow> None)
      | DoRead \<Rightarrow> (case pc (client s) of
          ReadHeight \<Rightarrow> (let w' = readHeight hgt (client s) in Some (s\<lparr>client := w', conn := hangup w' (conn s)\<rparr>)) | _ \<Rightarrow> None)
      | DoConnect \<Rightarrow> (case (pc (client s), conn s) of (Delivering k, None) \<Rightarrow> Some (connectStep k s) | _ \<Rightarrow> None)
      | DoSend \<Rightarrow> (case conn s of Some c \<Rightarrow>
          (case c_snapshot c of b # bs \<Rightarrow> Some (s\<lparr>conn := Some (c\<lparr>c_snapshot := bs, c_wire := c_wire c @ [b]\<rparr>)\<rparr>) | [] \<Rightarrow> None) | None \<Rightarrow> None)
      | DoTake \<Rightarrow> (case conn s of Some c \<Rightarrow>
          (case (c_snapshot c, l_subs (o_ledger (net s)) ! c_sub c) of ([], b # bs) \<Rightarrow> Some (takeStep c b bs s) | _ \<Rightarrow> None) | None \<Rightarrow> None)
      | DoReceive \<Rightarrow> (case (conn s, pc (client s)) of (Some c, Delivering k) \<Rightarrow>
          (case c_wire c of
             b # bs \<Rightarrow> (let w' = received (process 0) (RecvBlock b) k (client s) in
               Some (s\<lparr>client := w', conn := hangup w' (Some (c\<lparr>c_wire := bs\<rparr>))\<rparr>))
           | [] \<Rightarrow> None) | _ \<Rightarrow> None))"

fun client_run :: "('s client_net \<Rightarrow> bool) \<Rightarrow> protos \<Rightarrow> ledger_protos \<Rightarrow> orderer_config \<Rightarrow> (int64 \<Rightarrow> 's \<Rightarrow> pb_Block \<Rightarrow> 's \<times> unit result) \<Rightarrow> ('s \<Rightarrow> u64 res)
    \<Rightarrow> client_action list \<Rightarrow> 's client_net \<Rightarrow> 's client_net option" where
  "client_run ok pb lc cfg process hgt [] s = Some s"
| "client_run ok pb lc cfg process hgt (a # as) s =
     (if \<not> ok s then None
      else case client_do pb lc cfg process hgt a s of None \<Rightarrow> None | Some s' \<Rightarrow> client_run ok pb lc cfg process hgt as s')"

lemma do_event_step:
  assumes "do_event pb lc cfg ev s = Some s'" and "ev \<noteq> TimerC"
  shows "client_step pb lc cfg process hgt s s'"
proof -
  from assms(1) obtain ord' r where "batchingStep cfg (ledger_process pb lc 0 (\<lambda>_ _. Inr None)) ev (net s) = Ok (ord', r)" "s' = s\<lparr>net := ord'\<rparr>"
    by (auto simp: do_event_def split: result.splits)
  then show ?thesis using assms(2) by (auto intro!: client_step.network orderer_step.event)
qed

lemma client_do_step:
  assumes "client_do pb lc cfg process hgt a s = Some s'"
  shows "client_step pb lc cfg process hgt s s'"
proof (cases a)
  case (DoEnvelope payload)
  with assms show ?thesis by (auto simp: client_do_def intro: do_event_step)
next
  case DoCut
  with assms show ?thesis by (auto simp: client_do_def intro: do_event_step)
next
  case DoStart
  with assms show ?thesis
    by (auto simp: client_do_def intro!: client_step.other sync_step.start split: start_pc.splits prod.splits option.splits)
next
  case DoCheck
  with assms show ?thesis
    by (auto simp: client_do_def Let_def intro!: client_step.other sync_step.check split: start_pc.splits bool.splits)
next
  case DoRead
  with assms show ?thesis
    by (auto simp: client_do_def Let_def intro!: client_step.other sync_step.read split: start_pc.splits)
next
  case DoConnect
  with assms show ?thesis by (auto simp: client_do_def intro: client_step.connect split: start_pc.splits option.splits)
next
  case DoSend
  with assms show ?thesis by (auto simp: client_do_def intro: client_step.send split: option.splits list.splits)
next
  case DoTake
  with assms show ?thesis by (auto simp: client_do_def intro: client_step.take_sub split: option.splits list.splits)
next
  case DoReceive
  with assms show ?thesis
    by (auto simp: client_do_def Let_def intro: client_step.receive split: option.splits list.splits start_pc.splits)
qed

lemma client_run_steps:
  "client_run ok pb lc cfg process hgt as s = Some s' \<Longrightarrow> (\<lambda>s s'. ok s \<and> client_step pb lc cfg process hgt s s')\<^sup>*\<^sup>* s s'"
proof (induction as arbitrary: s)
  case (Cons a as)
  then obtain s1 where "ok s" "client_do pb lc cfg process hgt a s = Some s1" "client_run ok pb lc cfg process hgt as s1 = Some s'"
    by (auto split: if_splits option.splits)
  with Cons.IH client_do_step show ?case by (metis (mono_tags, lifting) converse_rtranclp_into_rtranclp)
qed simp

definition net_process :: "int64 \<Rightarrow> VersionedDB \<times> unit \<Rightarrow> pb_Block \<Rightarrow> (VersionedDB \<times> unit) \<times> unit result" where
  "net_process = (\<lambda>now. ProcessBlock (store_processor (fabricx_Parse net_pb sample_committer_codes now) [] []))"

definition net_height :: "VersionedDB \<times> unit \<Rightarrow> u64 res" where
  "net_height = (\<lambda>s. BlockNumber (fst s))"

definition net_client :: "((VersionedDB \<times> unit) client_net \<Rightarrow> bool) \<Rightarrow> client_action list \<Rightarrow> (VersionedDB \<times> unit) client_net option" where
  "net_client ok as = (case net_start of
     Ok l \<Rightarrow> client_run ok net_pb net_lc net_cfg net_process net_height as (client_start (newTestOrderer l) (NewWriteDB ''mychannel'', ()))
   | _ \<Rightarrow> None)"

definition net_connected :: "client_action list" where
  "net_connected = [DoStart, DoCheck, DoRead, DoConnect, DoSend, DoReceive]"

definition net_overrun :: "client_action list" where
  "net_overrun = net_connected @ replicate 10 DoCut @ [DoEnvelope ''junk'', DoEnvelope ''pl'', DoTake, DoCut]
     @ replicate 10 DoTake @ replicate 11 DoReceive"

definition stored_keys :: "VersionedDB \<Rightarrow> string list" where
  "stored_keys db = map row_key (worldstate db)"

lemma net_overrun_result:
  "case net_client (\<lambda>_. True) net_overrun of None \<Rightarrow> False
   | Some s \<Rightarrow> pc (client s) = Delivering 12 \<and> net_height (store (client s)) = Inr 12 \<and> length (chain_of s) = 13
       \<and> stored_keys (fst (store (client s))) = [] \<and> map_option stored_keys (l_db (o_ledger (net s))) = Some [''k'']"
  by code_simp

lemma net_clientE:
  assumes "net_client ok as = Some s"
  obtains l where "newLedger net_pb net_lc (Some (NewWriteDB ''mychannel'')) (fabricx_Parse net_pb sample_committer_codes)
      (fabricx_NewMVCCValidator sample_committer_codes [0, 1, 3]) = Ok l"
    "(\<lambda>s s'. ok s \<and> client_step net_pb net_lc net_cfg
        (\<lambda>now. ProcessBlock (store_processor (fabricx_Parse net_pb sample_committer_codes now) [] [])) (\<lambda>s. BlockNumber (fst s)) s s')\<^sup>*\<^sup>*
      (client_start (newTestOrderer l) (NewWriteDB ''mychannel'', ())) s"
proof -
  from assms obtain l where l: "net_start = Ok l"
    "client_run ok net_pb net_lc net_cfg net_process net_height as (client_start (newTestOrderer l) (NewWriteDB ''mychannel'', ())) = Some s"
    by (auto simp: net_client_def split: result.splits)
  from that l(1) client_run_steps [OF l(2)] show thesis unfolding net_start_def net_process_def net_height_def by blast
qed


definition net_transfer :: "client_action list" where
  "net_transfer = net_connected @ [DoEnvelope ''junk'', DoEnvelope ''pl'', DoTake, DoReceive]"

lemma net_transfer_result:
  "case net_client keeps_up net_transfer of None \<Rightarrow> False
   | Some s \<Rightarrow> net_height (store (client s)) = Inr 1 \<and> map (length \<circ> raw_data) (chain_of s) = [1, 2]
       \<and> map_option stored_keys (l_db (o_ledger (net s))) = Some [''k'']"
  by code_simp

theorem client_follows_network_witness:
  "\<exists>l s. kept_up net_pb net_lc net_cfg
        (\<lambda>now. ProcessBlock (store_processor (fabricx_Parse net_pb sample_committer_codes now) [] [])) (\<lambda>s. BlockNumber (fst s))
        (client_start (newTestOrderer l) (NewWriteDB ''mychannel'', ())) s
     \<and> length (chain_of s) = 2 \<and> l_db (o_ledger (net s)) = Some (fst (store (client s))) \<and> stored_keys (fst (store (client s))) = [''k'']"
proof -
  from net_transfer_result obtain s where s: "net_client keeps_up net_transfer = Some s" by (auto split: option.splits)
  then obtain l where l: "newLedger net_pb net_lc (Some (NewWriteDB ''mychannel'')) (fabricx_Parse net_pb sample_committer_codes)
      (fabricx_NewMVCCValidator sample_committer_codes [0, 1, 3]) = Ok l"
    and run: "kept_up net_pb net_lc net_cfg
        (\<lambda>now. ProcessBlock (store_processor (fabricx_Parse net_pb sample_committer_codes now) [] [])) (\<lambda>s. BlockNumber (fst s))
        (client_start (newTestOrderer l) (NewWriteDB ''mychannel'', ())) s" by (rule net_clientE)
  have t: "TRANSACTIONS_FILTER net_pb = 2" by (simp add: net_pb_def)
  from net_transfer_result s have r: "BlockNumber (fst (store (client s))) = Inr 1" "map (length \<circ> raw_data) (chain_of s) = [1, 2]"
    "map_option stored_keys (l_db (o_ledger (net s))) = Some [''k'']" by (simp_all add: net_height_def)
  then have len: "length (chain_of s) = 2" "\<forall>b \<in> set (chain_of s). length (raw_data b) \<le> 2" by auto
  from len have b: "length (chain_of s) \<le> 2 ^ 63 \<and> (\<forall>b \<in> set (chain_of s). length (raw_data b) \<le> 2 ^ 63)" by auto
  have run': "kept_up net_pb net_lc net_cfg
        (\<lambda>now. ProcessBlock (store_processor (fabricx_Parse net_pb sample_committer_codes now) [] [])) (\<lambda>s. BlockNumber (fst s))
        (client_start (n_orderer (net_network l)) (NewWriteDB ''mychannel'', ())) s" using run by (simp add: net_network_def)
  from client_follows_network [OF net_codecs t net_codes net_kind net_Start [OF l] run' b] obtain m db where m: "m \<le> length (chain_of s)"
    "BlockNumber (fst (store (client s))) = Inr (of_nat (m - 1))" "l_db (o_ledger (net s)) = Some db"
    "m = length (chain_of s) \<and> 1 < m \<longrightarrow> fst (store (client s)) = db" by blast
  from m(1,2) len(1) r(1) have "m = 2" by (cases "m \<le> 1") auto
  with m len run r(3) show ?thesis by auto
qed

end
