(* ===== verification/Lifecycle.thy ===== *)
theory Lifecycle
  imports Network_Client
begin

section \<open>The life of a transaction\<close>

text \<open>
  From the simulation to the committed record: a transaction simulated on one state of the network is endorsed,
  packaged, ordered when the network has moved on, validated, and applied or not. The Fabric-X way is followed
  all along.
\<close>

subsection \<open>The database of a ledger\<close>

lemma replayed_HandleAll:
  assumes "replayed (parseBlock pb pt st now) d bs = Some d'" and "\<forall>b \<in> set bs. length (raw_data b) \<le> 2 ^ 63"
  shows "\<exists>blocks. d' = HandleAll d blocks \<and> (\<forall>b \<in> set blocks. numbers_ok b)"
  using assms
proof (induction bs arbitrary: d)
  case Nil
  then show ?case by (intro exI [of _ "[]"]) simp
next
  case (Cons raw bs)
  from Cons.prems(1) obtain b d1 where b: "parseBlock pb pt st now raw = Ok b" "db_Handle d b = (d1, None)"
    "replayed (parseBlock pb pt st now) d1 bs = Some d'" by (auto split: result.splits prod.splits option.splits)
  from Cons.IH [OF b(3)] Cons.prems(2) obtain blocks where "d' = HandleAll d1 blocks" "\<forall>b \<in> set blocks. numbers_ok b" by auto
  with b parseBlock_numbers_ok [OF b(1)] Cons.prems(2) show ?case by (intro exI [of _ "b # blocks"]) simp
qed

lemma chain_ok_sizes: "chain_ok chain \<Longrightarrow> \<forall>b \<in> set chain. length (raw_data b) \<le> 2 ^ 63"
  by (auto simp: chain_ok_def in_set_conv_nth)

text \<open>The database of a ledger, and the one that replaying its chain gives, which it may be ahead of at genesis.\<close>

lemma own_db:
  assumes "replica_inv pb pt st v ch l" and "chain_ok (l_blocks l)" and "l_blocks l \<noteq> []" and "l_db l = Some db"
  obtains d where "replayed (parseBlock pb pt st 0) (NewWriteDB ch) (l_blocks l) = Some d"
    "worldstate d = worldstate db" "db_channel d = ch" "db_channel db = ch" "db_inv d" "db_inv db"
    "\<forall>m. channel_progress db ch = Some m \<longrightarrow> m < int (length (l_blocks l))"
proof -
  from assms(1,4) obtain d where d: "replayed (parseBlock pb pt st 0) (NewWriteDB ch) (l_blocks l) = Some d"
    "d = db \<or> db = NewWriteDB ch \<and> d = started ch" by (auto simp: replica_inv_def replicates_def)
  from replayed_inv [OF assms(2) order_refl, of pb pt st ch d] d(1) assms(3)
  have i: "db_inv d" "db_channel d = ch" "channel_progress d ch = Some (int (length (l_blocks l)) - 1)" by simp_all
  have "worldstate d = worldstate db \<and> db_channel db = ch \<and> db_inv db \<and> (\<forall>m. channel_progress db ch = Some m \<longrightarrow> m < int (length (l_blocks l)))"
    using d(2)
  proof
    assume "db = NewWriteDB ch \<and> d = started ch"
    then show ?thesis using db_inv_NewWriteDB [of ch] by (simp add: started_def) (simp add: NewWriteDB_def)
  qed (use i in simp)
  with i show thesis by (intro that [OF d(1)]) simp_all
qed

lemma db_Get_worldstate: "worldstate d = worldstate db \<Longrightarrow> db_channel d = db_channel db \<Longrightarrow> db_Get d = db_Get db"
  by (intro ext) (simp add: db_Get_def)

text \<open>Between two states of the network, the database takes blocks.\<close>

lemma orderer_steps_grow:
  assumes "(orderer_step pb lc cfg)\<^sup>*\<^sup>* ord ord'" and "l_db (o_ledger ord) \<noteq> None"
  shows "\<exists>bs. l_blocks (o_ledger ord') = l_blocks (o_ledger ord) @ bs"
proof -
  have "l_db (o_ledger ord') \<noteq> None \<and> (\<exists>bs. l_blocks (o_ledger ord') = l_blocks (o_ledger ord) @ bs)"
    using assms
  proof (induction rule: rtranclp_induct)
    case (step o1 o2)
    with orderer_step_published [OF step(2)] show ?case by (auto simp: published_def)
  qed simp
  then show ?thesis by simp
qed

lemma later_database:
  assumes "replica_inv pb pt st v ch l0" and "replica_inv pb pt st v ch l" and "l_blocks l = l_blocks l0 @ bs"
    and "chain_ok (l_blocks l)" and "l_blocks l0 \<noteq> []" and "l_db l0 = Some db0" and "l_db l = Some db"
  obtains d blocks where "db_Get d = db_Get db0" "db_inv d" "\<forall>b \<in> set blocks. numbers_ok b"
    "db_Get (HandleAll d blocks) = db_Get db" "worldstate (HandleAll d blocks) = worldstate db"
proof -
  have c0: "chain_ok (l_blocks l0)" using assms(3,4) by (auto dest: chain_ok_append)
  obtain d where d: "replayed (parseBlock pb pt st 0) (NewWriteDB ch) (l_blocks l0) = Some d"
    "worldstate d = worldstate db0" "db_channel d = ch" "db_channel db0 = ch" "db_inv d"
    by (rule own_db [OF assms(1) c0 assms(5,6)])
  obtain e where e: "replayed (parseBlock pb pt st 0) (NewWriteDB ch) (l_blocks l) = Some e"
    "worldstate e = worldstate db" "db_channel e = ch" "db_channel db = ch"
    by (rule own_db [OF assms(2,4) _ assms(7)]) (use assms(3,5) in auto)
  from e(1) d(1) have "replayed (parseBlock pb pt st 0) d bs = Some e" by (simp add: assms(3) replayed_append)
  moreover have "\<forall>b \<in> set bs. length (raw_data b) \<le> 2 ^ 63" using chain_ok_sizes [OF assms(4)] assms(3) by simp
  ultimately have "\<exists>blocks. e = HandleAll d blocks \<and> (\<forall>b \<in> set blocks. numbers_ok b)" by (rule replayed_HandleAll)
  then obtain blocks where b: "HandleAll d blocks = e" "\<forall>b \<in> set blocks. numbers_ok b" by auto
  have g: "db_Get d = db_Get db0" "db_Get e = db_Get db" using d(2-4) e(2-4) by (auto intro: db_Get_worldstate)
  show thesis by (rule that [of d blocks]) (simp_all add: b g d(5) e(2))
qed

subsection \<open>One envelope, one block\<close>

lemma envelope_parses:
  assumes "codec_ok (ma_Envelope lc) (um_Envelope pb)" and "header_types_ok pb" and "TRANSACTIONS_FILTER pb = 2"
    and "ma_Envelope lc env = Inr bs" and "fabricx_ParseTx pb env = Ok (Some tx)"
  shows "\<exists>bl s c m. fabricx_Parse pb cc now (makeBlock lc n h [env]) = Ok bl \<and> b_Number bl = n
    \<and> b_Transactions bl = [(SetStatus s c m tx)\<lparr>tx_Number := 0\<rparr>]"
proof -
  from assms(5) obtain pl hdr chdr where p: "um_Payload pb (env_Payload env) = Inr pl" "pl_Header pl = Some hdr"
    "um_ChannelHeader pb (hdr_ChannelHeader hdr) = Inr chdr" "ch_Type chdr = HeaderType_MESSAGE pb"
    by (auto simp: fabricx_ParseTx_def res_bind_def split: sum.splits option.splits if_splits)
  have "um_Envelope pb bs = Inr env" using assms(1,4) by (simp add: codec_ok_def)
  with p header_types_okD(1) [OF assms(2)] assms(5) have "\<exists>s c m. parseEntry pb (fabricx_ParseTx pb) st num 0 bs = Ok (TxEntry ((SetStatus s c m tx)\<lparr>tx_Number := 0\<rparr>))" for st num
    by (auto simp: parseEntry_def split: prod.splits)
  then obtain s c m where "parseEntry pb (fabricx_ParseTx pb) (fabricx_statusForTx cc [CHR 0x00]) n 0 bs
      = Ok (TxEntry ((SetStatus s c m tx)\<lparr>tx_Number := 0\<rparr>))" by blast
  then show ?thesis
    by (simp add: fabricx_Parse_def parseBlock_def makeBlock_def assms(3,4) addEntry_def zero_Block_def Let_def) blast
qed

definition read_fresh :: "record_getter \<Rightarrow> Transaction \<Rightarrow> bool" where
  "read_fresh get tx \<longleftrightarrow> (\<forall>(ns, r) \<in> set (reads_of tx). read_valid True (state_of get ns (r_Key r)) (r_Version r))"

definition one_write :: "Transaction \<Rightarrow> bool" where
  "one_write tx \<longleftrightarrow> distinct (map (\<lambda>(ns, w). (ns, w_Key w)) (writes_of tx))"

text \<open>The block of one transaction, judged by the validator.\<close>

lemma judged_block:
  assumes "db_inv db" and "codes_fit v" and "monotonicVersions v" and "Validate v (db_Get db) bl = (bl', flt, e, v')"
    and "b_Transactions bl = [t]" and "tx_Number t = 0" and "one_write t"
  shows "\<exists>t' s c m. e = None \<and> b_Number bl' = b_Number bl \<and> b_Transactions bl' = [t'] \<and> length flt = 1 \<and> t' = SetStatus s c m t
    \<and> (tx_Valid t' \<longleftrightarrow> read_fresh (db_Get db) t) \<and> numbers_ok bl' \<and> single_writes bl'"
proof -
  note V = Validate_judged [OF db_Get_total [OF assms(1)] assms(2,4)]
  from V(2) assms(5) obtain t' where t': "b_Transactions bl' = [t']" by (cases "b_Transactions bl'") auto
  from V(4) [of 0] assms(5) t' have "judged (v\<lparr>pendingWrites := {}\<rparr>) (db_Get db) [t] [t'] flt 0" by simp
  then obtain s m where s: "t' = SetStatus s (codeFor v s) m t" "s \<in> {StatusCommitted, StatusMVCCConflict}"
    "s = StatusCommitted \<longleftrightarrow> (\<forall>(ns, r) \<in> set (reads_of t). read_valid True (state_of (db_Get db) ns (r_Key r)) (r_Version r))"
    by (elim judgedE) (auto simp: clear_at_def assms(3))
  have n: "b_Number bl' = b_Number bl" using assms(4) by (auto simp: Validate_def split: prod.splits)
  have valid: "tx_Valid t' \<longleftrightarrow> read_fresh (db_Get db) t" using s by (auto simp: tx_Valid_iff read_fresh_def)
  have "block_writes bl' = (if tx_Valid t' then map (Pair t') (writes_of t) else [])" by (simp add: block_writes_def t' s(1))
  then have "single_writes bl'"
    using assms(6,7) by (auto simp: single_writes_def one_write_def distinct_map inj_on_def s(1) split: prod.splits)
  moreover have "numbers_ok bl'" by (simp add: numbers_ok_def t' s(1) assms(6))
  ultimately show ?thesis using V(1,3) assms(5) t' s(1) n valid by auto
qed

lemma commit_single:
  assumes "distinct (map (\<lambda>(ns, w). (ns, w_Key w)) ws)"
  shows "fold (append_write n) (map (Pair t) ws) H (ns, k) = H (ns, k) @
    (case List.find (\<lambda>(m, w). m = ns \<and> w_Key w = k) ws of None \<Rightarrow> []
     | Some (m, w) \<Rightarrow> [\<lparr>wr_Namespace = ns, wr_Key = k, wr_BlockNum = n, wr_TxNum = word_of_int (tx_Number t),
         wr_Version = of_nat (length (H (ns, k))), wr_Value = w_Value w, wr_IsDelete = w_IsDelete w, wr_TxID = tx_ID t\<rparr>])"
  using assms
proof (induction ws arbitrary: H)
  case (Cons x ws)
  obtain m w where x: "x = (m, w)" by fastforce
  show ?case
  proof (cases "m = ns \<and> w_Key w = k")
    case True
    then have "List.find (\<lambda>(m, w). m = ns \<and> w_Key w = k) ws = None"
      using Cons.prems by (force simp: x find_None_iff)
    moreover have "append_write n (t, m, w) H (ns, k) = H (ns, k) @ [\<lparr>wr_Namespace = ns, wr_Key = k, wr_BlockNum = n,
        wr_TxNum = word_of_int (tx_Number t), wr_Version = of_nat (length (H (ns, k))), wr_Value = w_Value w,
        wr_IsDelete = w_IsDelete w, wr_TxID = tx_ID t\<rparr>]" using True by (simp add: append_write_def)
    ultimately show ?thesis using True Cons.IH [of "append_write n (t, m, w) H"] Cons.prems by (simp add: x)
  next
    case False
    then have e: "append_write n (t, m, w) H (ns, k) = H (ns, k)" by (auto simp: append_write_def)
    have f: "List.find (\<lambda>(m, w). m = ns \<and> w_Key w = k) (x # ws) = List.find (\<lambda>(m, w). m = ns \<and> w_Key w = k) ws"
      using False by (auto simp: x)
    from Cons.prems have "distinct (map (\<lambda>(ns, w). (ns, w_Key w)) ws)" by simp
    from Cons.IH [OF this, of "append_write n (t, m, w) H", unfolded e] show ?thesis unfolding f by (simp add: x)
  qed
qed simp

text \<open>What the ledger does with a batch of one transaction.\<close>

lemma process_envelope:
  assumes "codec_ok (ma_Envelope lc) (um_Envelope pb)" and "header_types_ok pb" and "TRANSACTIONS_FILTER pb = 2"
    and "ma_Envelope lc env = Inr bs" and "fabricx_ParseTx pb env = Ok (Some tx)" and "one_write tx"
    and "l_parser l = fabricx_Parse pb cc" and "codes_fit (l_validator l)" and "monotonicVersions (l_validator l)" and "\<not> l_closed l"
    and "l_db l = Some db" and "db_inv db" and "\<forall>m. channel_progress db (db_channel db) = Some m \<longrightarrow> m < int (length (l_blocks l))"
    and "length (l_blocks l) < 2 ^ 63" and "tipHeader l = Some hdr"
  shows "\<exists>l' db' t. ledger_process pb lc now ext l [env] = (l', Ok ()) \<and> l_db l' = Some db' \<and> db_inv db'
    \<and> tx_ID t = tx_ID tx \<and> tx_Number t = 0
    \<and> history db' = (if read_fresh (db_Get db) tx
        then fold (append_write (of_nat (length (l_blocks l)))) (map (Pair t) (writes_of tx)) (history db) else history db)"
proof -
  let ?n = "of_nat (length (l_blocks l)) :: u64" and ?h = "BlockHeaderHash pb hdr"
  let ?fbl = "makeBlock lc ?n ?h [env]"
  from envelope_parses [OF assms(1-5), of cc now ?n ?h] obtain bl s c m where bl: "fabricx_Parse pb cc now ?fbl = Ok bl"
    "b_Number bl = ?n" "b_Transactions bl = [(SetStatus s c m tx)\<lparr>tx_Number := 0\<rparr>]" by blast
  let ?t = "(SetStatus s c m tx)\<lparr>tx_Number := 0\<rparr>"
  have foot: "writes_of ?t = writes_of tx" "reads_of ?t = reads_of tx" by (simp_all add: writes_of_def reads_of_def SetStatus_def)
  then have same: "one_write ?t = one_write tx" "read_fresh get ?t = read_fresh get tx" for get by (simp_all only: one_write_def read_fresh_def)
  obtain bl' flt e v' where v: "Validate (l_validator l) (db_Get db) bl = (bl', flt, e, v')" by (rule prod_cases4)
  from judged_block [OF assms(12,8,9) v bl(3)] assms(6) obtain t' s' c' m' where j: "e = None" "b_Number bl' = ?n"
    "b_Transactions bl' = [t']" "length flt = 1" "t' = SetStatus s' c' m' ?t" "tx_Valid t' \<longleftrightarrow> read_fresh (db_Get db) tx"
    "numbers_ok bl'" "single_writes bl'" unfolding same bl(2) by auto
  have num: "uint ?n = int (length (l_blocks l))" using assms(14) by (simp add: unsigned_of_nat take_bit_nat_eq_self)
  with assms(13,14) have "next_block db bl'" by (auto simp: next_block_def j(2) split: option.splits)
  from UpdateWorldState_commits [OF assms(12) j(7) this j(8)] obtain db' where u: "UpdateWorldState db bl' = (db', None)"
    "history db' = commit_block bl' (history db)" by blast
  from j(4) obtain x where flt: "flt = [x]" by (cases flt) auto
  have "tx_Number t' = 0" using j(5) by simp
  then have sc: "scatter flt (b_Transactions bl') (raw_filter pb ?fbl) = Ok [char_of (unat x)]"
    by (simp add: flt j(3) assms(3))
  have "nextBlock pb l = Some (?n, ?h)" by (simp add: nextBlock_def assms(15))
  then have "\<exists>l'. ledger_process pb lc now ext l [env] = (l', Ok ()) \<and> l_db l' = Some db'"
    using bl(1) v sc j(1) u(1) by (simp add: ledger_process_def assms(3,7,10,11) getter_def commit_def Let_def)
  moreover have "history db' = (if read_fresh (db_Get db) tx
      then fold (append_write ?n) (map (Pair t') (writes_of tx)) (history db) else history db)"
    using j(3,5,6) foot(1) by (simp add: u(2) commit_block_def block_writes_def j(2))
  moreover have "db_inv db'" by (rule db_inv_UpdateWorldState [OF assms(12) j(7) u(1)])
  moreover have "tx_ID t' = tx_ID tx" "tx_Number t' = 0" using j(5) by (simp_all add: SetStatus_def)
  ultimately show ?thesis by blast
qed

subsection \<open>What is read and written\<close>

lemma read_valid_stripped: "read_valid True r (r_Version (strip_read x)) = read_valid True r (r_Version x)"
  by (cases "r_Version x") (auto simp: strip_read_def decodeVersion_def read_valid_def version_matches_def split: option.splits)

text \<open>A transaction with the reads and writes of a simulation is fresh exactly if no record it read has changed.\<close>

lemma simulated_fresh:
  assumes "db_inv db0" and "Snapshot db0 = Inr sn"
    and "\<forall>(bs, x) \<in> set steps. \<forall>b \<in> set bs. numbers_ok b \<and> sn < b_Number b"
    and "sim_run (sim_calls db_Handle snapshot_Get db0 sn steps) (NewSimulationStore ns sn True) = (rs, st)"
    and "enumerates rks (s_reads st)" and "tx_NsRWS tx = [\<lparr>ns_Namespace = ns, ns_RWS = rws\<rparr>]"
    and "mset (Reads rws) = image_mset strip_read (mset (Reads (sim_Result rks wks st)))"
    and "db_inv d" and "db_Get d = db_Get db0" and "\<forall>b \<in> set blocks. numbers_ok b" and "short_histories (HandleAll d blocks)"
  shows "read_fresh (db_Get (HandleAll d blocks)) tx \<longleftrightarrow> (\<forall>r \<in> set (Reads (sim_Result rks wks st)).
    live (state_of (db_Get (HandleAll d blocks)) ns (r_Key r)) = live (state_of (db_Get db0) ns (r_Key r)))"
proof -
  let ?get = "db_Get (HandleAll d blocks)"
  have "set (Reads rws) = strip_read ` set (Reads (sim_Result rks wks st))"
    using arg_cong [OF assms(7), of set_mset] by simp
  then have "set (reads_of tx) = (\<lambda>r. (ns, strip_read r)) ` set (Reads (sim_Result rks wks st))"
    by (simp add: reads_of_def assms(6) image_image)
  then have "read_fresh ?get tx \<longleftrightarrow> (\<forall>r \<in> set (Reads (sim_Result rks wks st)). read_valid True (state_of ?get ns (r_Key r)) (r_Version r))"
    by (simp add: read_fresh_def read_valid_stripped) (simp add: strip_read_def)
  moreover have "read_valid True (state_of ?get ns (r_Key r)) (r_Version r)
      \<longleftrightarrow> live (state_of ?get ns (r_Key r)) = live (state_of (db_Get db0) ns (r_Key r))"
    if "r \<in> set (Reads (sim_Result rks wks st))" for r
    using vsim.simulation_reads_valid [OF assms(1-5) that] read_valid_iff_unchanged [OF assms(8,10,11), of ns "r_Key r" True]
    by (simp add: assms(9))
  ultimately show ?thesis by simp
qed

lemma find_one:
  assumes "w \<in> set ws" and "distinct (map w_Key ws)"
  shows "List.find (\<lambda>(m, w'). m = ns \<and> w_Key w' = w_Key w) (map (Pair ns) ws) = Some (ns, w)"
  using assms by (induction ws) force+

text \<open>The write of a key that a transaction made from a simulation has.\<close>

lemma simulated_writes:
  assumes "sim_run xs (NewSimulationStore ns sn mv) = (rs, st)" and "enumerates wks (s_writes st)"
    and "tx_NsRWS tx = [\<lparr>ns_Namespace = ns, ns_RWS = rws\<rparr>]"
    and "mset (Writes rws) = image_mset strip_write (mset (Writes (sim_Result rks wks st)))"
  shows "one_write tx"
    and "List.find (\<lambda>(m, w). m = ns' \<and> w_Key w = k) (writes_of tx)
      = (if ns' = ns then map_option (\<lambda>w. (ns, strip_write w)) (s_writes st k) else None)"
proof -
  have k: "w_Key w = k" if "s_writes st k = Some w" for k w using sim_run_writes [OF assms(1)] that by simp
  have wk: "w_Key (the (s_writes st k)) = k" if "k \<in> set wks" for k
    using that assms(2) k by (auto simp: enumerates_def)
  have ws: "writes_of tx = map (Pair ns) (Writes rws)" by (simp add: writes_of_def assms(3))
  have "mset (map w_Key (Writes rws)) = mset (map (\<lambda>k. w_Key (strip_write (the (s_writes st k)))) wks)"
    using arg_cong [OF assms(4), of "image_mset w_Key"] by (simp add: sim_Result_def multiset.map_comp comp_def)
  also have "map (\<lambda>k. w_Key (strip_write (the (s_writes st k)))) wks = wks"
    by (rule map_idI) (simp add: strip_write_def wk)
  finally have d: "distinct (map w_Key (Writes rws))" using assms(2) mset_eq_imp_distinct_iff unfolding enumerates_def by metis
  then show one: "one_write tx" by (simp add: one_write_def ws distinct_map inj_on_def)
  have "set (Writes (sim_Result rks wks st)) = ran (s_writes st)"
    using assms(2) by (auto simp: sim_Result_def enumerates_def ran_def) force
  then have sw: "set (Writes rws) = strip_write ` ran (s_writes st)" using arg_cong [OF assms(4), of set_mset] by simp
  have mem: "w \<in> set (Writes rws) \<and> w_Key w = k \<longleftrightarrow> (\<exists>w'. s_writes st k = Some w' \<and> w = strip_write w')" for w k
  proof
    assume "w \<in> set (Writes rws) \<and> w_Key w = k"
    then obtain k' w' where "s_writes st k' = Some w'" "w = strip_write w'" "w_Key w = k" by (auto simp: sw ran_def)
    with k show "\<exists>w'. s_writes st k = Some w' \<and> w = strip_write w'" by (auto simp: strip_write_def)
  next
    assume "\<exists>w'. s_writes st k = Some w' \<and> w = strip_write w'"
    then obtain w' where "s_writes st k = Some w'" "w = strip_write w'" by blast
    with k show "w \<in> set (Writes rws) \<and> w_Key w = k" by (auto simp: sw strip_write_def intro: ranI)
  qed
  show "List.find (\<lambda>(m, w). m = ns' \<and> w_Key w = k) (writes_of tx)
      = (if ns' = ns then map_option (\<lambda>w. (ns, strip_write w)) (s_writes st k) else None)"
  proof (cases "ns' = ns \<and> s_writes st k \<noteq> None")
    case True
    then obtain w where w: "s_writes st k = Some w" "ns' = ns" by auto
    with mem have "strip_write w \<in> set (Writes rws)" "w_Key (strip_write w) = k" by blast+
    from find_one [OF this(1) d, of ns, unfolded this(2)] have "List.find (\<lambda>(m, w). m = ns \<and> w_Key w = k) (writes_of tx) = Some (ns, strip_write w)"
      unfolding ws .
    with w show ?thesis by simp
  next
    case False
    have "\<not> (m = ns' \<and> w_Key w = k)" if "(m, w) \<in> set (writes_of tx)" for m w
      using that False mem [of w k] by (auto simp: ws)
    then have "List.find (\<lambda>(m, w). m = ns' \<and> w_Key w = k) (writes_of tx) = None" unfolding find_None_iff by blast
    with False show ?thesis by (cases "ns' = ns") simp_all
  qed
qed

lemma simulated_keys:
  assumes "db_inv db0" and "Snapshot db0 = Inr sn"
    and "\<forall>(bs, x) \<in> set steps. \<forall>b \<in> set bs. numbers_ok b \<and> sn < b_Number b"
    and "sim_run (sim_calls db_Handle snapshot_Get db0 sn steps) (NewSimulationStore ns sn True) = (rs, st)"
    and "enumerates rks (s_reads st)" and "enumerates wks (s_writes st)"
  shows "rws_keys_ok (sim_Result rks wks st)"
proof -
  have "\<forall>(g, x) \<in> set (sim_calls db_Handle snapshot_Get db0 sn steps). g = db_Get db0"
    using vsim.sim_calls_stable [OF assms(1,3)] vdb.snapshot_current [OF assms(1,2)] by auto
  from sim_run_reads [OF db_Get_total [OF assms(1)] this assms(4)]
  have "r_Key r = k" if "s_reads st k = Some r" for k r using that by (auto simp: reads_from_def split: if_splits)
  then have "map r_Key (Reads (sim_Result rks wks st)) = rks"
    using assms(5) by (auto simp: sim_Result_def enumerates_def intro!: map_idI)
  moreover have "w_Key w = k" if "s_writes st k = Some w" for k w using sim_run_writes [OF assms(4)] that by simp
  then have "map w_Key (Writes (sim_Result rks wks st)) = wks"
    using assms(6) by (auto simp: sim_Result_def enumerates_def intro!: map_idI)
  ultimately show ?thesis using assms(5,6) by (simp add: rws_keys_ok_def enumerates_def)
qed

subsection \<open>From simulation to state\<close>

definition fabricx_network :: "protos \<Rightarrow> ledger_protos \<Rightarrow> committer_codes \<Rightarrow> int32 list \<Rightarrow> bool" where
  "fabricx_network pb lc cc xcodes \<longleftrightarrow> packager_codecs pb \<and> ledger_codecs_ok pb lc \<and> header_types_ok pb \<and> TRANSACTIONS_FILTER pb = 2
     \<and> committer_codes_ok cc \<and> enumerates xcodes (Status_name cc) \<and> codes_fit (fabricx_NewMVCCValidator cc xcodes)"

definition committed_record :: "string \<Rightarrow> string \<Rightarrow> u64 \<Rightarrow> nat \<Rightarrow> string \<Rightarrow> KVWrite \<Rightarrow> WriteRecord" where
  "committed_record ns k n versions txid w = \<lparr>wr_Namespace = ns, wr_Key = k, wr_BlockNum = n, wr_TxNum = 0,
     wr_Version = of_nat versions, wr_Value = write_value w, wr_IsDelete = False, wr_TxID = txid\<rparr>"

definition outcome :: "bool \<Rightarrow> (string \<rightharpoonup> KVWrite) \<Rightarrow> string \<Rightarrow> u64 \<Rightarrow> string \<Rightarrow> VersionedDB \<Rightarrow> string \<Rightarrow> string \<Rightarrow> WriteRecord option" where
  "outcome fresh writes ns n txid db m k =
     (case (if fresh \<and> m = ns then writes k else None) of
        None \<Rightarrow> state_of (db_Get db) m k
      | Some w \<Rightarrow> Some (committed_record ns k n (length (history db (ns, k))) txid w))"

lemma reachable_ledger:
  assumes "fabricx_network pb lc cc xcodes"
    and "newLedger pb lc (Some (NewWriteDB ch)) (fabricx_Parse pb cc) (fabricx_NewMVCCValidator cc xcodes) = Ok l"
    and "(orderer_step pb lc cfg)\<^sup>*\<^sup>* (newTestOrderer l) ord"
    and "length (l_blocks (o_ledger ord)) \<le> 2 ^ 63 \<and> (\<forall>b \<in> set (l_blocks (o_ledger ord)). length (raw_data b) \<le> 2 ^ 63)"
  shows "replica_inv pb (fabricx_ParseTx pb) (fabricx_statusForTx cc) (fabricx_NewMVCCValidator cc xcodes) ch (o_ledger ord)"
    and "chain_ok (l_blocks (o_ledger ord))" and "l_blocks (o_ledger ord) \<noteq> []" and "tipHeader (o_ledger ord) \<noteq> None"
proof -
  note n = assms(1) [unfolded fabricx_network_def]
  show "replica_inv pb (fabricx_ParseTx pb) (fabricx_statusForTx cc) (fabricx_NewMVCCValidator cc xcodes) ch (o_ledger ord)"
    using n assms(2,3) by (intro own_ledger_inv [OF parsers_read_filter(1) fabricx_faithful]) (auto simp: fabricx_Parse_def)
  from n have link: "linked pb lc (l_blocks (o_ledger ord))" using ledger_chain_linked [OF _ assms(2,3)] by blast
  with assms(4) show "chain_ok (l_blocks (o_ledger ord))" by (blast intro: linked_chain_ok)
  from link show "l_blocks (o_ledger ord) \<noteq> []" "tipHeader (o_ledger ord) \<noteq> None"
    by (auto simp: linked_def tipHeader_def link_ok_def last_conv_nth split: option.splits)
qed

lemma cut_at_once:
  assumes "BlockCutTime cfg = 0" and "o_batch ord = []" and "process (o_ledger ord) [env] = (l', Ok ())"
  shows "\<exists>ord'. batchingStep cfg process (InCh env) ord = Ok (ord', Ok ()) \<and> o_ledger ord' = l'"
  using assms by (simp add: batchingStep_def flush_def Let_def)

lemma outcome_history:
  assumes "db_inv db" and "db_inv db'" and "one_write tx" and "tx_ID t = txid" and "tx_Number t = 0"
    and "history db' = (if fresh then fold (append_write n) (map (Pair t) (writes_of tx)) (history db) else history db)"
    and "\<And>m k. List.find (\<lambda>(m', w). m' = m \<and> w_Key w = k) (writes_of tx)
      = (if m = ns then map_option (\<lambda>w. (ns, strip_write w)) (writes k) else None)"
  shows "state_of (db_Get db') m k = outcome fresh writes ns n txid db m k"
proof (cases "fresh \<and> m = ns \<and> writes k \<noteq> None")
  case True
  then obtain w where "writes k = Some w" "m = ns" "fresh" by auto
  then show ?thesis unfolding state_of_history [OF assms(2)] assms(6)
    using commit_single [OF assms(3) [unfolded one_write_def], of n t "history db" m k, unfolded assms(7)]
    by (simp add: head_record_def outcome_def committed_record_def assms(4,5) strip_write_def)
next
  case False
  then have "history db' (m, k) = history db (m, k)" unfolding assms(6)
    using commit_single [OF assms(3) [unfolded one_write_def], of n t "history db" m k, unfolded assms(7)] by auto
  with False show ?thesis by (auto simp: outcome_def state_of_history [OF assms(1)] state_of_history [OF assms(2)])
qed

text \<open>
  C4: The life of a transaction, from end to end. On a Fabric-X network with its own database, a transaction is
  simulated on the database of some moment, endorsed by any number of endorsers and packaged. Whatever the
  network has done since, when the envelope is ordered and blocks are cut at once, the loop succeeds, and the
  state of every key of every namespace is as it should be. If no record that the simulation read has
  changed meanwhile, every key that was written has the written value, at the height of the new block, with the
  transaction's id and the next version, and every other key is as before. Otherwise no key has changed.
\<close>

theorem transaction_lifecycle:
  assumes "fabricx_network pb lc cc xcodes"
    and "newLedger pb lc (Some (NewWriteDB ch)) (fabricx_Parse pb cc) (fabricx_NewMVCCValidator cc xcodes) = Ok l"
    and "(orderer_step pb lc cfg)\<^sup>*\<^sup>* (newTestOrderer l) ord0" and "l_db (o_ledger ord0) = Some db0"
    and "Snapshot db0 = Inr sn" and "\<forall>(bs, x) \<in> set steps. \<forall>b \<in> set bs. numbers_ok b \<and> sn < b_Number b"
    and "sim_run (sim_calls db_Handle snapshot_Get db0 sn steps) (NewSimulationStore ns sn True) = (rs, st)"
    and "enumerates rks (s_reads st)" and "enumerates wks (s_writes st)" and "er_RWS res = sim_Result rks wks st"
    and "fabricx_NewInvocation pb (Some sg) rnd now channel ns cv ver args = Inr ivk"
    and "\<forall>r \<in> set resps. endorsed_by pb ivk res r" and "CreateTx pb signer rnd' (inv_Proposal ivk) resps = Ok env"
    and "ma_Envelope lc env = Inr envBytes"
    and "(orderer_step pb lc cfg)\<^sup>*\<^sup>* ord0 ord" and "l_db (o_ledger ord) = Some db" and "short_histories db"
    and "length (l_blocks (o_ledger ord)) < 2 ^ 63 \<and> (\<forall>b \<in> set (l_blocks (o_ledger ord)). length (raw_data b) \<le> 2 ^ 63)"
    and "BlockCutTime cfg = 0" and "o_batch ord = []"
    and "fresh \<longleftrightarrow> (\<forall>r \<in> set (Reads (er_RWS res)). live (state_of (db_Get db) ns (r_Key r)) = live (state_of (db_Get db0) ns (r_Key r)))"
  shows "\<exists>ord' db'. batchingStep cfg (ledger_process pb lc now' ext) (InCh env) ord = Ok (ord', Ok ())
    \<and> l_db (o_ledger ord') = Some db'
    \<and> (\<forall>m k. state_of (db_Get db') m k = outcome fresh (s_writes st) ns (of_nat (length (l_blocks (o_ledger ord)))) (inv_TxID ivk) db m k)"
proof -
  note net = assms(1) [unfolded fabricx_network_def]
  from orderer_steps_grow [OF assms(15)] assms(4) obtain bs where bs: "l_blocks (o_ledger ord) = l_blocks (o_ledger ord0) @ bs" by auto
  note R0 = reachable_ledger [OF assms(1-3)] and R = reachable_ledger [OF assms(1,2) rtranclp_trans [OF assms(3,15)]]
  have size: "length (l_blocks (o_ledger ord)) \<le> 2 ^ 63 \<and> (\<forall>b \<in> set (l_blocks (o_ledger ord)). length (raw_data b) \<le> 2 ^ 63)"
    and size0: "length (l_blocks (o_ledger ord0)) \<le> 2 ^ 63 \<and> (\<forall>b \<in> set (l_blocks (o_ledger ord0)). length (raw_data b) \<le> 2 ^ 63)"
    using assms(18) by (auto simp: bs)
  obtain d blocks where d: "db_Get d = db_Get db0" "db_inv d" "\<forall>b \<in> set blocks. numbers_ok b" "db_Get (HandleAll d blocks) = db_Get db"
    "worldstate (HandleAll d blocks) = worldstate db"
    by (rule later_database [OF R0(1) [OF size0] R(1) [OF size] bs R(2) [OF size] R0(3) [OF size0] assms(4,16)])
  have inv0: "db_inv db0" by (rule own_db [OF R0(1-3) [OF size0] assms(4)])
  have inv: "db_inv db" "\<forall>m. channel_progress db (db_channel db) = Some m \<longrightarrow> m < int (length (l_blocks (o_ledger ord)))"
    by (rule own_db [OF R(1-3) [OF size] assms(16)], simp)+
  from endorsed_transaction_parses [OF _ assms(11) _ assms(12,13)] net simulated_keys [OF inv0 assms(5-9)] obtain tx rws where
    tx: "fabricx_ParseTx pb env = Ok (Some tx)" "tx_ID tx = inv_TxID ivk" "tx_NsRWS tx = [\<lparr>ns_Namespace = ns, ns_RWS = rws\<rparr>]"
    "mset (Reads rws) = image_mset strip_read (mset (Reads (sim_Result rks wks st)))"
    "mset (Writes rws) = image_mset strip_write (mset (Writes (sim_Result rks wks st)))" unfolding assms(10) by blast
  note w = simulated_writes [OF assms(7,9) tx(3,5)]
  have "short_histories (HandleAll d blocks)" using assms(17) by (simp add: short_histories_def d(5))
  from simulated_fresh [OF inv0 assms(5-8) tx(3,4) d(2,1,3) this] assms(21) have f: "read_fresh (db_Get db) tx \<longleftrightarrow> fresh"
    unfolding d(4) assms(10) by blast
  from R(4) [OF size] obtain hdr where hdr: "tipHeader (o_ledger ord) = Some hdr" by blast
  from R(1) [OF size] net have L: "l_parser (o_ledger ord) = fabricx_Parse pb cc" "codes_fit (l_validator (o_ledger ord))"
    "monotonicVersions (l_validator (o_ledger ord))" "\<not> l_closed (o_ledger ord)"
    by (simp_all add: replica_inv_def fabricx_Parse_def codes_fit_def) (simp add: fabricx_NewMVCCValidator_def NewMVCCValidator_def)
  from net have c: "codec_ok (ma_Envelope lc) (um_Envelope pb)" "header_types_ok pb" "TRANSACTIONS_FILTER pb = 2"
    by (simp_all add: ledger_codecs_ok_def)
  from process_envelope [OF c assms(14) tx(1) w(1) L assms(16) inv _ hdr, of now' ext] assms(18) f obtain l' db' t where
    p: "ledger_process pb lc now' ext (o_ledger ord) [env] = (l', Ok ())" "l_db l' = Some db'" "db_inv db'"
      "tx_ID t = tx_ID tx" "tx_Number t = 0"
      "history db' = (if fresh then fold (append_write (of_nat (length (l_blocks (o_ledger ord))))) (map (Pair t) (writes_of tx)) (history db)
        else history db)" by auto
  note res = outcome_history [OF inv(1) p(3) w(1) p(4) [unfolded tx(2)] p(5,6) w(2)]
  from cut_at_once [OF assms(19,20), of "ledger_process pb lc now' ext" env l'] p(1,2) res show ?thesis by auto
qed

subsection \<open>Witness\<close>

text \<open>A transaction that reads and writes one key, and codecs that know it and the genesis block.\<close>

definition life_sim :: "sim_resp list \<times> SimulationStore" where
  "life_sim = sim_run (sim_calls db_Handle snapshot_Get (NewWriteDB ''mychannel'') 0 [([], OpGet ''k''), ([], OpPut ''k'' ''v'')])
     (NewSimulationStore ''ns'' 0 True)"

definition life_rws :: ReadWriteSet where
  "life_rws = \<lparr>Reads = [\<lparr>r_Key = ''k'', r_Version = None\<rparr>], Writes = [\<lparr>w_Key = ''k'', w_IsDelete = False, w_Value = ''v''\<rparr>]\<rparr>"

definition life_tx :: pb_Tx where
  "life_tx = buildTx [] life_rws ''ns'' 0 [''md'']"

definition life_endorsed :: pb_Tx where
  "life_endorsed = life_tx\<lparr>xtx_Endorsements := [[(''sig'', sample_identity)]]\<rparr>"

definition two_messages :: "'m \<Rightarrow> bytes \<Rightarrow> 'm \<Rightarrow> bytes \<Rightarrow> 'm \<Rightarrow> bytes res" where
  "two_messages m1 b1 m2 b2 m = (if m = m1 then Inr b1 else if m = m2 then Inr b2 else Inl (Msg ''marshal'' []))"

lemma codec_two: "b1 \<noteq> b2 \<Longrightarrow> codec_ok (two_messages m1 b1 m2 b2) (pick [(b1, m1), (b2, m2)])"
  by (auto simp: codec_ok_def two_messages_def split: if_splits)

definition life_pb :: protos where
  "life_pb = sample_pb\<lparr>um_Envelope := (\<lambda>b. Inr \<lparr>env_Payload = b, env_Signature = ''''\<rparr>),
     ma_Payload := two_messages net_payload ''gpl'' sample_payload ''pl'', um_Payload := pick [(''gpl'', net_payload), (''pl'', sample_payload)],
     ma_ChannelHeader := two_messages net_header ''gchdr'' sample_channel_header ''chdr'',
     um_ChannelHeader := pick [(''gchdr'', net_header), (''chdr'', sample_channel_header)],
     um_ConfigEnvelope := unmarshal_only net_config ''gcfg'',
     ma_Tx := two_messages life_tx ''tx1'' life_endorsed ''tx2'', um_Tx := pick [(''tx1'', life_tx), (''tx2'', life_endorsed)]\<rparr>"

definition life_cfg :: orderer_config where
  "life_cfg = \<lparr>BlockCutTime = 0, MaxTxPerBlock = 0, OrdererPort = 0, PeerPort = 0\<rparr>"

definition life_start :: "ledger result" where
  "life_start = newLedger life_pb net_lc (Some (NewWriteDB ''mychannel'')) (fabricx_Parse life_pb sample_committer_codes)
     (fabricx_NewMVCCValidator sample_committer_codes [0, 1, 3])"

definition life_result :: ExecutionResult where
  "life_result = Success life_rws '''' '''' ''ok''"

lemma life_network: "fabricx_network life_pb net_lc sample_committer_codes [0, 1, 3]"
proof -
  have "packager_codecs life_pb"
    using sample_codecs codec_two [of "''tx1''" "''tx2''" life_tx life_endorsed] codec_two [of "''gpl''" "''pl''" net_payload sample_payload]
      codec_two [of "''gchdr''" "''chdr''" net_header sample_channel_header]
    by (simp add: packager_codecs_def life_pb_def)
  moreover have "ledger_codecs_ok life_pb net_lc"
    using net_codecs codec_two [of "''gpl''" "''pl''" net_payload sample_payload]
      codec_two [of "''gchdr''" "''chdr''" net_header sample_channel_header]
    by (simp add: ledger_codecs_ok_def life_pb_def net_pb_def)
  moreover have "codes_fit (fabricx_NewMVCCValidator sample_committer_codes [0, 1, 3])" by code_simp
  ultimately show ?thesis using net_codes(1,2)
    by (simp add: fabricx_network_def) (simp add: life_pb_def header_types_ok_def)
qed

lemma life_messages:
  "fabricx_NewInvocation life_pb (Some sample_signer) (Inr ''n'') \<lparr>ts_Seconds = 0, ts_Nanos = 0\<rparr> ''ch'' ''ns'' '''' 0 [''f''] = Inr sample_invocation"
  "fabricx_Endorse life_pb sample_signer [] sample_invocation life_result = Inr sample_response"
  "CreateTx life_pb None (Inr '''') (inv_Proposal sample_invocation) [sample_response, sample_response]
     = Ok \<lparr>env_Payload = ''pl'', env_Signature = ''''\<rparr>"
  by code_simp+

lemma life_unwritten: "enumerates [] (unwritten life_rws)"
  by (simp add: unwritten_def life_rws_def readByKey_def enumerates_def Let_def)

lemma life_store:
  "s_reads (snd life_sim) = [''k'' \<mapsto> \<lparr>r_Key = ''k'', r_Version = None\<rparr>]"
  "s_writes (snd life_sim) = [''k'' \<mapsto> \<lparr>w_Key = ''k'', w_IsDelete = False, w_Value = ''v''\<rparr>]"
  by (simp_all add: life_sim_def HandleAll_vdb [symmetric] GetState_def PutState_def snapshot_Get_def GetAt_def NewWriteDB_def
      queryLatest_def bind_u64_def NewSimulationStore_def)

lemma life_started:
  "case life_start of Ok l \<Rightarrow> map (length \<circ> raw_data) (l_blocks l) = [1] | _ \<Rightarrow> False"
  by code_simp

theorem transaction_lifecycle_witness:
  "\<exists>l ord' db'. life_start = Ok l
     \<and> batchingStep life_cfg (ledger_process life_pb net_lc 7 (\<lambda>_ _. Inr None)) (InCh \<lparr>env_Payload = ''pl'', env_Signature = ''''\<rparr>)
         (newTestOrderer l) = Ok (ord', Ok ())
     \<and> l_db (o_ledger ord') = Some db'
     \<and> db_Get db' ''ns'' ''k'' = Inr (Some \<lparr>wr_Namespace = ''ns'', wr_Key = ''k'', wr_BlockNum = 1, wr_TxNum = 0, wr_Version = 0,
         wr_Value = ''v'', wr_IsDelete = False, wr_TxID = ''txid''\<rparr>)"
proof -
  let ?db = "NewWriteDB ''mychannel''" and ?env = "\<lparr>env_Payload = ''pl'', env_Signature = ''''\<rparr> :: pb_Envelope"
  let ?steps = "[([], OpGet ''k''), ([], OpPut ''k'' ''v'')] :: (Block list \<times> sim_op) list"
  from life_started obtain l where l: "life_start = Ok l" "map (length \<circ> raw_data) (l_blocks l) = [1]" by (auto split: result.splits)
  then have n: "length (l_blocks l) = 1" "\<forall>b \<in> set (l_blocks l). length (raw_data b) \<le> 1" by auto
  have led: "o_ledger (newTestOrderer l) = l" "o_batch (newTestOrderer l) = []" by (simp_all add: newTestOrderer_def)
  from l(1) have db: "l_db (o_ledger (newTestOrderer l)) = Some ?db" by (auto simp: life_start_def newLedger_def led split: result.splits)
  have st: "sim_run (sim_calls db_Handle snapshot_Get ?db 0 ?steps) (NewSimulationStore ''ns'' 0 True) = (fst life_sim, snd life_sim)"
    by (simp add: life_sim_def)
  have en: "enumerates [''k''] (s_reads (snd life_sim))" "enumerates [''k''] (s_writes (snd life_sim))"
    by (simp_all add: enumerates_def life_store)
  have rws: "er_RWS life_result = sim_Result [''k''] [''k''] (snd life_sim)"
    by (simp add: life_result_def Success_def sim_Result_def life_store life_rws_def)
  have by_all: "\<forall>r \<in> set [sample_response, sample_response]. endorsed_by life_pb sample_invocation life_result r"
    using life_messages(2) life_unwritten by (auto simp: endorsed_by_def life_result_def Success_def)
  have env: "ma_Envelope net_lc ?env = Inr ''pl''" by (simp add: net_lc_def)
  have size: "length (l_blocks (o_ledger (newTestOrderer l))) < 2 ^ 63
      \<and> (\<forall>b \<in> set (l_blocks (o_ledger (newTestOrderer l))). length (raw_data b) \<le> 2 ^ 63)" using n by (fastforce simp: led)
  have snap: "Snapshot ?db = Inr 0" and short: "short_histories ?db"
    by (simp_all add: Snapshot_def BlockNumber_def NewWriteDB_def short_histories_def)
  have steps: "\<forall>(bs, x) \<in> set ?steps. \<forall>b \<in> set bs. numbers_ok b \<and> 0 < b_Number b" and cut: "BlockCutTime life_cfg = 0"
    by (simp_all add: life_cfg_def)
  from transaction_lifecycle [OF life_network l(1) [unfolded life_start_def] rtranclp.rtrancl_refl db snap steps st en rws
      life_messages(1) by_all life_messages(3) env rtranclp.rtrancl_refl db short size cut led(2), of True 7 "\<lambda>_ _. Inr None"]
  obtain ord' db' where o: "batchingStep life_cfg (ledger_process life_pb net_lc 7 (\<lambda>_ _. Inr None)) (InCh ?env) (newTestOrderer l) = Ok (ord', Ok ())"
      "l_db (o_ledger ord') = Some db'"
    and s: "state_of (db_Get db') ''ns'' ''k'' = outcome True (s_writes (snd life_sim)) ''ns'' (of_nat (length (l_blocks l))) ''txid'' ?db ''ns'' ''k''"
    by (auto simp: led sample_invocation_def)
  have "state_of (db_Get db') ''ns'' ''k'' = Some \<lparr>wr_Namespace = ''ns'', wr_Key = ''k'', wr_BlockNum = 1, wr_TxNum = 0, wr_Version = 0,
         wr_Value = ''v'', wr_IsDelete = False, wr_TxID = ''txid''\<rparr>"
    unfolding s by (simp add: outcome_def life_store committed_record_def n(1) history_def NewWriteDB_def write_value_def)
  then have "db_Get db' ''ns'' ''k'' = Inr (Some \<lparr>wr_Namespace = ''ns'', wr_Key = ''k'', wr_BlockNum = 1, wr_TxNum = 0, wr_Version = 0,
         wr_Value = ''v'', wr_IsDelete = False, wr_TxID = ''txid''\<rparr>)" by (simp add: state_of_def split: sum.splits)
  with l(1) o show ?thesis by blast
qed

end
