(* ===== verification/Submission.thy ===== *)
theory Submission
  imports Packager
begin

section \<open>Broadcasting to orderers (network/orderer.go, network/submitter.go)\<close>

text \<open>
  An \<open>Orderer\<close> sends envelopes on a persistent stream, which it opens when it has none or when the stream's
  context is done. Streams and their contexts are numbered in the order they are created. What gRPC answers
  is an argument: for every attempt, whether opening and sending fail. \<open>o_sent\<close> is the log of what was
  written to which stream. The goroutine that reads the replies of a stream cancels the context of the
  stream when it ends; that, and the end of the parent context, is the step \<open>readerExit\<close> of the environment.
\<close>

subsection \<open>The orderer client\<close>

record Orderer =
  o_addr :: string
  o_closed :: bool
  o_streamCtx :: "nat option"
  o_stream :: "nat option"
  o_done :: "nat set"
  o_next :: nat
  o_sent :: "(nat \<times> pb_Envelope) list"

definition NewOrderer :: "string \<Rightarrow> Orderer" where
  "NewOrderer addr = \<lparr>o_addr = addr, o_closed = False, o_streamCtx = None, o_stream = None, o_done = {},
     o_next = 0, o_sent = []\<rparr>"

definition streamCancel :: "Orderer \<Rightarrow> Orderer" where
  "streamCancel ord = ord\<lparr>o_done := o_done ord \<union> set_option (o_streamCtx ord)\<rparr>"

definition ensureStream :: "goerror option \<Rightarrow> Orderer \<Rightarrow> Orderer \<times> goerror option" where
  "ensureStream opened ord =
     (if o_closed ord then (ord, Some (Msg ''orderer %s: closed'' [FStr (o_addr ord)]))
      else if o_stream ord \<noteq> None \<and> set_option (o_streamCtx ord) \<inter> o_done ord = {} then (ord, None)
      else
        let o1 = (streamCancel ord)\<lparr>o_stream := None, o_streamCtx := Some (o_next ord), o_next := Suc (o_next ord)\<rparr> in
        case opened of
          Some err \<Rightarrow> (streamCancel o1, Some (Msg ''open broadcast stream to %s: %w'' [FStr (o_addr ord), FErr err]))
        | None \<Rightarrow> (o1\<lparr>o_stream := Some (o_next ord)\<rparr>, None))"

definition streamSend :: "goerror option \<Rightarrow> pb_Envelope \<Rightarrow> Orderer \<Rightarrow> Orderer \<times> goerror option" where
  "streamSend sent env ord =
     (case sent of
        Some err \<Rightarrow> (ord, Some err)
      | None \<Rightarrow> (ord\<lparr>o_sent := o_sent ord @ [(the (o_stream ord), env)]\<rparr>, None))"

definition Broadcast :: "goerror option \<Rightarrow> goerror option \<times> goerror option \<Rightarrow> goerror option \<times> goerror option
    \<Rightarrow> pb_Envelope \<Rightarrow> Orderer \<Rightarrow> Orderer \<times> goerror option" where
  "Broadcast ctxErr try1 try2 env ord =
     (case ctxErr of Some err \<Rightarrow> (ord, Some err) | None \<Rightarrow>
     (case ensureStream (fst try1) ord of
        (o1, Some err) \<Rightarrow> (o1, Some err)
      | (o1, None) \<Rightarrow>
     (case streamSend (snd try1) env o1 of
        (o2, None) \<Rightarrow> (o2, None)
      | (o2, Some _) \<Rightarrow>
     (case ensureStream (fst try2) (streamCancel o2) of
        (o3, Some err) \<Rightarrow> (o3, Some err)
      | (o3, None) \<Rightarrow>
     (case streamSend (snd try2) env o3 of
        (o4, None) \<Rightarrow> (o4, None)
      | (o4, Some err) \<Rightarrow> (o4, Some (Msg ''broadcast to %s: %w'' [FStr (o_addr ord), FErr err])))))))"

definition readerExit :: "nat \<Rightarrow> Orderer \<Rightarrow> Orderer" where
  "readerExit i ord = ord\<lparr>o_done := insert i (o_done ord)\<rparr>"

text \<open>\<open>Close\<close> marks the orderer closed and, after waiting for the reader, cancels the stream; \<open>conn\<close> is the result of closing the connection.\<close>

definition orderer_Close :: "goerror option \<Rightarrow> Orderer \<Rightarrow> Orderer \<times> goerror option" where
  "orderer_Close conn ord = (streamCancel (ord\<lparr>o_closed := True\<rparr>), conn)"

subsection \<open>The submitter\<close>

record Submitter =
  su_orderers :: "Orderer list"
  su_packager :: "sdk_Endorsement \<Rightarrow> pb_Envelope result"

text \<open>One \<open>net\<close> entry per orderer: the two attempts of its \<open>Broadcast\<close>.\<close>

type_synonym attempts = "(goerror option \<times> goerror option) \<times> (goerror option \<times> goerror option)"

fun broadcastAll :: "goerror option \<Rightarrow> pb_Envelope \<Rightarrow> attempts list \<Rightarrow> Orderer list \<Rightarrow> Orderer list \<times> nat" where
  "broadcastAll ctxErr env (a # net) (ord # ords) =
     (case Broadcast ctxErr (fst a) (snd a) env ord of (o', err) \<Rightarrow>
      case broadcastAll ctxErr env net ords of (ords', errs) \<Rightarrow>
        (o' # ords', (if err \<noteq> None then Suc errs else errs)))"
| "broadcastAll ctxErr env _ _ = ([], 0)"

definition submitter_Submit :: "goerror option \<Rightarrow> attempts list \<Rightarrow> Submitter \<Rightarrow> sdk_Endorsement \<Rightarrow> Submitter \<times> unit result" where
  "submitter_Submit ctxErr net s end0 =
     (case su_packager s end0 of
        Panic \<Rightarrow> (s, Panic)
      | Err err \<Rightarrow> (s, Err (wrap ''package proposal: %w'' err))
      | Ok env \<Rightarrow>
          (case broadcastAll ctxErr env net (su_orderers s) of (ords, errs) \<Rightarrow>
             (s\<lparr>su_orderers := ords\<rparr>,
              if errs * 2 > length (su_orderers s) then Err (Msg ''error broadcasting'' []) else Ok ())))"

definition submitter_Close :: "goerror option list \<Rightarrow> Submitter \<Rightarrow> Submitter \<times> goerror list" where
  "submitter_Close conns s =
     (s\<lparr>su_orderers := map2 (\<lambda>c ord. fst (orderer_Close c ord)) conns (su_orderers s)\<rparr>,
      concat (map2 (\<lambda>c ord. (case snd (orderer_Close c ord) of Some e \<Rightarrow> [e] | None \<Rightarrow> [])) conns (su_orderers s)))"

subsection \<open>Broadcast\<close>

definition orderer_inv :: "Orderer \<Rightarrow> bool" where
  "orderer_inv ord \<longleftrightarrow> (\<forall>i \<in> o_done ord. i < o_next ord) \<and> (\<forall>i. o_streamCtx ord = Some i \<longrightarrow> i < o_next ord)
     \<and> (\<forall>i. o_stream ord = Some i \<longrightarrow> o_streamCtx ord = Some i)"

definition live_stream :: "Orderer \<Rightarrow> nat option" where
  "live_stream ord = (case o_stream ord of Some i \<Rightarrow> if i \<in> o_done ord then None else Some i | None \<Rightarrow> None)"

named_theorems orderer_intros

lemma orderer_inv_New [orderer_intros]: "orderer_inv (NewOrderer addr)"
  by (simp add: orderer_inv_def NewOrderer_def)

lemma orderer_inv_cancel [orderer_intros]: "orderer_inv ord \<Longrightarrow> orderer_inv (streamCancel ord)"
  by (auto simp: orderer_inv_def streamCancel_def)

lemma orderer_inv_reader [orderer_intros]: "orderer_inv ord \<Longrightarrow> i < o_next ord \<Longrightarrow> orderer_inv (readerExit i ord)"
  by (auto simp: orderer_inv_def readerExit_def)

lemma orderer_inv_Close [orderer_intros]: "orderer_inv ord \<Longrightarrow> orderer_inv (fst (orderer_Close c ord))"
  by (auto simp: orderer_inv_def orderer_Close_def streamCancel_def)

lemma live_stream_cancel: "orderer_inv ord \<Longrightarrow> live_stream (streamCancel ord) = None"
  by (auto simp: orderer_inv_def live_stream_def streamCancel_def split: option.splits)

lemma ensureStream_spec:
  assumes "orderer_inv ord" and "ensureStream opened ord = (ord', r)"
  shows "orderer_inv ord' \<and> o_sent ord' = o_sent ord \<and> o_closed ord' = o_closed ord \<and> o_addr ord' = o_addr ord
    \<and> (r = None \<longleftrightarrow> \<not> o_closed ord \<and> (live_stream ord \<noteq> None \<or> opened = None))
    \<and> (r = None \<longrightarrow> live_stream ord' = (if live_stream ord \<noteq> None then live_stream ord else Some (o_next ord)))"
  using assms
  by (auto simp: ensureStream_def orderer_inv_def live_stream_def streamCancel_def Let_def less_Suc_eq
      split: if_splits option.splits)

lemma streamSend_spec:
  assumes "orderer_inv ord" and "live_stream ord = Some i" and "streamSend sent env ord = (ord', r)"
  shows "orderer_inv ord' \<and> o_closed ord' = o_closed ord \<and> live_stream ord' = Some i \<and> o_next ord' = o_next ord
    \<and> (r = None \<longleftrightarrow> sent = None) \<and> o_sent ord' = o_sent ord @ (if r = None then [(i, env)] else [])"
  using assms by (auto simp: streamSend_def orderer_inv_def live_stream_def split: option.splits if_splits)

text \<open>When a broadcast goes through: at the first attempt, or at the second on a new stream.\<close>

definition goes_through :: "goerror option \<Rightarrow> goerror option \<times> goerror option \<Rightarrow> goerror option \<times> goerror option
    \<Rightarrow> Orderer \<Rightarrow> bool" where
  "goes_through ctxErr try1 try2 ord \<longleftrightarrow> ctxErr = None \<and> \<not> o_closed ord
     \<and> (live_stream ord \<noteq> None \<or> fst try1 = None) \<and> (snd try1 = None \<or> try2 = (None, None))"

lemma Broadcast_spec:
  assumes "orderer_inv ord" and "Broadcast ctxErr try1 try2 env ord = (ord', r)"
  shows "orderer_inv ord' \<and> (r = None \<longleftrightarrow> goes_through ctxErr try1 try2 ord)
    \<and> (if r = None then \<exists>i. live_stream ord' = Some i \<and> o_sent ord' = o_sent ord @ [(i, env)]
       else o_sent ord' = o_sent ord)"
proof (cases "ctxErr")
  case None
  obtain o1 r1 where e1: "ensureStream (fst try1) ord = (o1, r1)" by fastforce
  note E1 = ensureStream_spec [OF assms(1) e1]
  show ?thesis
  proof (cases r1)
    case None
    with E1 obtain i where i: "live_stream o1 = Some i" by (auto split: if_splits)
    obtain o2 r2 where s2: "streamSend (snd try1) env o1 = (o2, r2)" by fastforce
    note S2 = streamSend_spec [OF conjunct1 [OF E1] i s2]
    let ?o2 = "streamCancel o2"
    obtain o3 r3 where e3: "ensureStream (fst try2) ?o2 = (o3, r3)" by fastforce
    have i2: "orderer_inv ?o2" using S2 by (simp add: orderer_inv_cancel)
    note E3 = ensureStream_spec [OF i2 e3]
    have f: "live_stream ?o2 = None" using S2 by (simp add: live_stream_cancel)
    have s: "o_sent ?o2 = o_sent o2" "o_closed ?o2 = o_closed o2" by (simp_all add: streamCancel_def)
    show ?thesis
    proof (cases "r2 = None \<or> r3 \<noteq> None")
      case True
      with assms(2) \<open>ctxErr = None\<close> None e1 s2 e3 E1 S2 E3 f s i show ?thesis
        by (cases try1; cases try2) (auto simp: Broadcast_def goes_through_def)
    next
      case False
      with E3 f have l: "live_stream o3 = Some (o_next ?o2)" by simp
      obtain o4 r4 where s4: "streamSend (snd try2) env o3 = (o4, r4)" by fastforce
      note S4 = streamSend_spec [OF conjunct1 [OF E3] l s4]
      from assms(2) \<open>ctxErr = None\<close> None e1 s2 e3 s4 False E1 S2 E3 S4 f s show ?thesis
        by (cases try1; cases try2; cases r4) (auto simp: Broadcast_def goes_through_def)
    qed
  next
    case (Some err)
    with assms(2) None e1 E1 show ?thesis by (auto simp: Broadcast_def goes_through_def)
  qed
qed (use assms in \<open>auto simp: Broadcast_def goes_through_def\<close>)

subsection \<open>A client over its lifetime\<close>

text \<open>Broadcasts, exits of reply readers and a close, in any order.\<close>

datatype orderer_event =
    DoBroadcast "goerror option" "goerror option \<times> goerror option" "goerror option \<times> goerror option" pb_Envelope
  | DoReaderExit nat
  | DoClose "goerror option"

fun orderer_run :: "orderer_event list \<Rightarrow> Orderer \<Rightarrow> Orderer \<times> pb_Envelope list" where
  "orderer_run [] ord = (ord, [])"
| "orderer_run (DoBroadcast c a b env # evs) ord =
     (case Broadcast c a b env ord of (o1, r) \<Rightarrow>
      case orderer_run evs o1 of (o2, acked) \<Rightarrow> (o2, (if r = None then env # acked else acked)))"
| "orderer_run (DoReaderExit i # evs) ord = orderer_run evs (if i < o_next ord then readerExit i ord else ord)"
| "orderer_run (DoClose c # evs) ord = orderer_run evs (fst (orderer_Close c ord))"

lemma orderer_run_spec:
  assumes "orderer_inv ord" and "orderer_run evs ord = (ord', acked)"
  shows "orderer_inv ord' \<and> map snd (o_sent ord') = map snd (o_sent ord) @ acked \<and> (o_closed ord \<longrightarrow> acked = [])"
  using assms
proof (induction evs ord arbitrary: ord' acked rule: orderer_run.induct)
  case (2 c a b env evs ord)
  obtain o1 r where b: "Broadcast c a b env ord = (o1, r)" by fastforce
  obtain o2 k where k: "orderer_run evs o1 = (o2, k)" by fastforce
  note B = Broadcast_spec [OF "2.prems"(1) b]
  have cl: "o_closed ord \<longrightarrow> o_closed o1 \<and> r \<noteq> None"
    using b by (auto simp: Broadcast_def ensureStream_def split: option.splits)
  from "2.IH" [OF b [symmetric] _ k] B b k "2.prems"(2) cl show ?case by (auto split: if_splits)
next
  case (3 i evs ord)
  then show ?case using orderer_inv_reader [of ord i] by (auto simp: readerExit_def split: if_splits)
next
  case (4 c evs ord)
  then show ?case using orderer_inv_Close [of ord c] by (auto simp: orderer_Close_def streamCancel_def)
qed simp

lemma orderer_run_append:
  "orderer_run (evs @ evs') ord =
     (case orderer_run evs ord of (o1, a1) \<Rightarrow> case orderer_run evs' o1 of (o2, a2) \<Rightarrow> (o2, a1 @ a2))"
  by (induction evs ord rule: orderer_run.induct) (auto split: prod.splits)

text \<open>
  C32: The log of a connection is what its \<open>Broadcast\<close> calls reported: over any sequence of broadcasts, stream
  failures and closes, the envelopes written to the streams are exactly those whose call returned nil, each
  once and in call order, and no call after a close succeeds.
\<close>

theorem orderer_run_exact:
  assumes "orderer_run evs (NewOrderer addr) = (ord, acked)"
  shows "map snd (o_sent ord) = acked \<and> snd (orderer_run (evs @ DoClose c # evs') (NewOrderer addr)) = acked"
proof -
  note R = orderer_run_spec [OF orderer_inv_New assms]
  obtain o2 a2 where r: "orderer_run evs' (fst (orderer_Close c ord)) = (o2, a2)" by fastforce
  have "o_closed (fst (orderer_Close c ord))" by (simp add: orderer_Close_def streamCancel_def)
  with orderer_run_spec [OF orderer_inv_Close r] R have "a2 = []" by blast
  with R r assms show ?thesis by (simp add: orderer_run_append) (simp add: NewOrderer_def)
qed

definition sample_envelope :: pb_Envelope where
  "sample_envelope = \<lparr>env_Payload = ''e'', env_Signature = ''''\<rparr>"

definition sample_events :: "orderer_event list" where
  "sample_events = [DoBroadcast None (None, Some emptyMsg) (None, None) sample_envelope]"

lemma sample_events_run:
  "snd (orderer_run sample_events (NewOrderer ''o'')) = [sample_envelope]
   \<and> map fst (o_sent (fst (orderer_run sample_events (NewOrderer ''o'')))) = [1]"
  by code_simp

theorem orderer_run_exact_witness:
  "\<exists>ord. orderer_run sample_events (NewOrderer ''o'') = (ord, [sample_envelope]) \<and> o_sent ord = [(1, sample_envelope)]
    \<and> snd (orderer_run (sample_events @ DoClose None # sample_events) (NewOrderer ''o'')) = [sample_envelope]"
proof -
  obtain ord acked where r: "orderer_run sample_events (NewOrderer ''o'') = (ord, acked)" by fastforce
  with sample_events_run have "acked = [sample_envelope]" "map fst (o_sent ord) = [1]" by simp_all
  with orderer_run_exact [OF r, of None sample_events] r show ?thesis by (auto simp: map_eq_Cons_conv)
qed

subsection \<open>Quorum\<close>

lemma broadcastAll_spec:
  assumes "list_all orderer_inv ords" and "length net = length ords" and "broadcastAll c env net ords = (ords', errs)"
  shows "length ords' = length ords \<and> list_all orderer_inv ords'
    \<and> list_all2 (\<lambda>a b. map snd (o_sent b) = map snd (o_sent a) \<or> map snd (o_sent b) = map snd (o_sent a) @ [env]) ords ords'
    \<and> errs + length (filter (\<lambda>(a, b). length (o_sent b) = Suc (length (o_sent a))) (zip ords ords')) = length ords"
  using assms
proof (induction c env net ords arbitrary: ords' errs rule: broadcastAll.induct)
  case (1 c env a net ord ords)
  obtain o1 r where b: "Broadcast c (fst a) (snd a) env ord = (o1, r)" by fastforce
  obtain os n where k: "broadcastAll c env net ords = (os, n)" by fastforce
  from 1 have "orderer_inv ord" by simp
  note B = Broadcast_spec [OF this b]
  from "1.IH" [OF b [symmetric] _ _ k] B b k "1.prems" show ?case by (cases r) auto
qed auto

text \<open>
  \<open>Submit\<close> hands the packaged envelope to every orderer, at most once each and whether or not earlier ones
  failed, and it returns nil exactly when at least half of them took it.
\<close>

theorem Submit_quorum:
  assumes "list_all orderer_inv (su_orderers s)" and "length net = length (su_orderers s)"
    and "su_packager s end0 = Ok env" and "submitter_Submit ctxErr net s end0 = (s', r)"
  shows "list_all2 (\<lambda>a b. map snd (o_sent b) = map snd (o_sent a) \<or> map snd (o_sent b) = map snd (o_sent a) @ [env])
      (su_orderers s) (su_orderers s')
    \<and> (r = Ok () \<longleftrightarrow> length (su_orderers s) \<le>
        2 * length (filter (\<lambda>(a, b). length (o_sent b) = Suc (length (o_sent a))) (zip (su_orderers s) (su_orderers s'))))"
proof -
  obtain ords errs where b: "broadcastAll ctxErr env net (su_orderers s) = (ords, errs)" by fastforce
  with assms(3,4) have "s' = s\<lparr>su_orderers := ords\<rparr>"
    "r = (if errs * 2 > length (su_orderers s) then Err (Msg ''error broadcasting'' []) else Ok ())"
    by (auto simp: submitter_Submit_def)
  with broadcastAll_spec [OF assms(1,2) b] show ?thesis by auto
qed

definition sample_net :: "attempts list" where
  "sample_net = [((None, None), (None, None)), ((Some emptyMsg, None), (None, None))]"

definition sample_orderers :: Submitter where
  "sample_orderers = \<lparr>su_orderers = [NewOrderer ''a'', NewOrderer ''b''], su_packager = (\<lambda>_. Ok sample_envelope)\<rparr>"

definition sample_endorsement :: sdk_Endorsement where
  "sample_endorsement = \<lparr>e_Proposal = \<lparr>prop_Header = '''', prop_Payload = ''''\<rparr>, e_Responses = []\<rparr>"

lemma sample_submit:
  "map (\<lambda>ord. length (o_sent ord)) (su_orderers (fst (submitter_Submit None sample_net sample_orderers sample_endorsement))) = [1, 0]"
  by code_simp

theorem Submit_quorum_witness:
  "\<exists>s'. submitter_Submit None sample_net sample_orderers sample_endorsement = (s', Ok ())
    \<and> map (\<lambda>ord. length (o_sent ord)) (su_orderers s') = [1, 0]"
proof -
  obtain s' r where s': "submitter_Submit None sample_net sample_orderers sample_endorsement = (s', r)"
    by (rule prod.exhaust)
  with sample_submit have m: "map (\<lambda>ord. length (o_sent ord)) (su_orderers s') = [1, 0]" by simp
  then obtain a b where ab: "su_orderers s' = [a, b]" "length (o_sent a) = 1" "o_sent b = []" by (auto simp: map_eq_Cons_conv)
  have i: "list_all orderer_inv (su_orderers sample_orderers)" "length sample_net = length (su_orderers sample_orderers)"
    "su_packager sample_orderers sample_endorsement = Ok sample_envelope"
    by (simp_all add: sample_orderers_def sample_net_def orderer_inv_New)
  have "su_orderers sample_orderers = [NewOrderer ''a'', NewOrderer ''b'']" by (simp add: sample_orderers_def)
  with conjunct2 [OF Submit_quorum [OF i s']] ab have "r = Ok ()" by (simp add: NewOrderer_def)
  with s' m show ?thesis by (intro exI [of _ s']) simp
qed

end
