(* ===== verification/Fabric_Peer.thy ===== *)
theory Fabric_Peer
  imports Test_Ledger Packager
begin

section \<open>The client of a Fabric peer (network/fabric/peer.go) and the peer it talks to\<close>

text \<open>
  Proposals: the client builds, signs and sends them, to one peer for the block height and to all of them for an
  endorsement. What the peer answers is an argument; for the test network's peer it is the definition
  \<open>testPeer_ProcessProposal\<close>. \<open>protoutil.GetSignedProposal\<close>, \<open>protoutil.CreateSignedTx\<close> and the codec of
  \<open>common.BlockchainInfo\<close> are the record \<open>proposal_protos\<close>, the nonce is an argument.
\<close>

record pb_BlockchainInfo =
  bi_Height :: u64
  bi_CurrentBlockHash :: bytes
  bi_PreviousBlockHash :: bytes

record proposal_protos =
  GetSignedProposal :: "pb_Proposal \<Rightarrow> Signer \<Rightarrow> pb_SignedProposal res"
  CreateSignedTx :: "pb_Proposal \<Rightarrow> Signer \<Rightarrow> pb_ProposalResponse list \<Rightarrow> pb_Envelope res"
  ma_BlockchainInfo :: "pb_BlockchainInfo \<Rightarrow> bytes res"
  um_BlockchainInfo :: "bytes \<Rightarrow> pb_BlockchainInfo res"

subsection \<open>The client\<close>

definition NewSignedProposal :: "protos \<Rightarrow> proposal_protos \<Rightarrow> Signer \<Rightarrow> bytes \<Rightarrow> string \<Rightarrow> string \<Rightarrow> bytes list
    \<Rightarrow> pb_SignedProposal res" where
  "NewSignedProposal pb pp signer nonce channel ns args =
     res_and_then (Serialize signer) id (\<lambda>creator.
     res_and_then (CreateChaincodeProposal pb (ComputeTxID pb nonce creator) (HeaderType_ENDORSER_TRANSACTION pb) channel
        \<lparr>cis_ChaincodeSpec = Some \<lparr>cs_Type = ChaincodeSpec_CAR pb,
           cs_ChaincodeId = Some \<lparr>ccid_Name = ns, ccid_Version = ''''\<rparr>, cs_Input = Some args\<rparr>\<rparr> nonce creator) id (\<lambda>proposal.
     GetSignedProposal pp proposal signer))"

type_synonym endorser = "pb_SignedProposal \<Rightarrow> pb_ProposalResponse res"

definition peer_ProcessProposal :: "endorser \<Rightarrow> pb_SignedProposal \<Rightarrow> pb_ProposalResponse res" where
  "peer_ProcessProposal client signedProp =
     (case client signedProp of
        Inl err \<Rightarrow> Inl (wrap ''peer: %w'' err)
      | Inr resp \<Rightarrow> if pr_Response resp = None then Inl (Msg ''peer returned nil response'' []) else Inr resp)"

definition fabric_BlockHeight :: "protos \<Rightarrow> proposal_protos \<Rightarrow> Signer \<Rightarrow> bytes \<Rightarrow> string \<Rightarrow> endorser \<Rightarrow> u64 res" where
  "fabric_BlockHeight pb pp signer nonce channel client =
     res_and_then (NewSignedProposal pb pp signer nonce channel ''qscc'' [''GetChainInfo'', channel]) id (\<lambda>prop.
     res_and_then (peer_ProcessProposal client prop) id (\<lambda>res.
     res_and_then (um_BlockchainInfo pp (rsp_Payload (the (pr_Response res)))) id (\<lambda>info.
     Inr (bi_Height info))))"

definition fabricx_BlockHeight :: "pb_BlockchainInfo res \<Rightarrow> u64 res" where
  "fabricx_BlockHeight info = (case info of Inl err \<Rightarrow> Inl err | Inr i \<Rightarrow> Inr (bi_Height i))"

text \<open>The collecting loop of \<open>ExecuteTransaction\<close>, over the results in the order of the peers.\<close>

fun collectResponses :: "pb_ProposalResponse res list \<Rightarrow> pb_ProposalResponse list res" where
  "collectResponses [] = Inr []"
| "collectResponses (Inl err # rs) = Inl (wrap ''peer endorsement: %w'' err)"
| "collectResponses (Inr resp # rs) =
     (case collectResponses rs of Inl err \<Rightarrow> Inl err | Inr resps \<Rightarrow> Inr (resp # resps))"

definition ExecuteTransaction :: "protos \<Rightarrow> proposal_protos \<Rightarrow> Signer \<Rightarrow> bytes \<Rightarrow> string \<Rightarrow> endorser list \<Rightarrow> string \<Rightarrow> bytes list
    \<Rightarrow> sdk_Endorsement res" where
  "ExecuteTransaction pb pp signer nonce channel peers ns args =
     res_and_then (NewSignedProposal pb pp signer nonce channel ns args) id (\<lambda>prop.
     res_and_then (collectResponses (map (\<lambda>client. peer_ProcessProposal client prop) peers)) id (\<lambda>responses.
     res_and_then (um_Proposal pb (sp_ProposalBytes prop)) id (\<lambda>proposal.
     Inr \<lparr>e_Proposal = proposal, e_Responses = responses\<rparr>)))"

definition fabric_PackageTx :: "proposal_protos \<Rightarrow> Signer \<Rightarrow> sdk_Endorsement \<Rightarrow> pb_Envelope res" where
  "fabric_PackageTx pp signer e = CreateSignedTx pp (e_Proposal e) signer (e_Responses e)"

subsection \<open>The test network's peer (fabrictest/peer.go)\<close>

definition testSigner :: Signer where
  "testSigner = \<lparr>Sign = (\<lambda>_. Inr ''sig''), Serialize = Inr ''identity''\<rparr>"

definition testPeer_ProcessProposal :: "protos \<Rightarrow> proposal_protos \<Rightarrow> int \<Rightarrow> ledger \<Rightarrow> pb_SignedProposal \<Rightarrow> pb_ProposalResponse result" where
  "testPeer_ProcessProposal pb pp now l prop =
     (case fabric_ParseProposal pb (Some now) prop of
        Inl err \<Rightarrow> Err err
      | Inr ivk \<Rightarrow>
          if inv_Namespace ivk \<noteq> ''qscc'' \<or> length (inv_Args ivk) = 0 \<or> inv_Args ivk ! 0 \<noteq> ''GetChainInfo''
          then Err (Msg ''only qscc GetChainInfo is supported in fabrictest'' [])
          else
            (case chainInfo pb l of
               None \<Rightarrow> Panic
             | Some (hgt, currentHash, previousHash) \<Rightarrow>
                 MarshalOrPanic (ma_BlockchainInfo pp \<lparr>bi_Height = hgt, bi_CurrentBlockHash = currentHash,
                     bi_PreviousBlockHash = previousHash\<rparr>) (\<lambda>payload.
                 fabric_Endorse pb testSigner ivk \<lparr>er_RWS = \<lparr>Reads = [], Writes = []\<rparr>, er_Event = '''', er_EventName = '''',
                   er_Status = 200, er_Message = '''', er_Payload = payload\<rparr>)))"

definition testPeer_GetBlockchainInfo :: "protos \<Rightarrow> ledger \<Rightarrow> pb_BlockchainInfo option" where
  "testPeer_GetBlockchainInfo pb l =
     map_option (\<lambda>(hgt, cur, prev). \<lparr>bi_Height = hgt, bi_CurrentBlockHash = cur, bi_PreviousBlockHash = prev\<rparr>) (chainInfo pb l)"

subsection \<open>What the client learns\<close>

text \<open>What \<open>protoutil\<close> documents: a signed proposal carries the marshalled proposal.\<close>

definition signs_proposals :: "protos \<Rightarrow> proposal_protos \<Rightarrow> bool" where
  "signs_proposals pb pp \<longleftrightarrow> (\<forall>p sg sp. GetSignedProposal pp p sg = Inr sp \<longrightarrow> um_Proposal pb (sp_ProposalBytes sp) = Inr p)"

definition answered :: "'a result \<Rightarrow> 'a res" where
  "answered r = (case r of Ok x \<Rightarrow> Inr x | Err e \<Rightarrow> Inl e | Panic \<Rightarrow> Inl (Msg ''connection closed'' []))"

lemma fabric_Endorse_response:
  "fabric_Endorse pb sg ivk res = Ok resp \<Longrightarrow> pr_Response resp = Some (er_Response res)"
  by (auto simp: fabric_Endorse_def res_bind_def split: option.splits result.splits sum.splits)

lemma testPeer_answer:
  assumes "testPeer_ProcessProposal pb pp now l prop = Ok resp" and "codec_ok (ma_BlockchainInfo pp) (um_BlockchainInfo pp)"
  shows "\<exists>r info. pr_Response resp = Some r \<and> um_BlockchainInfo pp (rsp_Payload r) = Inr info
    \<and> testPeer_GetBlockchainInfo pb l = Some info \<and> bi_Height info = height l"
proof -
  from assms(1) obtain ivk hgt cur prev payload res where
    "chainInfo pb l = Some (hgt, cur, prev)"
    "ma_BlockchainInfo pp \<lparr>bi_Height = hgt, bi_CurrentBlockHash = cur, bi_PreviousBlockHash = prev\<rparr> = Inr payload"
    "fabric_Endorse pb testSigner ivk res = Ok resp" "er_Payload res = payload"
    by (auto simp: testPeer_ProcessProposal_def MarshalOrPanic_def split: sum.splits if_splits option.splits)
  with assms(2) fabric_Endorse_response [OF this(3)] show ?thesis
    by (auto simp: codec_ok_def er_Response_def testPeer_GetBlockchainInfo_def chainInfo_def height_def)
qed

lemma NewSignedProposal_parsed:
  assumes "creates_proposals pb" and "signs_proposals pb pp"
    and "NewSignedProposal pb pp signer nonce channel ns args = Inr prop"
    and "fabric_ParseProposal pb now prop = Inr ivk"
  shows "inv_Namespace ivk = ns \<and> inv_Args ivk = args \<and> inv_Channel ivk = channel \<and> inv_Nonce ivk = nonce
    \<and> Serialize signer = Inr (inv_Creator ivk)"
proof -
  let ?cis = "\<lparr>cis_ChaincodeSpec = Some \<lparr>cs_Type = ChaincodeSpec_CAR pb,
           cs_ChaincodeId = Some \<lparr>ccid_Name = ns, ccid_Version = ''''\<rparr>, cs_Input = Some args\<rparr>\<rparr>"
  from assms(3) obtain creator proposal where c: "Serialize signer = Inr creator"
    "CreateChaincodeProposal pb (ComputeTxID pb nonce creator) (HeaderType_ENDORSER_TRANSACTION pb) channel ?cis nonce creator = Inr proposal"
    "GetSignedProposal pp proposal signer = Inr prop"
    by (auto simp: NewSignedProposal_def res_and_then_eq_Inr)
  have p: "um_Proposal pb (sp_ProposalBytes prop) = Inr proposal" using assms(2) c(3) by (simp add: signs_proposals_def)
  from assms(1) c(2) obtain hdr chdr t cpp where d: "um_Header pb (prop_Header proposal) = Inr hdr"
    "um_ChannelHeader pb (hdr_ChannelHeader hdr) = Inr chdr"
    "um_SignatureHeader pb (hdr_SignatureHeader hdr) = Inr \<lparr>sh_Creator = creator, sh_Nonce = nonce\<rparr>"
    "ch_ChannelId chdr = channel" "um_ChaincodeProposalPayload pb (prop_Payload proposal) = Inr cpp"
    "um_ChaincodeInvocationSpec pb (cpp_Input cpp) = Inr ?cis"
    unfolding creates_proposals_def by blast
  from assms(4) p d c(1) show ?thesis
    by (auto simp: fabric_ParseProposal_def ccid_GetName_def split: if_splits option.splits sum.splits
        simp: res_and_then_eq_Inr)
qed


definition endorses :: "protos \<Rightarrow> bool" where
  "endorses pb \<longleftrightarrow> (\<forall>x. ma_KVRWSet pb x \<in> range Inr) \<and> (\<forall>x. ma_TxReadWriteSet pb x \<in> range Inr)
     \<and> (\<forall>h r s e c. GetBytesProposalResponsePayload pb h r s e c \<in> range Inr)"

lemma endorses_empty:
  assumes "endorses pb"
  shows "\<exists>resp. fabric_Endorse pb testSigner ivk \<lparr>er_RWS = rws, er_Event = '''', er_EventName = '''', er_Status = 200,
     er_Message = '''', er_Payload = payload\<rparr> = Ok resp"
proof -
  obtain b1 b2 where "ma_KVRWSet pb (kvRWSet rws) = Inr b1"
    "ma_TxReadWriteSet pb \<lparr>trw_NsRwset = [\<lparr>nrw_Namespace = inv_Namespace ivk, nrw_Rwset = b1\<rparr>]\<rparr> = Inr b2"
    using assms unfolding endorses_def by (meson rangeE)
  moreover obtain b3 where "GetBytesProposalResponsePayload pb (inv_ProposalHash ivk)
      \<lparr>rsp_Status = 200, rsp_Message = '''', rsp_Payload = payload\<rparr> b2 ''''
      \<lparr>ccid_Name = inv_Namespace ivk, ccid_Version = inv_ChaincodeVersion ivk\<rparr> = Inr b3"
    using assms unfolding endorses_def by (meson rangeE)
  ultimately show ?thesis
    by (simp add: fabric_Endorse_def er_Validate_def marshalRWSet_def res_bind_def testSigner_def)
qed


text \<open>
  \<open>ExecuteTransaction\<close> is all or nothing. It returns an endorsement exactly when every peer answered with a
  response; the endorsement holds one response per peer, in the order of the peers and as the peer sent it, and
  the proposal they were asked to endorse. A failing peer is never left out silently.
\<close>

theorem ExecuteTransaction_exact:
  assumes "NewSignedProposal pb pp signer nonce channel ns args = Inr prop"
  shows "ExecuteTransaction pb pp signer nonce channel peers ns args = Inr e \<longleftrightarrow>
    um_Proposal pb (sp_ProposalBytes prop) = Inr (e_Proposal e) \<and> length (e_Responses e) = length peers
    \<and> (\<forall>i < length peers. (peers ! i) prop = Inr (e_Responses e ! i) \<and> pr_Response (e_Responses e ! i) \<noteq> None)"
proof -
  have "collectResponses rs = Inr resps \<longleftrightarrow> rs = map Inr resps" for rs resps
    by (induction rs arbitrary: resps rule: collectResponses.induct) (auto split: sum.splits, blast)
  then have c: "collectResponses (map (\<lambda>client. peer_ProcessProposal client prop) peers) = Inr resps
      \<longleftrightarrow> length resps = length peers \<and> (\<forall>i < length peers. peer_ProcessProposal (peers ! i) prop = Inr (resps ! i))" for resps
    by (auto simp: list_eq_iff_nth_eq)
  have p: "peer_ProcessProposal client prop = Inr r \<longleftrightarrow> client prop = Inr r \<and> pr_Response r \<noteq> None" for client r
    by (auto simp: peer_ProcessProposal_def split: sum.splits if_splits)
  show ?thesis using assms unfolding ExecuteTransaction_def res_and_then_eq_Inr by (cases e) (auto simp: c p)
qed


subsection \<open>Witnesses\<close>

definition height_spec :: pb_ChaincodeInvocationSpec where
  "height_spec = \<lparr>cis_ChaincodeSpec = Some \<lparr>cs_Type = 4, cs_ChaincodeId = Some \<lparr>ccid_Name = ''qscc'', ccid_Version = ''''\<rparr>,
     cs_Input = Some [''GetChainInfo'', ''ch'']\<rparr>\<rparr>"

definition height_pb :: protos where
  "height_pb = sample_pb\<lparr>CreateChaincodeProposal := (\<lambda>txid typ channel cis nonce creator.
       if txid = ''txid'' \<and> typ = 3 \<and> channel = ''ch'' \<and> nonce = ''n'' \<and> creator = ''id'' \<and> cis = height_spec
       then Inr \<lparr>prop_Header = ''fhdr'', prop_Payload = ''cpp''\<rparr> else Inl (Msg ''proposal'' [])),
     um_ChaincodeInvocationSpec := (\<lambda>_. Inr height_spec), ma_KVRWSet := (\<lambda>_. Inr ''kv''), ma_TxReadWriteSet := (\<lambda>_. Inr ''res'')\<rparr>"

definition height_info :: pb_BlockchainInfo where
  "height_info = \<lparr>bi_Height = 1, bi_CurrentBlockHash = ''hash'', bi_PreviousBlockHash = ''''\<rparr>"

definition height_pp :: proposal_protos where
  "height_pp = \<lparr>GetSignedProposal = (\<lambda>p sg. if p = \<lparr>prop_Header = ''fhdr'', prop_Payload = ''cpp''\<rparr>
       then Inr \<lparr>sp_ProposalBytes = ''prop'', sp_Signature = ''s''\<rparr> else Inl (Msg ''sign'' [])),
     CreateSignedTx = (\<lambda>_ _ _. Inl (Msg ''tx'' [])),
     ma_BlockchainInfo = marshal_only height_info ''info'', um_BlockchainInfo = unmarshal_only height_info ''info''\<rparr>"

definition height_ledger :: ledger where
  "height_ledger = \<lparr>l_blocks = [\<lparr>blk_Header = Some \<lparr>bh_Number = 0, bh_PreviousHash = '''', bh_DataHash = ''''\<rparr>,
     blk_Data = Some [], blk_Metadata = None\<rparr>], l_subs = [], l_db = None, l_parser = (\<lambda>_ _. Panic), l_validator = NewMVCCValidator False, l_closed = False\<rparr>"

lemma height_pb_simps [simp]:
  "um_Header height_pb = um_Header sample_pb" "um_ChannelHeader height_pb = um_ChannelHeader sample_pb"
  "um_SignatureHeader height_pb = um_SignatureHeader sample_pb" "um_Proposal height_pb = um_Proposal sample_pb"
  "um_ChaincodeProposalPayload height_pb = um_ChaincodeProposalPayload sample_pb"
  "um_ChaincodeInvocationSpec height_pb b = Inr height_spec" "GetProposalHash1 height_pb = GetProposalHash1 sample_pb"
  "HeaderType_ENDORSER_TRANSACTION height_pb = 3" "ComputeTxID height_pb = ComputeTxID sample_pb" "ChaincodeSpec_CAR height_pb = 4"
  by (simp_all add: height_pb_def) (simp add: sample_pb_defs)

lemma height_proposal:
  "NewSignedProposal height_pb height_pp sample_signer ''n'' ''ch'' ''qscc'' [''GetChainInfo'', ''ch'']
    = Inr \<lparr>sp_ProposalBytes = ''prop'', sp_Signature = ''s''\<rparr>"
  by (simp add: NewSignedProposal_def sample_signer_def) (simp add: height_pb_def height_spec_def height_pp_def)


definition height_resp :: "bytes \<Rightarrow> pb_ProposalResponse" where
  "height_resp payload = \<lparr>pr_Version = 1, pr_Endorsement = None, pr_Payload = payload,
     pr_Response = Some \<lparr>rsp_Status = 200, rsp_Message = '''', rsp_Payload = ''''\<rparr>\<rparr>"

theorem ExecuteTransaction_exact_witness:
  "ExecuteTransaction height_pb height_pp sample_signer ''n'' ''ch'' [\<lambda>_. Inr (height_resp ''a''), \<lambda>_. Inr (height_resp ''b'')]
     ''qscc'' [''GetChainInfo'', ''ch'']
   = Inr \<lparr>e_Proposal = \<lparr>prop_Header = ''fhdr'', prop_Payload = ''cpp''\<rparr>, e_Responses = [height_resp ''a'', height_resp ''b'']\<rparr>"
  using ExecuteTransaction_exact [OF height_proposal, of "[\<lambda>_. Inr (height_resp ''a''), \<lambda>_. Inr (height_resp ''b'')]"]
  by (auto simp: less_Suc_eq height_resp_def)

end
