(* ===== verification/Tls_Config.thy ===== *)
theory Tls_Config
  imports Prelude
begin

section \<open>TLS configuration (network/tls.go)\<close>

text \<open>
  From a configuration to the settings of a client connection. Files and certificate formats are arguments, the
  record \<open>tls_files\<close>: what reading a path gives, the certificates of a PEM file, and the key pair of two of them.
\<close>

record TLSConfig =
  tc_Mode :: string
  tc_CertPath :: string
  tc_KeyPath :: string
  tc_CACertPaths :: "string list"
  tc_ServerName :: string

abbreviation (input) TLSModeNone :: string where "TLSModeNone \<equiv> ''none''"
abbreviation (input) TLSModeTLS :: string where "TLSModeTLS \<equiv> ''tls''"
abbreviation (input) TLSModeMTLS :: string where "TLSModeMTLS \<equiv> ''mtls''"

definition DefaultTLSMinVersion :: int where "DefaultTLSMinVersion = 0x0304"

record 'cert tls_files =
  ReadFile :: "string \<Rightarrow> bytes res"
  CertsFromPEM :: "bytes \<Rightarrow> 'cert list"
  X509KeyPair :: "bytes \<Rightarrow> bytes \<Rightarrow> 'cert res"

record 'cert tls_Config =
  MinVersion :: int
  ServerName :: string
  RootCAs :: "'cert list"
  Certificates :: "'cert list"

definition tls_Validate :: "TLSConfig \<Rightarrow> goerror option" where
  "tls_Validate c =
     (if tc_Mode c = '''' \<or> tc_Mode c = TLSModeNone then
        (if tc_CertPath c \<noteq> '''' \<or> tc_KeyPath c \<noteq> '''' \<or> length (tc_CACertPaths c) > 0
         then Some (Msg ''tls mode 'none': cert/key/ca paths should not be set'' []) else None)
      else if tc_Mode c = TLSModeTLS then
        (if length (tc_CACertPaths c) = 0 then Some (Msg ''tls mode 'tls': ca-cert-paths required'' [])
         else if tc_CertPath c \<noteq> '''' \<or> tc_KeyPath c \<noteq> ''''
         then Some (Msg ''tls mode 'tls': cert-path and key-path should not be set (use 'mtls' for mutual TLS)'' [])
         else None)
      else if tc_Mode c = TLSModeMTLS then
        (if tc_CertPath c = '''' then Some (Msg ''tls mode 'mtls': cert-path required'' [])
         else if tc_KeyPath c = '''' then Some (Msg ''tls mode 'mtls': key-path required'' [])
         else if length (tc_CACertPaths c) = 0 then Some (Msg ''tls mode 'mtls': ca-cert-paths required'' [])
         else None)
      else Some (Msg (''invalid tls mode '%s': must be 'none', 'tls', or 'mtls'' @ [CHR 0x27]) [FStr (tc_Mode c)]))"

text \<open>The loop over the CA files; \<open>AppendCertsFromPEM\<close> is false for a file without a certificate.\<close>

fun loadRootCAs :: "'cert tls_files \<Rightarrow> string list \<Rightarrow> 'cert list res" where
  "loadRootCAs f [] = Inr []"
| "loadRootCAs f (caPath # rest) =
     (case ReadFile f caPath of
        Inl err \<Rightarrow> Inl (Msg ''failed to read CA cert %s: %w'' [FStr caPath, FErr err])
      | Inr caPEM \<Rightarrow>
          if CertsFromPEM f caPEM = [] then Inl (Msg ''failed to parse CA cert %s'' [FStr caPath])
          else (case loadRootCAs f rest of Inl err \<Rightarrow> Inl err | Inr cs \<Rightarrow> Inr (CertsFromPEM f caPEM @ cs)))"

definition loadClientCert :: "'cert tls_files \<Rightarrow> TLSConfig \<Rightarrow> 'cert list res" where
  "loadClientCert f c =
     (if tc_Mode c \<noteq> TLSModeMTLS then Inr []
      else
        (case ReadFile f (tc_CertPath c) of
           Inl err \<Rightarrow> Inl (Msg ''failed to read cert %s: %w'' [FStr (tc_CertPath c), FErr err])
         | Inr certPEM \<Rightarrow>
        (case ReadFile f (tc_KeyPath c) of
           Inl err \<Rightarrow> Inl (Msg ''failed to read key %s: %w'' [FStr (tc_KeyPath c), FErr err])
         | Inr keyPEM \<Rightarrow>
        (case X509KeyPair f certPEM keyPEM of
           Inl err \<Rightarrow> Inl (Msg ''failed to load client certificate and key: %w'' [FErr err])
         | Inr cert \<Rightarrow> Inr [cert]))))"

definition LoadClientTLSConfig :: "'cert tls_files \<Rightarrow> TLSConfig \<Rightarrow> string \<Rightarrow> 'cert tls_Config option res" where
  "LoadClientTLSConfig f c serverName =
     (case tls_Validate c of
        Some err \<Rightarrow> Inl err
      | None \<Rightarrow>
          (let serverName = (if tc_ServerName c \<noteq> '''' then tc_ServerName c else serverName) in
           if tc_Mode c = '''' \<or> tc_Mode c = TLSModeNone then Inr None
           else if tc_Mode c = TLSModeTLS \<or> tc_Mode c = TLSModeMTLS then
             (case loadRootCAs f (tc_CACertPaths c) of Inl err \<Rightarrow> Inl err | Inr rootCAs \<Rightarrow>
             (case loadClientCert f c of Inl err \<Rightarrow> Inl err | Inr certs \<Rightarrow>
              Inr (Some \<lparr>MinVersion = DefaultTLSMinVersion, ServerName = serverName, RootCAs = rootCAs, Certificates = certs\<rparr>)))
           else Inl (Msg ''invalid tls mode: %s'' [FStr (tc_Mode c)])))"

subsection \<open>What a loaded configuration guarantees\<close>

lemma pass_eq_Inr: "(case r of Inl e \<Rightarrow> Inl e | Inr x \<Rightarrow> g x) = Inr y \<longleftrightarrow> (\<exists>x. r = Inr x \<and> g x = Inr y)"
  by (cases r) auto

lemma loadRootCAs_Inr:
  "loadRootCAs f paths = Inr cs \<longleftrightarrow>
     (\<forall>p \<in> set paths. \<exists>pem. ReadFile f p = Inr pem \<and> CertsFromPEM f pem \<noteq> [])
     \<and> cs = concat (map (\<lambda>p. case ReadFile f p of Inr pem \<Rightarrow> CertsFromPEM f pem | Inl _ \<Rightarrow> []) paths)"
proof (induction paths arbitrary: cs)
  case (Cons p paths)
  show ?case
  proof (cases "ReadFile f p")
    case (Inr pem)
    then show ?thesis by (auto simp: pass_eq_Inr Cons.IH)
  qed simp
qed auto

lemma loadClientCert_Inr:
  "loadClientCert f c = Inr cs \<longleftrightarrow> (if tc_Mode c = ''mtls'' then \<exists>certPEM keyPEM cert. ReadFile f (tc_CertPath c) = Inr certPEM
      \<and> ReadFile f (tc_KeyPath c) = Inr keyPEM \<and> X509KeyPair f certPEM keyPEM = Inr cert \<and> cs = [cert] else cs = [])"
  by (auto simp: loadClientCert_def split: sum.splits)

lemma tls_Validate_None:
  "tls_Validate c = None \<longleftrightarrow>
     (tc_Mode c = '''' \<or> tc_Mode c = ''none'') \<and> tc_CertPath c = '''' \<and> tc_KeyPath c = '''' \<and> tc_CACertPaths c = []
     \<or> tc_Mode c = ''tls'' \<and> tc_CertPath c = '''' \<and> tc_KeyPath c = '''' \<and> tc_CACertPaths c \<noteq> []
     \<or> tc_Mode c = ''mtls'' \<and> tc_CertPath c \<noteq> '''' \<and> tc_KeyPath c \<noteq> '''' \<and> tc_CACertPaths c \<noteq> []"
  by (auto simp: tls_Validate_def)

lemma LoadClientTLSConfig_Inr:
  "LoadClientTLSConfig f c serverName = Inr r \<longleftrightarrow> tls_Validate c = None
     \<and> (if tc_Mode c = '''' \<or> tc_Mode c = ''none'' then r = None
        else \<exists>cas certs. loadRootCAs f (tc_CACertPaths c) = Inr cas \<and> loadClientCert f c = Inr certs
          \<and> r = Some \<lparr>MinVersion = 0x0304, ServerName = if tc_ServerName c \<noteq> '''' then tc_ServerName c else serverName,
               RootCAs = cas, Certificates = certs\<rparr>)"
  using tls_Validate_None [of c]
  by (cases "tls_Validate c") (auto simp: LoadClientTLSConfig_def pass_eq_Inr DefaultTLSMinVersion_def Let_def)

text \<open>
  A configuration is never weaker than it says. Loading succeeds with no TLS exactly for an empty mode or
  \<open>none\<close> without any path; otherwise the mode is \<open>tls\<close> or \<open>mtls\<close>, the connection requires TLS 1.3, trusts
  exactly the certificates of the configured CA files, of which there is at least one and each of which could be
  read, and presents a client certificate exactly in mode \<open>mtls\<close>.
\<close>

theorem LoadClientTLSConfig_exact:
  "(LoadClientTLSConfig f c serverName = Inr None \<longleftrightarrow>
      (tc_Mode c = '''' \<or> tc_Mode c = ''none'') \<and> tc_CertPath c = '''' \<and> tc_KeyPath c = '''' \<and> tc_CACertPaths c = [])
   \<and> (LoadClientTLSConfig f c serverName = Inr (Some t) \<longleftrightarrow>
      tc_Mode c \<in> {''tls'', ''mtls''} \<and> tc_CACertPaths c \<noteq> []
      \<and> (tc_CertPath c \<noteq> '''' \<and> tc_KeyPath c \<noteq> '''' \<longleftrightarrow> tc_Mode c = ''mtls'') \<and> (tc_CertPath c = '''' \<longleftrightarrow> tc_KeyPath c = '''')
      \<and> (\<forall>p \<in> set (tc_CACertPaths c). \<exists>pem. ReadFile f p = Inr pem \<and> CertsFromPEM f pem \<noteq> [])
      \<and> MinVersion t = 0x0304 \<and> ServerName t = (if tc_ServerName c \<noteq> '''' then tc_ServerName c else serverName)
      \<and> RootCAs t = concat (map (\<lambda>p. case ReadFile f p of Inr pem \<Rightarrow> CertsFromPEM f pem | Inl _ \<Rightarrow> []) (tc_CACertPaths c))
      \<and> (if tc_Mode c = ''tls'' then Certificates t = []
         else \<exists>certPEM keyPEM cert. ReadFile f (tc_CertPath c) = Inr certPEM \<and> ReadFile f (tc_KeyPath c) = Inr keyPEM
           \<and> X509KeyPair f certPEM keyPEM = Inr cert \<and> Certificates t = [cert]))"
  unfolding LoadClientTLSConfig_Inr tls_Validate_None loadRootCAs_Inr loadClientCert_Inr
  by (cases t) (auto split: if_splits)

definition sample_files :: "string tls_files" where
  "sample_files = \<lparr>ReadFile = (\<lambda>p. if p = ''ca.pem'' then Inr ''ca'' else Inl (Msg ''no such file'' [])),
     CertsFromPEM = (\<lambda>b. if b = ''ca'' then [''root''] else []), X509KeyPair = (\<lambda>_ _. Inl (Msg ''key'' []))\<rparr>"

theorem LoadClientTLSConfig_exact_witness:
  "LoadClientTLSConfig sample_files \<lparr>tc_Mode = ''tls'', tc_CertPath = '''', tc_KeyPath = '''', tc_CACertPaths = [''ca.pem''],
     tc_ServerName = ''''\<rparr> ''host'' = Inr (Some \<lparr>MinVersion = 0x0304, ServerName = ''host'', RootCAs = [''root''], Certificates = []\<rparr>)"
  using LoadClientTLSConfig_exact [of sample_files "\<lparr>tc_Mode = ''tls'', tc_CertPath = '''', tc_KeyPath = '''',
     tc_CACertPaths = [''ca.pem''], tc_ServerName = ''''\<rparr>" "''host''"
     "\<lparr>MinVersion = 0x0304, ServerName = ''host'', RootCAs = [''root''], Certificates = []\<rparr>"]
  by (simp add: sample_files_def)

end
