(* ===== verification/Query_Service.thy ===== *)
theory Query_Service
  imports Synchronizer
begin

section \<open>The query service (state/queryservice/)\<close>

text \<open>
  A store without a state of its own: reads go to the committer's query service, one view per snapshot, over
  a fixed number of connections. The service is not part of the repository. It is a parameter, the record
  \<open>query_service\<close> of what it answers on each connection, on a state of any type; \<open>serves\<close> is what its
  documentation promises about an open view. Call timeouts are errors of the service. The concurrent reads of
  a snapshot are a step relation.
\<close>

subsection \<open>The client (client.go)\<close>

record Row =
  row_Key :: bytes
  row_Value :: bytes
  row_Version :: u64

record pb_Query =
  q_View :: "string option"
  q_NsId :: string
  q_Keys :: "bytes list"

record 'q query_service =
  svc_BeginView :: "nat \<Rightarrow> 'q \<Rightarrow> 'q \<times> string res"
  svc_GetRows :: "nat \<Rightarrow> pb_Query \<Rightarrow> 'q \<Rightarrow> 'q \<times> (string \<times> Row list) list res"
  svc_EndView :: "nat \<Rightarrow> string \<Rightarrow> 'q \<Rightarrow> 'q \<times> goerror option"

record GRPCClient =
  gc_clients :: nat
  gc_next :: u64
  gc_views :: "string \<rightharpoonup> nat"

definition DefaultConnections :: nat where "DefaultConnections = 8"

definition pick_client :: "GRPCClient \<Rightarrow> GRPCClient \<times> nat" where
  "pick_client c = (let n = gc_next c + 1 in (c\<lparr>gc_next := n\<rparr>, unat (n mod of_nat (gc_clients c))))"

definition clientFor :: "string \<Rightarrow> GRPCClient \<Rightarrow> GRPCClient \<times> nat" where
  "clientFor viewID c = (case gc_views c viewID of Some i \<Rightarrow> (c, i) | None \<Rightarrow> pick_client c)"

definition BeginView :: "'q query_service \<Rightarrow> GRPCClient \<times> 'q \<Rightarrow> (GRPCClient \<times> 'q) \<times> string res" where
  "BeginView svc = (\<lambda>(c, q).
     case pick_client c of (c', i) \<Rightarrow>
     case svc_BeginView svc i q of
       (q', Inl err) \<Rightarrow> ((c', q'), Inl err)
     | (q', Inr viewID) \<Rightarrow> ((c'\<lparr>gc_views := (gc_views c')(viewID \<mapsto> i)\<rparr>, q'), Inr viewID))"

definition GetRows :: "'q query_service \<Rightarrow> string \<Rightarrow> string \<Rightarrow> bytes list \<Rightarrow> GRPCClient \<times> 'q \<Rightarrow> (GRPCClient \<times> 'q) \<times> Row list res" where
  "GetRows svc viewID ns keys = (\<lambda>(c, q).
     case clientFor viewID c of (c', i) \<Rightarrow>
     case svc_GetRows svc i \<lparr>q_View = if viewID \<noteq> '''' then Some viewID else None, q_NsId = ns, q_Keys = keys\<rparr> q of
       (q', Inl err) \<Rightarrow> ((c', q'), Inl err)
     | (q', Inr nss) \<Rightarrow> ((c', q'), Inr (concat (map snd (filter (\<lambda>rns. fst rns = ns) nss)))))"

definition EndView :: "'q query_service \<Rightarrow> string \<Rightarrow> GRPCClient \<times> 'q \<Rightarrow> (GRPCClient \<times> 'q) \<times> goerror option" where
  "EndView svc viewID = (\<lambda>(c, q).
     case clientFor viewID c of (c', i) \<Rightarrow>
     case svc_EndView svc i viewID q of
       (q', err) \<Rightarrow> ((c'\<lparr>gc_views := (gc_views c')(viewID := None)\<rparr>, q'), err))"

subsection \<open>The store (store.go)\<close>

record qs_Store =
  qs_height :: u64

definition qs_NewStore :: qs_Store where
  "qs_NewStore = \<lparr>qs_height = 0\<rparr>"

record qs_snapshot =
  qsn_viewID :: string
  qsn_cache :: "string \<rightharpoonup> WriteRecord option"

definition qs_Snapshot :: "'q query_service \<Rightarrow> GRPCClient \<times> 'q \<Rightarrow> (GRPCClient \<times> 'q) \<times> qs_snapshot res" where
  "qs_Snapshot svc cq =
     (case BeginView svc cq of
        (cq', Inl err) \<Rightarrow> (cq', Inl err)
      | (cq', Inr viewID) \<Rightarrow> (cq', Inr \<lparr>qsn_viewID = viewID, qsn_cache = Map.empty\<rparr>))"

definition ErrHistoryUnavailable :: goerror where
  "ErrHistoryUnavailable = Msg ''state: history unavailable at requested height'' []"

definition qs_SnapshotAt :: "u64 \<Rightarrow> qs_snapshot res" where
  "qs_SnapshotAt block = Inl ErrHistoryUnavailable"

definition qs_record :: "string \<Rightarrow> string \<Rightarrow> bytes \<Rightarrow> u64 \<Rightarrow> WriteRecord" where
  "qs_record ns key val version = \<lparr>wr_Namespace = ns, wr_Key = key, wr_BlockNum = 0, wr_TxNum = 0, wr_Version = version,
     wr_Value = val, wr_IsDelete = False, wr_TxID = ''''\<rparr>"

definition qs_get :: "'q query_service \<Rightarrow> string \<Rightarrow> string \<Rightarrow> string \<Rightarrow> GRPCClient \<times> 'q
    \<Rightarrow> (GRPCClient \<times> 'q) \<times> WriteRecord option res" where
  "qs_get svc viewID ns key cq =
     (case GetRows svc viewID ns [key] cq of
        (cq', Inl err) \<Rightarrow> (cq', Inl err)
      | (cq', Inr rows) \<Rightarrow>
          (cq', Inr (map_option (\<lambda>r. qs_record ns key (row_Value r) (row_Version r)) (List.find (\<lambda>r. row_Key r = key) rows))))"

definition qs_Get :: "'q query_service \<Rightarrow> string \<Rightarrow> string \<Rightarrow> GRPCClient \<times> 'q \<Rightarrow> (GRPCClient \<times> 'q) \<times> WriteRecord option res" where
  "qs_Get svc ns key = qs_get svc '''' ns key"

definition qs_Handle :: "qs_Store \<Rightarrow> Block \<Rightarrow> qs_Store \<times> goerror option" where
  "qs_Handle s b = (if b_Number b > qs_height s then s\<lparr>qs_height := b_Number b\<rparr> else s, None)"

definition qs_SetBlockNumber :: "u64 \<Rightarrow> qs_Store \<Rightarrow> qs_Store" where
  "qs_SetBlockNumber n s = s\<lparr>qs_height := n\<rparr>"

definition qs_BlockNumber :: "qs_Store \<Rightarrow> u64 res" where
  "qs_BlockNumber s = Inr (qs_height s)"

text \<open>\<open>Get\<close> of a snapshot has two critical sections, with the call to the service between them.\<close>

definition cacheKey :: "string \<Rightarrow> string \<Rightarrow> string" where
  "cacheKey ns key = ns @ [CHR 0x00] @ key"

definition cacheLookup :: "string \<Rightarrow> string \<Rightarrow> qs_snapshot \<Rightarrow> WriteRecord option option" where
  "cacheLookup ns key s = qsn_cache s (cacheKey ns key)"

definition cacheStore :: "string \<Rightarrow> string \<Rightarrow> WriteRecord option \<Rightarrow> qs_snapshot \<Rightarrow> qs_snapshot" where
  "cacheStore ns key rec s = s\<lparr>qsn_cache := (qsn_cache s)(cacheKey ns key \<mapsto> rec)\<rparr>"

definition qsn_Close :: "'q query_service \<Rightarrow> qs_snapshot \<Rightarrow> GRPCClient \<times> 'q \<Rightarrow> (GRPCClient \<times> 'q) \<times> goerror option" where
  "qsn_Close svc s = EndView svc (qsn_viewID s)"
subsection \<open>Connections\<close>

definition client_inv :: "GRPCClient \<Rightarrow> bool" where
  "client_inv c \<longleftrightarrow> 0 < gc_clients c \<and> gc_clients c < 2 ^ 63 \<and> (\<forall>v i. gc_views c v = Some i \<longrightarrow> i < gc_clients c)"

lemma pick_client_range:
  assumes "client_inv c" and "pick_client c = (c', i)"
  shows "i < gc_clients c \<and> client_inv c' \<and> gc_clients c' = gc_clients c \<and> gc_views c' = gc_views c"
proof -
  have n: "unat (of_nat (gc_clients c) :: u64) = gc_clients c"
    using assms(1) by (simp add: client_inv_def unsigned_of_nat take_bit_nat_eq_self)
  have "i < gc_clients c"
    using assms unfolding pick_client_def Let_def by (auto simp: unat_mod_distrib n client_inv_def)
  with assms show ?thesis by (auto simp: pick_client_def client_inv_def Let_def)
qed

lemma clientFor_range:
  assumes "client_inv c" and "clientFor v c = (c', i)"
  shows "i < gc_clients c \<and> client_inv c' \<and> gc_clients c' = gc_clients c \<and> gc_views c' = gc_views c"
  using assms pick_client_range [OF assms(1)] by (auto simp: clientFor_def client_inv_def split: option.splits)

subsection \<open>Concurrent reads of a snapshot\<close>

text \<open>
  What the service promises about an open view: as long as the view \<open>vid\<close> is open on connection \<open>i\<close> with the
  contents \<open>V\<close> (the predicate \<open>opened\<close> of its state), no other call ends it or is given its id, and reading it
  on that connection fails or gives the rows of \<open>V\<close>.
\<close>

definition agrees :: "(string \<Rightarrow> string \<Rightarrow> (bytes \<times> u64) option) \<Rightarrow> pb_Query \<Rightarrow> (string \<times> Row list) list \<Rightarrow> bool" where
  "agrees V qu nss \<longleftrightarrow> (\<forall>k \<in> set (q_Keys qu).
     List.find (\<lambda>r. row_Key r = k) (concat (map snd (filter (\<lambda>rns. fst rns = q_NsId qu) nss)))
       = map_option (\<lambda>(v, n). \<lparr>row_Key = k, row_Value = v, row_Version = n\<rparr>) (V (q_NsId qu) k))"

definition serves :: "'q query_service \<Rightarrow> ('q \<Rightarrow> bool) \<Rightarrow> string \<Rightarrow> nat \<Rightarrow> (string \<Rightarrow> string \<Rightarrow> (bytes \<times> u64) option) \<Rightarrow> bool" where
  "serves svc opened vid i V \<longleftrightarrow> vid \<noteq> ''''
     \<and> (\<forall>q j. opened q \<longrightarrow> opened (fst (svc_BeginView svc j q)) \<and> snd (svc_BeginView svc j q) \<noteq> Inr vid)
     \<and> (\<forall>q j qu. opened q \<longrightarrow> opened (fst (svc_GetRows svc j qu q))
          \<and> (j = i \<and> q_View qu = Some vid \<longrightarrow> (\<forall>nss. snd (svc_GetRows svc j qu q) = Inr nss \<longrightarrow> agrees V qu nss)))
     \<and> (\<forall>q j v. opened q \<longrightarrow> v \<noteq> vid \<longrightarrow> opened (fst (svc_EndView svc j v q)))"

text \<open>
  A snapshot in use: the client and the service, the snapshot, the reads between their two critical sections with
  what they fetched, and the answers given so far. The other users of the client go on meanwhile.
\<close>

record 'q view_world =
  vw_conn :: "GRPCClient \<times> 'q"
  vw_snap :: qs_snapshot
  vw_fetched :: "(string \<times> string \<times> WriteRecord option) list"
  vw_answers :: "(string \<times> string \<times> WriteRecord option) list"

inductive snap_step :: "'q query_service \<Rightarrow> string set \<Rightarrow> 'q view_world \<Rightarrow> 'q view_world \<Rightarrow> bool" for svc names where
  hit: "ns \<in> names \<Longrightarrow> cacheLookup ns key (vw_snap w) = Some rec
    \<Longrightarrow> snap_step svc names w (w\<lparr>vw_answers := vw_answers w @ [(ns, key, rec)]\<rparr>)"
| fetch: "ns \<in> names \<Longrightarrow> cacheLookup ns key (vw_snap w) = None
    \<Longrightarrow> qs_get svc (qsn_viewID (vw_snap w)) ns key (vw_conn w) = (cq, Inr rec)
    \<Longrightarrow> snap_step svc names w (w\<lparr>vw_conn := cq, vw_fetched := vw_fetched w @ [(ns, key, rec)]\<rparr>)"
| fetch_failed: "ns \<in> names \<Longrightarrow> cacheLookup ns key (vw_snap w) = None
    \<Longrightarrow> qs_get svc (qsn_viewID (vw_snap w)) ns key (vw_conn w) = (cq, Inl err)
    \<Longrightarrow> snap_step svc names w (w\<lparr>vw_conn := cq\<rparr>)"
| keep: "vw_fetched w = before @ (ns, key, rec) # after
    \<Longrightarrow> snap_step svc names w (w\<lparr>vw_snap := cacheStore ns key rec (vw_snap w), vw_fetched := before @ after,
          vw_answers := vw_answers w @ [(ns, key, rec)]\<rparr>)"
| other_begin: "BeginView svc (vw_conn w) = (cq, r) \<Longrightarrow> snap_step svc names w (w\<lparr>vw_conn := cq\<rparr>)"
| other_get: "GetRows svc v ns keys (vw_conn w) = (cq, rs) \<Longrightarrow> snap_step svc names w (w\<lparr>vw_conn := cq\<rparr>)"
| other_end: "v \<noteq> qsn_viewID (vw_snap w) \<Longrightarrow> EndView svc v (vw_conn w) = (cq, e)
    \<Longrightarrow> snap_step svc names w (w\<lparr>vw_conn := cq\<rparr>)"

definition view_record :: "(string \<Rightarrow> string \<Rightarrow> (bytes \<times> u64) option) \<Rightarrow> string \<Rightarrow> string \<Rightarrow> WriteRecord option" where
  "view_record V ns key = map_option (\<lambda>(v, n). qs_record ns key v n) (V ns key)"

definition view_start :: "GRPCClient \<times> 'q \<Rightarrow> qs_snapshot \<Rightarrow> 'q view_world" where
  "view_start cq s = \<lparr>vw_conn = cq, vw_snap = s, vw_fetched = [], vw_answers = []\<rparr>"

definition view_inv :: "('q \<Rightarrow> bool) \<Rightarrow> string \<Rightarrow> nat \<Rightarrow> (string \<Rightarrow> string \<Rightarrow> (bytes \<times> u64) option) \<Rightarrow> string set \<Rightarrow> 'q view_world \<Rightarrow> bool" where
  "view_inv opened vid i V names w \<longleftrightarrow> opened (snd (vw_conn w)) \<and> gc_views (fst (vw_conn w)) vid = Some i
     \<and> qsn_viewID (vw_snap w) = vid
     \<and> (\<forall>ns \<in> names. \<forall>key rec. cacheLookup ns key (vw_snap w) = Some rec \<longrightarrow> rec = view_record V ns key)
     \<and> (\<forall>(ns, key, rec) \<in> set (vw_fetched w) \<union> set (vw_answers w). ns \<in> names \<and> rec = view_record V ns key)"

lemma cacheKey_inj:
  assumes "CHR 0x00 \<notin> set ns" and "CHR 0x00 \<notin> set ns'" and "cacheKey ns key = cacheKey ns' key'"
  shows "ns = ns' \<and> key = key'"
proof -
  have "takeWhile (\<lambda>c. c \<noteq> CHR 0x00) (cacheKey n k) = n" if "CHR 0x00 \<notin> set n" for n k
  proof -
    have "\<forall>c \<in> set n. c \<noteq> CHR 0x00" using that by metis
    then show ?thesis by (simp add: cacheKey_def takeWhile_append2)
  qed
  from this [OF assms(1), of key] this [OF assms(2), of key'] assms(3) have "ns = ns'" by simp
  with assms(3) show ?thesis by (simp add: cacheKey_def)
qed

lemma cacheLookup_store:
  assumes "CHR 0x00 \<notin> set ns" and "CHR 0x00 \<notin> set ns'"
  shows "cacheLookup ns key (cacheStore ns' key' rec s) = (if ns = ns' \<and> key = key' then Some rec else cacheLookup ns key s)"
  using cacheKey_inj [OF assms, of key key'] by (auto simp: cacheLookup_def cacheStore_def)

text \<open>The calls keep an open view open and its connection known.\<close>

lemma clientFor_views: "clientFor v c = (c', i) \<Longrightarrow> gc_views c' = gc_views c \<and> (\<forall>j. gc_views c v = Some j \<longrightarrow> i = j)"
  by (auto simp: clientFor_def pick_client_def Let_def split: option.splits)

lemma serves_BeginView:
  assumes "serves svc opened vid i V" and "opened q" and "gc_views c vid = Some i" and "BeginView svc (c, q) = ((c', q'), r)"
  shows "opened q' \<and> gc_views c' vid = Some i"
proof -
  obtain k where k: "pick_client c = (c\<lparr>gc_next := gc_next c + 1\<rparr>, k)" by (simp add: pick_client_def Let_def)
  obtain q1 r1 where b: "svc_BeginView svc k q = (q1, r1)" by (rule prod.exhaust)
  from assms(1,2) b have "opened q1" "r1 \<noteq> Inr vid" unfolding serves_def by (metis fst_conv snd_conv)+
  with assms(3,4) k b show ?thesis by (auto simp: BeginView_def split: sum.splits)
qed

lemma serves_GetRows:
  assumes "serves svc opened vid i V" and "opened q" and "gc_views c vid = Some i" and "GetRows svc v ns ks (c, q) = ((c', q'), r)"
  shows "opened q' \<and> gc_views c' vid = Some i
    \<and> (v = vid \<longrightarrow> (\<forall>rows. r = Inr rows \<longrightarrow> (\<forall>k \<in> set ks. List.find (\<lambda>r. row_Key r = k) rows
         = map_option (\<lambda>(x, n). \<lparr>row_Key = k, row_Value = x, row_Version = n\<rparr>) (V ns k))))"
proof -
  obtain c1 j where cl: "clientFor v c = (c1, j)" by (rule prod.exhaust)
  let ?qu = "\<lparr>q_View = if v \<noteq> '''' then Some v else None, q_NsId = ns, q_Keys = ks\<rparr>"
  obtain q1 r1 where g: "svc_GetRows svc j ?qu q = (q1, r1)" by (rule prod.exhaust)
  have "opened q1" using assms(1,2) g unfolding serves_def by (metis fst_conv)
  moreover have "agrees V ?qu nss" if "v = vid" "r1 = Inr nss" for nss
  proof -
    have "j = i" using clientFor_views [OF cl] assms(3) that by simp
    moreover have "vid \<noteq> ''''" using assms(1) by (simp add: serves_def)
    moreover have "agrees V qu nss" if "q_View qu = Some vid" "snd (svc_GetRows svc i qu q) = Inr nss" for qu nss
      using assms(1,2) that by (simp add: serves_def)
    ultimately show ?thesis using g that by simp
  qed
  ultimately show ?thesis using assms(3,4) cl g clientFor_views [OF cl]
    by (auto simp: GetRows_def agrees_def split: sum.splits)
qed

lemma serves_EndView:
  assumes "serves svc opened vid i V" and "opened q" and "gc_views c vid = Some i" and "v \<noteq> vid"
    and "EndView svc v (c, q) = ((c', q'), r)"
  shows "opened q' \<and> gc_views c' vid = Some i"
proof -
  obtain c1 j where cl: "clientFor v c = (c1, j)" by (rule prod.exhaust)
  obtain q1 r1 where e: "svc_EndView svc j v q = (q1, r1)" by (rule prod.exhaust)
  have "opened q1" using assms(1,2,4) e unfolding serves_def by (metis fst_conv)
  with assms(3-5) cl e clientFor_views [OF cl] show ?thesis by (auto simp: EndView_def)
qed

lemma serves_qs_get:
  assumes "serves svc opened vid i V" and "opened q" and "gc_views c vid = Some i"
    and "qs_get svc vid ns key (c, q) = ((c', q'), r)"
  shows "opened q' \<and> gc_views c' vid = Some i \<and> (\<forall>rec. r = Inr rec \<longrightarrow> rec = view_record V ns key)"
proof -
  obtain c1 q1 r1 where g: "GetRows svc vid ns [key] (c, q) = ((c1, q1), r1)" by (metis prod.exhaust)
  from serves_GetRows [OF assms(1-3) g] assms(4) g show ?thesis
    by (cases r1) (auto simp: qs_get_def view_record_def option.map_comp comp_def case_prod_unfold)
qed


lemma view_inv_step:
  assumes "serves svc opened vid i V" and "\<forall>ns \<in> names. CHR 0x00 \<notin> set ns"
    and "snap_step svc names w w'" and "view_inv opened vid i V names w"
  shows "view_inv opened vid i V names w'"
proof -
  obtain c q where cq: "vw_conn w = (c, q)" by (rule prod.exhaust)
  from assms(4) cq have inv: "opened q" "gc_views c vid = Some i" "qsn_viewID (vw_snap w) = vid" by (simp_all add: view_inv_def)
  have conn: "view_inv opened vid i V names (w\<lparr>vw_conn := (c', q')\<rparr>)" if "opened q' \<and> gc_views c' vid = Some i" for c' q'
    using assms(4) that by (simp add: view_inv_def)
  from assms(3) show ?thesis
  proof (cases rule: snap_step.cases)
    case (hit ns key rec)
    with assms(4) show ?thesis by (auto simp: view_inv_def)
  next
    case (fetch ns key cq' rec)
    obtain c' q' where p: "cq' = (c', q')" by (rule prod.exhaust)
    from serves_qs_get [OF assms(1) inv(1,2)] fetch(4) inv(3) cq p
    have "opened q' \<and> gc_views c' vid = Some i \<and> rec = view_record V ns key" by fastforce
    with assms(4) fetch(1,2) p show ?thesis by (auto simp: view_inv_def)
  next
    case (fetch_failed ns key cq' err)
    obtain c' q' where p: "cq' = (c', q')" by (rule prod.exhaust)
    from serves_qs_get [OF assms(1) inv(1,2)] fetch_failed(4) inv(3) cq p conn [of q' c'] fetch_failed(1) show ?thesis by fastforce
  next
    case (keep before ns key rec after)
    with assms(4) have r: "ns \<in> names" "rec = view_record V ns key" by (auto simp: view_inv_def)
    have l: "cacheLookup n k (cacheStore ns key x s) = (if n = ns \<and> k = key then Some x else cacheLookup n k s)"
      if "n \<in> names" for n k x s using cacheLookup_store that r(1) assms(2) by blast
    have v: "qsn_viewID (cacheStore ns key x s) = qsn_viewID s" for x s by (simp add: cacheStore_def)
    from assms(4) keep r show ?thesis by (auto simp: view_inv_def l v split: if_splits)
  next
    case (other_begin cq' r)
    obtain c' q' where p: "cq' = (c', q')" by (rule prod.exhaust)
    from serves_BeginView [OF assms(1) inv(1,2)] other_begin cq p conn show ?thesis by auto
  next
    case (other_get v ns ks cq' rs)
    obtain c' q' where p: "cq' = (c', q')" by (rule prod.exhaust)
    from serves_GetRows [OF assms(1) inv(1,2)] other_get cq p conn show ?thesis by auto
  next
    case (other_end v cq' e)
    obtain c' q' where p: "cq' = (c', q')" by (rule prod.exhaust)
    from serves_EndView [OF assms(1) inv(1,2)] other_end inv(3) cq p conn show ?thesis by auto
  qed
qed

text \<open>
  C17: A snapshot of the query-service store is one state. Let the service open a view on a connection of the
  client and keep its promises about it. However many readers use the snapshot at once, whatever else goes over
  the client and whichever reads fail, every answer a reader gets is the record the view has for the key, and
  none if it has none: the view's calls stay on the connection that opened it, and the cache never answers for
  another key. Namespaces must not contain a NUL character, which is what the cache key separates them with.
\<close>

theorem snapshot_repeatable:
  assumes "client_inv c" and "qs_Snapshot svc (c, q) = ((c', q'), Inr s)" and "opened q'"
    and "serves svc opened (qsn_viewID s) (snd (pick_client c)) V" and "\<forall>ns \<in> names. CHR 0x00 \<notin> set ns"
    and "(snap_step svc names)\<^sup>*\<^sup>* (view_start (c', q') s) w"
  shows "snd (pick_client c) < gc_clients c
    \<and> (\<forall>(ns, key, rec) \<in> set (vw_answers w). rec = map_option (\<lambda>(v, n). qs_record ns key v n) (V ns key))"
proof
  show "snd (pick_client c) < gc_clients c" using pick_client_range [OF assms(1)] by (metis prod.collapse)
  have "view_inv opened (qsn_viewID s) (snd (pick_client c)) V names (view_start (c', q') s)"
    using assms(2,3) by (auto simp: view_inv_def view_start_def qs_Snapshot_def BeginView_def cacheLookup_def
        split: prod.splits sum.splits)
  with assms(6) have "view_inv opened (qsn_viewID s) (snd (pick_client c)) V names w"
    by (induction rule: rtranclp_induct) (auto dest: view_inv_step [OF assms(4,5)])
  then show "\<forall>(ns, key, rec) \<in> set (vw_answers w). rec = map_option (\<lambda>(v, n). qs_record ns key v n) (V ns key)"
    unfolding view_inv_def view_record_def by blast
qed


subsection \<open>The store follows the chain\<close>

text \<open>
  As a block handler the store only counts, but for a synchronizer it is a replica like any other: what it holds
  of the chain is the number of the last block.
\<close>

definition qs_processor :: "(pb_Block \<Rightarrow> Block result) \<Rightarrow> qs_Store Processor" where
  "qs_processor p = NewProcessor p [qs_Handle]"

definition qs_holds :: "pb_Block list \<Rightarrow> nat \<Rightarrow> qs_Store \<Rightarrow> bool" where
  "qs_holds chain n s \<longleftrightarrow> chain_ok chain \<and> n \<le> length chain \<and> qs_height s = of_nat (n - 1)"

definition parses :: "(pb_Block \<Rightarrow> Block result) \<Rightarrow> pb_Block list \<Rightarrow> bool" where
  "parses p chain \<longleftrightarrow> list_all (\<lambda>raw. case p raw of Ok _ \<Rightarrow> True | _ \<Rightarrow> False) chain"

lemma qs_process:
  assumes "ProcessBlock (qs_processor (parseBlock pb pt st now)) s raw = (s', r)"
  shows "(s' = s \<and> r \<noteq> Ok () \<and> (\<forall>b. parseBlock pb pt st 0 raw \<noteq> Ok b))
    \<or> r = Ok () \<and> qs_height s' = (if raw_number raw > qs_height s then raw_number raw else qs_height s)"
proof (cases "parseBlock pb pt st now raw")
  case (Ok b)
  with parseBlock_closed [OF Ok] assms show ?thesis
    by (auto simp: ProcessBlock_def qs_processor_def NewProcessor_def qs_Handle_def)
qed (use assms parseBlock_timestamp [of pb pt st now raw 0] in
    \<open>auto simp: ProcessBlock_def qs_processor_def NewProcessor_def\<close>)

lemma of_nat_u64_less: "a < 2 ^ 63 \<Longrightarrow> b < 2 ^ 63 \<Longrightarrow> (of_nat a :: u64) < of_nat b \<longleftrightarrow> a < b"
  by (simp add: word_less_nat_alt unsigned_of_nat take_bit_nat_eq_self)

lemma qs_live_replica:
  "live_replica (\<lambda>now. ProcessBlock (qs_processor (parseBlock pb pt st now))) qs_BlockNumber qs_holds
     (parses (parseBlock pb pt st 0))"
proof
  fix chain n s
  assume h: "qs_holds chain n s"
  then have c: "chain_ok chain" "n \<le> length chain" "qs_height s = of_nat (n - 1)" by (auto simp: qs_holds_def)
  have num: "raw_number (chain ! i) = of_nat i" "i < 2 ^ 63" if "i < length chain" for i
    using c(1) that by (auto simp: chain_ok_def)
  have n63: "n - 1 < 2 ^ 63" using c(1,2) by (cases n) (auto simp: chain_ok_def)
  show "n \<le> length chain \<and> length chain \<le> 2 ^ 63" using c by (simp add: chain_ok_def)
  show "qs_BlockNumber s = Inr (of_nat (n - 1))" using c by (simp add: qs_BlockNumber_def)
  show "qs_holds chain n s'" if "i < n" "ProcessBlock (qs_processor (parseBlock pb pt st now)) s (chain ! i) = (s', r)" for i now s' r
  proof -
    have "\<not> qs_height s < raw_number (chain ! i)"
      using num [of i] that(1) c(2,3) n63 of_nat_u64_less [of "n - 1" i] by auto
    with qs_process [OF that(2)] h show ?thesis by (auto simp: qs_holds_def)
  qed
  show "qs_holds chain (Suc n) s' \<or> qs_holds chain n s' \<and> r \<noteq> Ok ()"
    if "n < length chain" "ProcessBlock (qs_processor (parseBlock pb pt st now)) s (chain ! n) = (s', r)" for now s' r
  proof -
    have "qs_height s < raw_number (chain ! n) \<or> n = 0"
      using num [of n] that(1) c(3) n63 of_nat_u64_less [of "n - 1" n] by auto
    with qs_process [OF that(2)] h num(1) [OF that(1)] c that(1) show ?thesis by (auto simp: qs_holds_def)
  qed
  show "snd (ProcessBlock (qs_processor (parseBlock pb pt st now)) s (chain ! i)) = Ok ()"
    if "parses (parseBlock pb pt st 0) chain" "i \<le> n" "i < length chain" for i now
  proof -
    obtain s' r where p: "ProcessBlock (qs_processor (parseBlock pb pt st now)) s (chain ! i) = (s', r)" by (rule prod.exhaust)
    have "\<exists>b. parseBlock pb pt st 0 (chain ! i) = Ok b"
      using that(1,3) by (cases "parseBlock pb pt st 0 (chain ! i)") (auto simp: parses_def list_all_length)
    with qs_process [OF p] p show ?thesis by auto
  qed
qed

interpretation query_live: live_replica "\<lambda>now. ProcessBlock (qs_processor (fabricx_Parse pb cc now))" qs_BlockNumber qs_holds
    "parses (fabricx_Parse pb cc 0)"
  unfolding fabricx_Parse_def by (rule qs_live_replica)

text \<open>
  A synchronizer can run on the query-service store. Started at any height of the chain, its store always
  reports the number of a block of the chain, and from every state it reaches before its context is cancelled it
  can go on to report the last block of the chain, provided the blocks can be parsed.
\<close>

theorem query_store_catches_up:
  assumes "chain_ok chain" and "n < length chain" and "parses (fabricx_Parse pb cc 0) chain"
    and "sync_steps (\<lambda>now. ProcessBlock (qs_processor (fabricx_Parse pb cc now))) qs_BlockNumber chain
      (NewSynchronizer (qs_SetBlockNumber (of_nat n) qs_NewStore)) w" and "\<not> ctxDone w"
  shows "(\<exists>m < length chain. qs_BlockNumber (store w) = Inr (of_nat m))
    \<and> (\<exists>w'. sync_steps (\<lambda>now. ProcessBlock (qs_processor (fabricx_Parse pb cc now))) qs_BlockNumber chain w w'
        \<and> qs_BlockNumber (store w') = Inr (of_nat (length chain - 1)))"
proof -
  have h: "qs_holds chain (Suc n) (qs_SetBlockNumber (of_nat n) qs_NewStore)"
    using assms(1,2) by (simp add: qs_holds_def qs_SetBlockNumber_def)
  from query_live.sync_holds [OF assms(4) h] obtain m where m: "qs_holds chain m (store w)" by blast
  with assms(2) have "m - 1 < length chain" by (auto simp: qs_holds_def)
  with query_live.holds_height [OF m] query_live.catch_up [OF assms(4) h assms(3,5)] query_live.holds_height
  show ?thesis by blast
qed


subsection \<open>Witnesses\<close>

text \<open>A service whose state does not change, with one key, that gives out the ids \<open>a\<close> and then \<open>b\<close>.\<close>

definition sample_service :: "bool query_service" where
  "sample_service = \<lparr>svc_BeginView = (\<lambda>_ used. (True, Inr (if used then ''b'' else ''a''))),
     svc_GetRows = (\<lambda>_ qu used. (used, Inr [(q_NsId qu, if q_NsId qu = ''ns'' \<and> ''k'' \<in> set (q_Keys qu)
        then [\<lparr>row_Key = ''k'', row_Value = ''v'', row_Version = 3\<rparr>] else [])])),
     svc_EndView = (\<lambda>_ _ used. (used, None))\<rparr>"

definition sample_view :: "string \<Rightarrow> string \<Rightarrow> (bytes \<times> u64) option" where
  "sample_view ns k = (if ns = ''ns'' \<and> k = ''k'' then Some (''v'', 3) else None)"

lemma sample_serves: "serves sample_service (\<lambda>used. used) ''a'' i sample_view"
  by (auto simp: serves_def sample_service_def agrees_def sample_view_def)

definition sample_client :: GRPCClient where
  "sample_client = \<lparr>gc_clients = 8, gc_next = 6, gc_views = Map.empty\<rparr>"

definition sample_snap :: qs_snapshot where
  "sample_snap = \<lparr>qsn_viewID = ''a'', qsn_cache = Map.empty\<rparr>"

definition sample_client' :: GRPCClient where
  "sample_client' = \<lparr>gc_clients = 8, gc_next = 7, gc_views = [''a'' \<mapsto> 7]\<rparr>"

lemma sample_snapshot: "qs_Snapshot sample_service (sample_client, False) = ((sample_client', True), Inr sample_snap)"
  by (simp add: qs_Snapshot_def BeginView_def pick_client_def sample_service_def sample_client_def sample_client'_def sample_snap_def)

lemma sample_view_steps:
  "\<exists>w. (snap_step sample_service {''ns''})\<^sup>*\<^sup>* (view_start (sample_client', True) sample_snap) w
     \<and> map (\<lambda>(ns, k, r). (ns, k)) (vw_answers w) = [(''ns'', ''k'')]"
proof -
  let ?w = "view_start (sample_client', True) sample_snap"
  let ?r = "Some (qs_record ''ns'' ''k'' ''v'' 3)"
  let ?w1 = "?w\<lparr>vw_conn := (sample_client', True), vw_fetched := vw_fetched ?w @ [(''ns'', ''k'', ?r)]\<rparr>"
  have "qs_get sample_service (qsn_viewID (vw_snap ?w)) ''ns'' ''k'' (vw_conn ?w) = ((sample_client', True), Inr ?r)"
    by (simp add: qs_get_def GetRows_def clientFor_def view_start_def sample_snap_def sample_client'_def sample_service_def)
  then have "snap_step sample_service {''ns''} ?w ?w1"
    by (intro snap_step.fetch) (simp_all add: cacheLookup_def view_start_def sample_snap_def)
  moreover have "snap_step sample_service {''ns''} ?w1 (?w1\<lparr>vw_snap := cacheStore ''ns'' ''k'' ?r (vw_snap ?w1),
      vw_fetched := [] @ [], vw_answers := vw_answers ?w1 @ [(''ns'', ''k'', ?r)]\<rparr>)"
    by (rule snap_step.keep) (simp add: view_start_def)
  ultimately show ?thesis
    by (intro exI [of _ "?w1\<lparr>vw_snap := cacheStore ''ns'' ''k'' ?r (vw_snap ?w1),
      vw_fetched := [] @ [], vw_answers := vw_answers ?w1 @ [(''ns'', ''k'', ?r)]\<rparr>"])
      (simp add: view_start_def converse_rtranclp_into_rtranclp)
qed

theorem snapshot_repeatable_witness:
  "\<exists>w. (snap_step sample_service {''ns''})\<^sup>*\<^sup>* (view_start (sample_client', True) sample_snap) w
     \<and> vw_answers w = [(''ns'', ''k'', Some (qs_record ''ns'' ''k'' ''v'' 3))]"
proof -
  obtain w r where w: "(snap_step sample_service {''ns''})\<^sup>*\<^sup>* (view_start (sample_client', True) sample_snap) w"
    "vw_answers w = [(''ns'', ''k'', r)]" using sample_view_steps by auto
  have "client_inv sample_client" by (simp add: client_inv_def sample_client_def)
  from snapshot_repeatable [OF this sample_snapshot _ _ _ w(1), of "\<lambda>used. used" sample_view] w(2) sample_serves
  have "r = Some (qs_record ''ns'' ''k'' ''v'' 3)" by (simp add: sample_snap_def sample_view_def)
  with w show ?thesis by blast
qed

theorem query_store_catches_up_witness:
  "\<exists>w'. sync_steps (\<lambda>now. ProcessBlock (qs_processor (fabricx_Parse sample_pb sample_committer_codes now))) qs_BlockNumber
      [sample_empty 0, sample_empty 1] (NewSynchronizer (qs_SetBlockNumber 0 qs_NewStore)) w'
    \<and> qs_BlockNumber (store w') = Inr 1"
proof -
  have c: "chain_ok [sample_empty 0, sample_empty 1]"
    by (auto simp: chain_ok_def less_Suc_eq sample_empty_def raw_number_def raw_data_def)
  have p: "parses (fabricx_Parse sample_pb sample_committer_codes 0) [sample_empty 0, sample_empty 1]"
    by (simp add: parses_def fabricx_Parse_def parseBlock_def sample_empty_def)
  show ?thesis
    using query_store_catches_up [OF c _ p, of 0, OF _ rtranclp.rtrancl_refl] by (auto simp: NewSynchronizer_def)
qed

end
