(* ===== verification/Dial.thy ===== *)
theory Dial
  imports Submission Fabric_Peer Tls_Config Query_Service Go_Net
begin

section \<open>Connections (network/peer.go, network/orderer.go and the constructors of the clients)\<close>

text \<open>
  How the clients get their connections, and which of them stay open. \<open>grpc.NewClient\<close> is an argument: the error it
  returns for a target and options, if any. The connections that were opened are a list, a connection is its
  position in the list, and closing one puts it into a set.
\<close>

subsection \<open>Connections\<close>

datatype 'cert credentials = InsecureCreds | TLSCreds "'cert tls_Config option"

record call_options =
  MinConnectTimeout :: int64
  MaxCallRecvMsgSize :: int64
  MaxCallSendMsgSize :: int64

record 'cert ClientConn =
  cc_target :: string
  cc_creds :: "'cert credentials"
  cc_options :: "call_options option"

record 'cert dialer =
  d_files :: "'cert tls_files"
  d_NewClient :: "'cert ClientConn \<Rightarrow> goerror option"

record 'cert conns =
  opened :: "'cert ClientConn list"
  closed :: "nat set"

definition open_conns :: "'cert conns \<Rightarrow> nat set" where
  "open_conns s = {i. i < length (opened s)} - closed s"

definition NewClient :: "'cert dialer \<Rightarrow> 'cert ClientConn \<Rightarrow> 'cert conns \<Rightarrow> 'cert conns \<times> nat res" where
  "NewClient d c s =
     (case d_NewClient d c of
        Some err \<Rightarrow> (s, Inl err)
      | None \<Rightarrow> (s\<lparr>opened := opened s @ [c]\<rparr>, Inr (length (opened s))))"

definition conn_Close :: "goerror option \<Rightarrow> nat \<Rightarrow> 'cert conns \<Rightarrow> 'cert conns \<times> goerror option" where
  "conn_Close err i s = (s\<lparr>closed := insert i (closed s)\<rparr>, err)"

subsection \<open>Peers\<close>

record PeerConf =
  pcf_Address :: string
  pcf_TLS :: TLSConfig

definition peerCreds :: "'cert dialer \<Rightarrow> PeerConf \<Rightarrow> string \<Rightarrow> 'cert credentials res" where
  "peerCreds d c host =
     (if tc_Mode (pcf_TLS c) \<noteq> '''' \<and> tc_Mode (pcf_TLS c) \<noteq> TLSModeNone then
        (case LoadClientTLSConfig (d_files d) (pcf_TLS c) host of
           Inl err \<Rightarrow> Inl (Msg ''peer %s: failed to load TLS config: %w'' [FStr (pcf_Address c), FErr err])
         | Inr tlsCfg \<Rightarrow> Inr (TLSCreds tlsCfg))
      else Inr InsecureCreds)"

definition peerOptions :: call_options where
  "peerOptions = \<lparr>MinConnectTimeout = 10 * 1000000000, MaxCallRecvMsgSize = 100 * 1024 * 1024, MaxCallSendMsgSize = 100 * 1024 * 1024\<rparr>"

definition NewPeer :: "'cert dialer \<Rightarrow> PeerConf \<Rightarrow> 'cert conns \<Rightarrow> 'cert conns \<times> nat res" where
  "NewPeer d c s =
     (case tls_Validate (pcf_TLS c) of
        Some err \<Rightarrow> (s, Inl (Msg ''peer %s: invalid TLS config: %w'' [FStr (pcf_Address c), FErr err]))
      | None \<Rightarrow>
     (case SplitHostPort (pcf_Address c) of
        Inl err \<Rightarrow> (s, Inl (Msg ''peer %s: address must contain port: %w'' [FStr (pcf_Address c), FErr err]))
      | Inr (host, _) \<Rightarrow>
     (case peerCreds d c host of
        Inl err \<Rightarrow> (s, Inl err)
      | Inr creds \<Rightarrow>
     (case NewClient d \<lparr>cc_target = pcf_Address c, cc_creds = creds, cc_options = Some peerOptions\<rparr> s of
        (s', Inl err) \<Rightarrow> (s', Inl (Msg ''dial peer %s: %w'' [FStr (pcf_Address c), FErr err]))
      | (s', Inr conn) \<Rightarrow> (s', Inr conn)))))"

record fabric_Peer =
  fp_conn :: nat
  fp_channel :: string
  fp_signer :: Signer

definition fabric_NewPeer :: "'cert dialer \<Rightarrow> PeerConf \<Rightarrow> string \<Rightarrow> Signer option \<Rightarrow> 'cert conns \<Rightarrow> 'cert conns \<times> fabric_Peer res" where
  "fabric_NewPeer d c channel signer s =
     (case signer of
        None \<Rightarrow> (s, Inl (Msg ''signer is required'' []))
      | Some sg \<Rightarrow>
          (case NewPeer d c s of
             (s', Inl err) \<Rightarrow> (s', Inl err)
           | (s', Inr conn) \<Rightarrow> (s', Inr \<lparr>fp_conn = conn, fp_channel = channel, fp_signer = sg\<rparr>)))"

record fabricx_Peer =
  xp_conn :: nat
  xp_channel :: string

definition fabricx_NewPeer :: "'cert dialer \<Rightarrow> PeerConf \<Rightarrow> string \<Rightarrow> 'cert conns \<Rightarrow> 'cert conns \<times> fabricx_Peer res" where
  "fabricx_NewPeer d c channel s =
     (case NewPeer d c s of
        (s', Inl err) \<Rightarrow> (s', Inl err)
      | (s', Inr conn) \<Rightarrow> (s', Inr \<lparr>xp_conn = conn, xp_channel = channel\<rparr>))"

text \<open>The streams of blocks: a Fabric peer signs the seek request, a Fabric-X peer sends it unsigned.\<close>

definition fabric_SubscribeBlocks :: "protos \<Rightarrow> seek_protos \<Rightarrow> goerror option \<Rightarrow> bytes \<Rightarrow> int64 \<Rightarrow> goerror option
    \<Rightarrow> ('s \<Rightarrow> pb_Block \<Rightarrow> 's \<times> unit result) \<Rightarrow> deliver_recv list \<Rightarrow> fabric_Peer \<Rightarrow> u64 \<Rightarrow> 's \<Rightarrow> 's \<times> unit result option" where
  "fabric_SubscribeBlocks pb sk openErr nonce seconds sent process ms p start =
     SubscribeBlocks openErr (newDeliverSeekInfo pb sk (Some (fp_signer p)) nonce seconds (fp_channel p) start) sent process ms"

definition fabricx_SubscribeBlocks :: "protos \<Rightarrow> seek_protos \<Rightarrow> goerror option \<Rightarrow> bytes \<Rightarrow> int64 \<Rightarrow> goerror option
    \<Rightarrow> ('s \<Rightarrow> pb_Block \<Rightarrow> 's \<times> unit result) \<Rightarrow> deliver_recv list \<Rightarrow> fabricx_Peer \<Rightarrow> u64 \<Rightarrow> 's \<Rightarrow> 's \<times> unit result option" where
  "fabricx_SubscribeBlocks pb sk openErr nonce seconds sent process ms p start =
     SubscribeBlocks openErr (newDeliverSeekInfo pb sk None nonce seconds (xp_channel p) start) sent process ms"

text \<open>
  The two \<open>NewSynchronizer\<close>: the peer is dialled first, then \<open>network.NewSynchronizer\<close> refuses a missing database.
\<close>

definition network_NewSynchronizer :: "'db option \<Rightarrow> 'p option \<Rightarrow> ('db \<times> 'p) res" where
  "network_NewSynchronizer db p =
     (case db of
        None \<Rightarrow> Inl (Msg ''db required'' [])
      | Some d \<Rightarrow> (case p of None \<Rightarrow> Inl (Msg ''peer required'' []) | Some p' \<Rightarrow> Inr (d, p')))"

definition fabric_NewSynchronizer :: "'cert dialer \<Rightarrow> 'db option \<Rightarrow> string \<Rightarrow> PeerConf \<Rightarrow> Signer option \<Rightarrow> 'cert conns
    \<Rightarrow> 'cert conns \<times> ('db \<times> fabric_Peer) res" where
  "fabric_NewSynchronizer d db channel c signer s =
     (case fabric_NewPeer d c channel signer s of
        (s', Inl err) \<Rightarrow> (s', Inl err)
      | (s', Inr p) \<Rightarrow> (s', network_NewSynchronizer db (Some p)))"

definition fabricx_NewSynchronizer :: "'cert dialer \<Rightarrow> 'db option \<Rightarrow> string \<Rightarrow> PeerConf \<Rightarrow> 'cert conns
    \<Rightarrow> 'cert conns \<times> ('db \<times> fabricx_Peer) res" where
  "fabricx_NewSynchronizer d db channel c s =
     (case fabricx_NewPeer d c channel s of
        (s', Inl err) \<Rightarrow> (s', Inl err)
      | (s', Inr p) \<Rightarrow> (s', network_NewSynchronizer db (Some p)))"

subsection \<open>Endorsement clients\<close>

record EndorsementClient =
  ec_peers :: "fabric_Peer list"
  ec_signer :: "Signer option"
  ec_channel :: string

fun dialPeers :: "'cert dialer \<Rightarrow> string \<Rightarrow> Signer option \<Rightarrow> PeerConf list \<Rightarrow> 'cert conns \<Rightarrow> 'cert conns \<times> fabric_Peer list res" where
  "dialPeers d channel signer [] s = (s, Inr [])"
| "dialPeers d channel signer (c # cs) s =
     (case fabric_NewPeer d c channel signer s of
        (s', Inl err) \<Rightarrow> (s', Inl err)
      | (s', Inr p) \<Rightarrow>
          (case dialPeers d channel signer cs s' of
             (s'', Inl err) \<Rightarrow> (s'', Inl err)
           | (s'', Inr ps) \<Rightarrow> (s'', Inr (p # ps))))"

definition NewEndorsementClient :: "'cert dialer \<Rightarrow> PeerConf list \<Rightarrow> Signer option \<Rightarrow> string \<Rightarrow> 'cert conns
    \<Rightarrow> 'cert conns \<times> EndorsementClient res" where
  "NewEndorsementClient d config signer channel s =
     (if length config = 0 then (s, Inl (Msg ''no peers configured'' []))
      else
        (case dialPeers d channel signer config s of
           (s', Inl err) \<Rightarrow> (s', Inl err)
         | (s', Inr ps) \<Rightarrow> (s', Inr \<lparr>ec_peers = ps, ec_signer = signer, ec_channel = channel\<rparr>)))"

text \<open>\<open>Close\<close>: the joined errors are the list of them. The argument is what closing each connection returns.\<close>

fun closePeers :: "(nat \<Rightarrow> goerror option) \<Rightarrow> nat list \<Rightarrow> 'cert conns \<Rightarrow> 'cert conns \<times> goerror list" where
  "closePeers closeErr [] s = (s, [])"
| "closePeers closeErr (i # is) s =
     (case conn_Close (closeErr i) i s of (s', err) \<Rightarrow>
      case closePeers closeErr is s' of (s'', errs) \<Rightarrow>
        (s'', (case err of Some e \<Rightarrow> e # errs | None \<Rightarrow> errs)))"

definition endorsementClient_Close :: "(nat \<Rightarrow> goerror option) \<Rightarrow> EndorsementClient \<Rightarrow> 'cert conns \<Rightarrow> 'cert conns \<times> goerror list" where
  "endorsementClient_Close closeErr ec s = closePeers closeErr (map fp_conn (ec_peers ec)) s"

subsection \<open>Clients of the query service\<close>

text \<open>The connections are the ones in \<open>peers\<close>; if one cannot be opened, \<open>Close\<close> is called on those there are.\<close>

definition grpcClient_Close :: "(nat \<Rightarrow> goerror option) \<Rightarrow> nat list \<Rightarrow> 'cert conns \<Rightarrow> 'cert conns \<times> goerror list" where
  "grpcClient_Close closeErr peers s = closePeers closeErr peers s"

fun dialClients :: "'cert dialer \<Rightarrow> (nat \<Rightarrow> goerror option) \<Rightarrow> PeerConf \<Rightarrow> nat \<Rightarrow> nat list \<Rightarrow> 'cert conns \<Rightarrow> 'cert conns \<times> nat list res" where
  "dialClients d closeErr c 0 peers s = (s, Inr peers)"
| "dialClients d closeErr c (Suc n) peers s =
     (case NewPeer d c s of
        (s', Inl err) \<Rightarrow> (fst (grpcClient_Close closeErr peers s'), Inl err)
      | (s', Inr p) \<Rightarrow> dialClients d closeErr c n (peers @ [p]) s')"

definition NewGRPCClient :: "'cert dialer \<Rightarrow> (nat \<Rightarrow> goerror option) \<Rightarrow> PeerConf \<Rightarrow> int \<Rightarrow> 'cert conns
    \<Rightarrow> 'cert conns \<times> (nat list \<times> GRPCClient) res" where
  "NewGRPCClient d closeErr c conns s =
     (if conns < 1 then (s, Inl (Msg ''queryservice: need at least one connection'' []))
      else
        (case dialClients d closeErr c (nat conns) [] s of
           (s', Inl err) \<Rightarrow> (s', Inl err)
         | (s', Inr peers) \<Rightarrow> (s', Inr (peers, \<lparr>gc_clients = length peers, gc_next = 0, gc_views = Map.empty\<rparr>))))"

subsection \<open>Orderers and submitters\<close>

record OrdererConf =
  ocf_Address :: string
  ocf_TLS :: TLSConfig

definition ordererCreds :: "'cert dialer \<Rightarrow> OrdererConf \<Rightarrow> string \<Rightarrow> 'cert credentials res" where
  "ordererCreds d c host =
     (if tc_Mode (ocf_TLS c) \<noteq> '''' \<and> tc_Mode (ocf_TLS c) \<noteq> TLSModeNone then
        (case LoadClientTLSConfig (d_files d) (ocf_TLS c) host of
           Inl err \<Rightarrow> Inl (Msg ''orderer %s: failed to load TLS config: %w'' [FStr (ocf_Address c), FErr err])
         | Inr tlsCfg \<Rightarrow> Inr (TLSCreds tlsCfg))
      else Inr InsecureCreds)"

definition dialOrderer :: "'cert dialer \<Rightarrow> OrdererConf \<Rightarrow> 'cert conns \<Rightarrow> 'cert conns \<times> (nat \<times> Orderer) res" where
  "dialOrderer d c s =
     (case tls_Validate (ocf_TLS c) of
        Some err \<Rightarrow> (s, Inl (Msg ''orderer %s: invalid TLS config: %w'' [FStr (ocf_Address c), FErr err]))
      | None \<Rightarrow>
     (case SplitHostPort (ocf_Address c) of
        Inl err \<Rightarrow> (s, Inl (Msg ''orderer %s: address must contain port: %w'' [FStr (ocf_Address c), FErr err]))
      | Inr (host, _) \<Rightarrow>
     (case ordererCreds d c host of
        Inl err \<Rightarrow> (s, Inl err)
      | Inr creds \<Rightarrow>
     (case NewClient d \<lparr>cc_target = ocf_Address c, cc_creds = creds, cc_options = None\<rparr> s of
        (s', Inl err) \<Rightarrow> (s', Inl (Msg ''dial orderer %s: %w'' [FStr (ocf_Address c), FErr err]))
      | (s', Inr conn) \<Rightarrow> (s', Inr (conn, NewOrderer (ocf_Address c)))))))"

fun dialOrderers :: "'cert dialer \<Rightarrow> OrdererConf list \<Rightarrow> 'cert conns \<Rightarrow> 'cert conns \<times> (nat \<times> Orderer) list res" where
  "dialOrderers d [] s = (s, Inr [])"
| "dialOrderers d (c # cs) s =
     (case dialOrderer d c s of
        (s', Inl err) \<Rightarrow> (s', Inl err)
      | (s', Inr p) \<Rightarrow>
          (case dialOrderers d cs s' of
             (s'', Inl err) \<Rightarrow> (s'', Inl err)
           | (s'', Inr ps) \<Rightarrow> (s'', Inr (p # ps))))"

definition NewSubmitter :: "'cert dialer \<Rightarrow> OrdererConf list \<Rightarrow> (sdk_Endorsement \<Rightarrow> pb_Envelope result) \<Rightarrow> 'cert conns
    \<Rightarrow> 'cert conns \<times> (nat list \<times> Submitter) res" where
  "NewSubmitter d config packager s =
     (if length config = 0 then (s, Inl (Msg ''no orderers configured'' []))
      else
        (case dialOrderers d config s of
           (s', Inl err) \<Rightarrow> (s', Inl err)
         | (s', Inr ords) \<Rightarrow> (s', Inr (map fst ords, \<lparr>su_orderers = map snd ords, su_packager = packager\<rparr>))))"

subsection \<open>Which connections are open\<close>

text \<open>The contract of the two dialling loops: one connection for each success, none for a failure.\<close>

locale dialing =
  fixes dial :: "'c \<Rightarrow> 'cert conns \<Rightarrow> 'cert conns \<times> 'p res" and conn_of :: "'p \<Rightarrow> nat"
    and dial_all :: "'c list \<Rightarrow> 'cert conns \<Rightarrow> 'cert conns \<times> 'p list res"
  assumes dial_ok: "dial c s = (s', Inr p) \<Longrightarrow> (\<exists>cn. s' = s\<lparr>opened := opened s @ [cn]\<rparr>) \<and> conn_of p = length (opened s)"
    and dial_err: "dial c s = (s', Inl e) \<Longrightarrow> s' = s"
    and all_Nil: "dial_all [] s = (s, Inr [])"
    and all_Cons: "dial_all (c # cs) s = (case dial c s of (s', Inl err) \<Rightarrow> (s', Inl err)
      | (s', Inr p) \<Rightarrow> (case dial_all cs s' of (s'', Inl err) \<Rightarrow> (s'', Inl err) | (s'', Inr ps) \<Rightarrow> (s'', Inr (p # ps))))"
begin

lemma all_ok:
  assumes "dial_all cs s = (s', Inr ps)"
  shows "(\<exists>cns. s' = s\<lparr>opened := opened s @ cns\<rparr> \<and> length cns = length cs)
    \<and> map conn_of ps = [length (opened s) ..< length (opened s) + length cs]"
  using assms
proof (induction cs arbitrary: s ps)
  case Nil
  then show ?case by (auto simp: all_Nil)
next
  case (Cons c cs)
  then obtain s1 p ps' where d: "dial c s = (s1, Inr p)" "dial_all cs s1 = (s', Inr ps')" "ps = p # ps'"
    by (auto simp: all_Cons split: prod.splits sum.splits)
  from dial_ok [OF d(1)] obtain cn where s1: "s1 = s\<lparr>opened := opened s @ [cn]\<rparr>" "conn_of p = length (opened s)" by blast
  from Cons.IH [OF d(2)] obtain cns where cns: "s' = s1\<lparr>opened := opened s1 @ cns\<rparr>" "length cns = length cs"
    "map conn_of ps' = [length (opened s1) ..< length (opened s1) + length cs]" by blast
  have "s' = s\<lparr>opened := opened s @ (cn # cns)\<rparr>" using cns(1) s1(1) by simp
  moreover have "[n ..< n + length (c # cs)] = n # [Suc n ..< Suc n + length cs]" for n by (simp add: upt_conv_Cons del: upt_Suc)
  then have "map conn_of ps = [length (opened s) ..< length (opened s) + length (c # cs)]"
    using cns(3) s1 d(3) by (simp del: upt_Suc)
  ultimately show ?case using cns(2) by (metis length_Cons)
qed

lemma all_err:
  assumes "dial_all cs s = (s', Inl e)"
  shows "\<exists>j cns. j < length cs \<and> s' = s\<lparr>opened := opened s @ cns\<rparr> \<and> length cns = j \<and> dial (cs ! j) s' = (s', Inl e)"
  using assms
proof (induction cs arbitrary: s)
  case (Cons c cs)
  show ?case
  proof (cases "dial c s")
    case (Pair s1 r)
    show ?thesis
    proof (cases r)
      case (Inl err)
      with Pair Cons.prems have "s' = s1" "e = err" by (simp_all add: all_Cons)
      with dial_err [of c s s1 err] Pair Inl show ?thesis by (intro exI [of _ 0] exI [of _ "[]"]) simp
    next
      case (Inr p)
      with Pair Cons.prems have d: "dial_all cs s1 = (s', Inl e)" by (auto simp: all_Cons split: prod.splits sum.splits)
      from Pair Inr dial_ok [of c s s1 p] obtain cn where s1: "s1 = s\<lparr>opened := opened s @ [cn]\<rparr>" by auto
      from Cons.IH [OF d] obtain j cns where "j < length cs" "s' = s1\<lparr>opened := opened s1 @ cns\<rparr>" "length cns = j"
        "dial (cs ! j) s' = (s', Inl e)" by blast
      with s1 show ?thesis by (intro exI [of _ "Suc j"] exI [of _ "cn # cns"]) simp
    qed
  qed
qed (simp add: all_Nil)

end

lemma NewClient_cases:
  assumes "NewClient d c s = (s', r)"
  shows "case r of Inl e \<Rightarrow> s' = s | Inr i \<Rightarrow> s' = s\<lparr>opened := opened s @ [c]\<rparr> \<and> i = length (opened s) \<and> d_NewClient d c = None"
  using assms by (auto simp: NewClient_def split: option.splits)

lemma NewPeer_cases:
  assumes "NewPeer d c s = (s', r)"
  shows "case r of Inl e \<Rightarrow> s' = s
    | Inr i \<Rightarrow> i = length (opened s) \<and> (\<exists>host port creds. tls_Validate (pcf_TLS c) = None \<and> SplitHostPort (pcf_Address c) = Inr (host, port)
        \<and> peerCreds d c host = Inr creds
        \<and> s' = s\<lparr>opened := opened s @ [\<lparr>cc_target = pcf_Address c, cc_creds = creds, cc_options = Some peerOptions\<rparr>]\<rparr>)"
  using assms by (auto simp: NewPeer_def dest!: NewClient_cases split: option.splits sum.splits prod.splits)

lemma dialOrderer_cases:
  assumes "dialOrderer d c s = (s', r)"
  shows "case r of Inl e \<Rightarrow> s' = s
    | Inr (i, ord) \<Rightarrow> i = length (opened s) \<and> ord = NewOrderer (ocf_Address c)
        \<and> (\<exists>host port creds. tls_Validate (ocf_TLS c) = None \<and> SplitHostPort (ocf_Address c) = Inr (host, port)
        \<and> ordererCreds d c host = Inr creds
        \<and> s' = s\<lparr>opened := opened s @ [\<lparr>cc_target = ocf_Address c, cc_creds = creds, cc_options = None\<rparr>]\<rparr>)"
  using assms by (auto simp: dialOrderer_def dest!: NewClient_cases split: option.splits sum.splits prod.splits)

lemma fabric_NewPeer_cases:
  assumes "fabric_NewPeer d c channel signer s = (s', r)"
  shows "case r of Inl e \<Rightarrow> s' = s | Inr p \<Rightarrow> (\<exists>cn. s' = s\<lparr>opened := opened s @ [cn]\<rparr>) \<and> fp_conn p = length (opened s)"
proof (cases signer)
  case (Some sg)
  obtain s1 r1 where p: "NewPeer d c s = (s1, r1)" by fastforce
  from NewPeer_cases [OF p] assms Some p show ?thesis by (cases r1) (auto simp: fabric_NewPeer_def)
qed (use assms in \<open>auto simp: fabric_NewPeer_def\<close>)

interpretation peers: dialing "\<lambda>c. fabric_NewPeer d c channel signer" fp_conn "dialPeers d channel signer"
proof unfold_locales
  fix c s s' p assume "fabric_NewPeer d c channel signer s = (s', Inr p)"
  from fabric_NewPeer_cases [OF this] show "(\<exists>cn. s' = s\<lparr>opened := opened s @ [cn]\<rparr>) \<and> fp_conn p = length (opened s)" by simp
next
  fix c s s' e assume "fabric_NewPeer d c channel signer s = (s', Inl e)"
  from fabric_NewPeer_cases [OF this] show "s' = s" by simp
qed simp_all

interpretation orderers: dialing "dialOrderer d" fst "dialOrderers d"
proof unfold_locales
  fix c s s' p assume "dialOrderer d c s = (s', Inr p)"
  from dialOrderer_cases [OF this] show "(\<exists>cn. s' = s\<lparr>opened := opened s @ [cn]\<rparr>) \<and> fst p = length (opened s)" by (auto split: prod.splits)
next
  fix c s s' e assume "dialOrderer d c s = (s', Inl e)"
  from dialOrderer_cases [OF this] show "s' = s" by simp
qed simp_all

definition conns_ok :: "'cert conns \<Rightarrow> bool" where
  "conns_ok s \<longleftrightarrow> (\<forall>i \<in> closed s. i < length (opened s))"

lemma open_conns_append:
  assumes "conns_ok s"
  shows "open_conns (s\<lparr>opened := opened s @ cns\<rparr>) = open_conns s \<union> {length (opened s) ..< length (opened s) + length cns}"
proof (intro set_eqI)
  fix i
  have "i \<in> closed s \<longrightarrow> i < length (opened s)" using assms by (simp add: conns_ok_def)
  then show "i \<in> open_conns (s\<lparr>opened := opened s @ cns\<rparr>) \<longleftrightarrow> i \<in> open_conns s \<union> {length (opened s) ..< length (opened s) + length cns}"
    unfolding open_conns_def by (cases "i < length (opened s)") simp_all
qed

lemma open_conns_close: "open_conns (s\<lparr>closed := insert i (closed s)\<rparr>) = open_conns s - {i}"
  unfolding open_conns_def by auto

lemma closePeers_open: "open_conns (fst (closePeers closeErr is s)) = open_conns s - set is"
proof (induction "is" arbitrary: s)
  case (Cons i "is")
  then show ?case by (simp add: conn_Close_def open_conns_close case_prod_beta Diff_insert2 [of "open_conns s" i "set is"])
qed simp

lemma closePeers_errors: "snd (closePeers closeErr is s) = List.map_filter closeErr is"
proof (induction "is" arbitrary: s)
  case (Cons i "is")
  then show ?case by (simp add: conn_Close_def map_filter_simps case_prod_beta split: option.split)
qed (simp add: map_filter_simps)

text \<open>
  C29: An endorsement client owns the connections it opened, if it could be built. Then there is one new connection
  for each configured peer, and \<open>Close\<close> closes exactly these and reports every failure, so that the
  connections are the ones there were before. If a peer cannot be dialled, nobody owns the connections to the
  peers before it: they stay open.
\<close>

theorem endorsement_client_connections:
  assumes "conns_ok s" and "NewEndorsementClient d config signer channel s = (s', r)"
  shows "case r of
      Inr ec \<Rightarrow> open_conns s' - open_conns s = set (map fp_conn (ec_peers ec)) \<and> open_conns s \<subseteq> open_conns s'
        \<and> distinct (map fp_conn (ec_peers ec)) \<and> length (ec_peers ec) = length config
        \<and> open_conns (fst (endorsementClient_Close closeErr ec s')) = open_conns s
        \<and> snd (endorsementClient_Close closeErr ec s') = List.map_filter closeErr (map fp_conn (ec_peers ec))
    | Inl err \<Rightarrow> config = [] \<and> s' = s
        \<or> (\<exists>j < length config. fabric_NewPeer d (config ! j) channel signer s' = (s', Inl err)
            \<and> open_conns s' = open_conns s \<union> {length (opened s) ..< length (opened s) + j} \<and> card (open_conns s' - open_conns s) = j)"
proof (cases "config = []")
  case True
  with assms(2) show ?thesis by (auto simp: NewEndorsementClient_def)
next
  case False
  obtain s1 r1 where d: "dialPeers d channel signer config s = (s1, r1)" by fastforce
  have fresh: "open_conns s \<inter> {length (opened s) ..< n} = {}" for n by (auto simp: open_conns_def)
  show ?thesis
  proof (cases r1)
    case (Inl e)
    with d False assms(2) have r: "r = Inl e" "s' = s1" by (simp_all add: NewEndorsementClient_def)
    from peers.all_err [OF d [unfolded Inl]] obtain j cns where j: "j < length config" "s1 = s\<lparr>opened := opened s @ cns\<rparr>" "length cns = j"
      "fabric_NewPeer d (config ! j) channel signer s1 = (s1, Inl e)" by blast
    have o: "open_conns s1 = open_conns s \<union> {length (opened s) ..< length (opened s) + j}"
      using open_conns_append [OF assms(1), of cns] j(2,3) by simp
    then have "open_conns s1 - open_conns s = {length (opened s) ..< length (opened s) + j}" using fresh by blast
    with r j(1,4) o show ?thesis by auto
  next
    case (Inr ps)
    with d False assms(2) have r: "r = Inr \<lparr>ec_peers = ps, ec_signer = signer, ec_channel = channel\<rparr>" "s' = s1"
      by (simp_all add: NewEndorsementClient_def)
    from peers.all_ok [OF d [unfolded Inr]] obtain cns where c: "s1 = s\<lparr>opened := opened s @ cns\<rparr>" "length cns = length config"
      "map fp_conn ps = [length (opened s) ..< length (opened s) + length config]" by blast
    have o: "open_conns s1 = open_conns s \<union> {length (opened s) ..< length (opened s) + length config}"
      using open_conns_append [OF assms(1), of cns] c(1,2) by simp
    then have "open_conns s1 - {length (opened s) ..< length (opened s) + length config} = open_conns s"
      "open_conns s1 - open_conns s = {length (opened s) ..< length (opened s) + length config}"
      using fresh by blast+
    moreover have "length ps = length config" using arg_cong [OF c(3), of length] by simp
    ultimately show ?thesis
      using r c(3) o by (simp add: endorsementClient_Close_def closePeers_open closePeers_errors)
  qed
qed

text \<open>The client of the query service keeps nothing open if it cannot be built.\<close>

lemma dialClients_open:
  assumes "conns_ok s" and "dialClients d closeErr c n peers s = (s', r)"
  shows "case r of
      Inr ps \<Rightarrow> ps = peers @ [length (opened s) ..< length (opened s) + n]
        \<and> open_conns s' = open_conns s \<union> {length (opened s) ..< length (opened s) + n}
    | Inl err \<Rightarrow> open_conns s' = open_conns s - set peers"
  using assms
proof (induction n arbitrary: peers s)
  case (Suc n)
  obtain s1 r1 where p: "NewPeer d c s = (s1, r1)" by fastforce
  show ?case
  proof (cases r1)
    case (Inl err)
    with NewPeer_cases [OF p] p Suc.prems(2) show ?thesis by (auto simp: grpcClient_Close_def closePeers_open)
  next
    case (Inr i)
    from NewPeer_cases [OF p [unfolded Inr]] obtain cn where s1: "i = length (opened s)" "s1 = s\<lparr>opened := opened s @ [cn]\<rparr>" by auto
    have ok: "conns_ok s1" using Suc.prems(1) by (auto simp: s1(2) conns_ok_def)
    have o: "open_conns s1 = open_conns s \<union> {length (opened s)}" using open_conns_append [OF Suc.prems(1), of "[cn]"] by (simp add: s1(2))
    from p Inr Suc.prems(2) have d: "dialClients d closeErr c n (peers @ [i]) s1 = (s', r)" by simp
    have l: "length (opened s1) = Suc (length (opened s))" by (simp add: s1(2))
    have u: "[k ..< k + Suc n] = k # [Suc k ..< Suc k + n]" "{k ..< k + Suc n} = insert k {Suc k ..< Suc k + n}" for k
      by (simp_all add: upt_conv_Cons del: upt_Suc) auto
    have "i \<notin> open_conns s" by (simp add: s1(1) open_conns_def)
    with Suc.IH [OF ok d] show ?thesis unfolding o l u s1(1) by (cases r) auto
  qed
qed (auto simp: open_conns_def)

lemma query_client_connections:
  assumes "conns_ok s" and "NewGRPCClient d closeErr c conns s = (s', r)"
  shows "case r of
      Inr (peers, gc) \<Rightarrow> open_conns s' = open_conns s \<union> set peers \<and> distinct peers \<and> length peers = nat conns \<and> gc_clients gc = nat conns
        \<and> open_conns (fst (grpcClient_Close closeErr peers s')) = open_conns s
    | Inl err \<Rightarrow> open_conns s' = open_conns s"
proof (cases "conns < 1")
  case True
  with assms(2) show ?thesis by (auto simp: NewGRPCClient_def)
next
  case False
  obtain s1 r1 where d: "dialClients d closeErr c (nat conns) [] s = (s1, r1)" by fastforce
  have fresh: "open_conns s - {length (opened s) ..< n} = open_conns s" for n by (auto simp: open_conns_def)
  from dialClients_open [OF assms(1) d] d assms(2) False show ?thesis
    by (cases r1) (auto simp: NewGRPCClient_def grpcClient_Close_def closePeers_open Un_Diff fresh)
qed

lemma client_inv_New:
  assumes "NewGRPCClient d closeErr c conns s = (s', Inr (peers, gc))" and "conns_ok s" and "conns < 2 ^ 63"
  shows "client_inv gc"
proof -
  have "gc_clients gc = nat conns" using query_client_connections [OF assms(2,1)] by simp
  moreover have "\<not> conns < 1" "gc_views gc = Map.empty" using assms(1) by (auto simp: NewGRPCClient_def split: if_splits prod.splits sum.splits)
  ultimately show ?thesis using assms(3) by (simp add: client_inv_def nat_less_iff)
qed

lemma submitter_connections:
  assumes "conns_ok s" and "NewSubmitter d config packager s = (s', Inl err)" and "config \<noteq> []"
  shows "\<exists>j < length config. dialOrderer d (config ! j) s' = (s', Inl err)
    \<and> open_conns s' = open_conns s \<union> {length (opened s) ..< length (opened s) + j}"
proof -
  from assms(2,3) have d: "dialOrderers d config s = (s', Inl err)" by (auto simp: NewSubmitter_def split: prod.splits sum.splits)
  from orderers.all_err [OF d] open_conns_append [OF assms(1)] show ?thesis by blast
qed

subsection \<open>How secure a connection is\<close>

definition secured :: "'cert tls_files \<Rightarrow> TLSConfig \<Rightarrow> string \<Rightarrow> 'cert credentials \<Rightarrow> bool" where
  "secured f c host creds \<longleftrightarrow>
     (if tc_Mode c = '''' \<or> tc_Mode c = ''none'' then creds = InsecureCreds
      else (tc_Mode c = ''tls'' \<or> tc_Mode c = ''mtls'') \<and> (\<exists>t. creds = TLSCreds (Some t) \<and> MinVersion t = 0x0304
        \<and> ServerName t = (if tc_ServerName c \<noteq> '''' then tc_ServerName c else host) \<and> RootCAs t \<noteq> []
        \<and> RootCAs t = concat (map (\<lambda>p. case ReadFile f p of Inr pem \<Rightarrow> CertsFromPEM f pem | Inl _ \<Rightarrow> []) (tc_CACertPaths c))
        \<and> (Certificates t \<noteq> [] \<longleftrightarrow> tc_Mode c = ''mtls'')))"

lemma creds_secured:
  assumes "LoadClientTLSConfig f c host = Inr t" and "tc_Mode c \<noteq> ''''" and "tc_Mode c \<noteq> ''none''"
  shows "secured f c host (TLSCreds t)"
proof -
  from assms obtain cas certs where l: "tls_Validate c = None" "loadRootCAs f (tc_CACertPaths c) = Inr cas" "loadClientCert f c = Inr certs"
    "t = Some \<lparr>MinVersion = 0x0304, ServerName = if tc_ServerName c \<noteq> '''' then tc_ServerName c else host, RootCAs = cas, Certificates = certs\<rparr>"
    by (auto simp: LoadClientTLSConfig_Inr)
  from l(1) assms(2,3) have m: "tc_Mode c = ''tls'' \<or> tc_Mode c = ''mtls''" "tc_CACertPaths c \<noteq> []" by (auto simp: tls_Validate_None)
  from l(2) have ca: "\<forall>p \<in> set (tc_CACertPaths c). \<exists>pem. ReadFile f p = Inr pem \<and> CertsFromPEM f pem \<noteq> []"
    "cas = concat (map (\<lambda>p. case ReadFile f p of Inr pem \<Rightarrow> CertsFromPEM f pem | Inl _ \<Rightarrow> []) (tc_CACertPaths c))"
    by (simp_all add: loadRootCAs_Inr)
  have "cas \<noteq> []" using ca m(2) by (cases "tc_CACertPaths c") auto
  moreover have "certs \<noteq> [] \<longleftrightarrow> tc_Mode c = ''mtls''" using l(3) by (auto simp: loadClientCert_Inr split: if_splits)
  ultimately show ?thesis using m(1) assms(2,3) l(4) ca(2) by (simp add: secured_def)
qed

lemma peerCreds_secured: "peerCreds d c host = Inr creds \<Longrightarrow> secured (d_files d) (pcf_TLS c) host creds"
  by (auto simp: peerCreds_def creds_secured split: if_splits sum.splits) (auto simp: secured_def)

lemma ordererCreds_secured: "ordererCreds d c host = Inr creds \<Longrightarrow> secured (d_files d) (ocf_TLS c) host creds"
  by (auto simp: ordererCreds_def creds_secured split: if_splits sum.splits) (auto simp: secured_def)

definition connected :: "'cert tls_files \<Rightarrow> string \<Rightarrow> TLSConfig \<Rightarrow> 'cert conns \<Rightarrow> 'cert conns \<Rightarrow> bool" where
  "connected f addr c s s' \<longleftrightarrow> (\<exists>host port cn. s' = s\<lparr>opened := opened s @ [cn]\<rparr> \<and> cc_target cn = addr
     \<and> joined addr host port \<and> secured f c host (cc_creds cn))"

lemma connectedI:
  assumes "SplitHostPort addr = Inr (host, port)" and "secured f c host creds"
    and "s' = s\<lparr>opened := opened s @ [\<lparr>cc_target = addr, cc_creds = creds, cc_options = opts\<rparr>]\<rparr>"
  shows "connected f addr c s s'"
  unfolding connected_def using assms(1,2)
  by (intro exI [of _ host] exI [of _ port] exI [of _ "\<lparr>cc_target = addr, cc_creds = creds, cc_options = opts\<rparr>"])
    (simp add: assms(3) SplitHostPort_Inr)

text \<open>
  C30: A client never connects less securely than it is configured to, to peers and orderers alike. A connection
  goes to the configured address, which is a host and a port. It is without TLS exactly if the mode is empty or
  \<open>none\<close>. Otherwise it requires TLS 1.3, verifies the configured server name, or else the host of the address
  without brackets, trusts exactly the certificates of the configured CA files, at least one, and presents a
  client certificate exactly in mode \<open>mtls\<close>. If dialling fails, no connection is opened.
\<close>

theorem dial_secure:
  assumes "NewPeer d c s = (s1, r1)" and "dialOrderer d oc s = (s2, r2)"
  shows "(case r1 of Inl e \<Rightarrow> s1 = s | Inr i \<Rightarrow> i = length (opened s) \<and> connected (d_files d) (pcf_Address c) (pcf_TLS c) s s1)
    \<and> (case r2 of Inl e \<Rightarrow> s2 = s | Inr p \<Rightarrow> fst p = length (opened s) \<and> connected (d_files d) (ocf_Address oc) (ocf_TLS oc) s s2)"
proof
  show "case r1 of Inl e \<Rightarrow> s1 = s | Inr i \<Rightarrow> i = length (opened s) \<and> connected (d_files d) (pcf_Address c) (pcf_TLS c) s s1"
  proof (cases r1)
    case (Inr i)
    from NewPeer_cases [OF assms(1) [unfolded Inr]] obtain host port creds where "i = length (opened s)"
      "SplitHostPort (pcf_Address c) = Inr (host, port)" "peerCreds d c host = Inr creds"
      "s1 = s\<lparr>opened := opened s @ [\<lparr>cc_target = pcf_Address c, cc_creds = creds, cc_options = Some peerOptions\<rparr>]\<rparr>"
      by auto
    then show ?thesis unfolding Inr sum.case by (blast intro: connectedI peerCreds_secured)
  qed (use NewPeer_cases [OF assms(1)] in simp)
  show "case r2 of Inl e \<Rightarrow> s2 = s | Inr p \<Rightarrow> fst p = length (opened s) \<and> connected (d_files d) (ocf_Address oc) (ocf_TLS oc) s s2"
  proof (cases r2)
    case (Inr p)
    from dialOrderer_cases [OF assms(2) [unfolded Inr]] obtain host port creds where "fst p = length (opened s)"
      "SplitHostPort (ocf_Address oc) = Inr (host, port)" "ordererCreds d oc host = Inr creds"
      "s2 = s\<lparr>opened := opened s @ [\<lparr>cc_target = ocf_Address oc, cc_creds = creds, cc_options = None\<rparr>]\<rparr>"
      by (cases p) auto
    then show ?thesis unfolding Inr sum.case by (blast intro: connectedI ordererCreds_secured)
  qed (use dialOrderer_cases [OF assms(2)] in simp)
qed

subsection \<open>Witnesses\<close>

definition sample_tls :: TLSConfig where
  "sample_tls = \<lparr>tc_Mode = ''tls'', tc_CertPath = '''', tc_KeyPath = '''', tc_CACertPaths = [''ca.pem''], tc_ServerName = ''''\<rparr>"

definition sample_dialer :: "string dialer" where
  "sample_dialer = \<lparr>d_files = sample_files, d_NewClient = (\<lambda>_. None)\<rparr>"

definition sample_conns :: "string conns" where
  "sample_conns = \<lparr>opened = [], closed = {}\<rparr>"

definition sample_peers :: "PeerConf list" where
  "sample_peers = [\<lparr>pcf_Address = ''a:1'', pcf_TLS = sample_tls\<rparr>, \<lparr>pcf_Address = ''b'', pcf_TLS = sample_tls\<rparr>]"

theorem endorsement_client_connections_witness:
  "(case NewEndorsementClient sample_dialer sample_peers (Some testSigner) ''ch'' sample_conns of
      (s', Inl err) \<Rightarrow> open_conns s' = {0} \<and> (\<exists>j < 2. open_conns s' = {0 ..< j}) | (s', Inr _) \<Rightarrow> False)
   \<and> (case NewEndorsementClient sample_dialer (take 1 sample_peers) (Some testSigner) ''ch'' sample_conns of
      (s', Inr ec) \<Rightarrow> open_conns (fst (endorsementClient_Close (\<lambda>_. None) ec s')) = {} | (s', Inl _) \<Rightarrow> False)"
proof -
  obtain s1 r1 where n1: "NewEndorsementClient sample_dialer sample_peers (Some testSigner) ''ch'' sample_conns = (s1, r1)" by fastforce
  obtain s2 r2 where n2: "NewEndorsementClient sample_dialer (take 1 sample_peers) (Some testSigner) ''ch'' sample_conns = (s2, r2)" by fastforce
  have ok: "conns_ok sample_conns" and none: "open_conns sample_conns = {}" by (simp_all add: conns_ok_def open_conns_def sample_conns_def)
  have two: "length sample_peers = 2" "sample_peers \<noteq> []" "length (opened sample_conns) = 0" by (simp_all add: sample_peers_def sample_conns_def)
  have "case NewEndorsementClient sample_dialer sample_peers (Some testSigner) ''ch'' sample_conns of
      (s', Inl err) \<Rightarrow> length (opened s') = 1 \<and> closed s' = {} | (s', Inr _) \<Rightarrow> False"
    "case NewEndorsementClient sample_dialer (take 1 sample_peers) (Some testSigner) ''ch'' sample_conns of
      (s', Inr ec) \<Rightarrow> True | (s', Inl _) \<Rightarrow> False"
    by code_simp+
  with n1 n2 obtain e ec where r: "r1 = Inl e" "r2 = Inr ec" "length (opened s1) = 1" "closed s1 = {}"
    by (cases r1; cases r2) simp_all
  from endorsement_client_connections [OF ok n1, of "\<lambda>_. None"] have "\<exists>j < 2. open_conns s1 = {0 ..< j}"
    unfolding r(1) sum.case none two by (metis two(2) Un_empty_left add_0)
  moreover from r(3,4) have "open_conns s1 = {0}" by (auto simp: open_conns_def)
  moreover from endorsement_client_connections [OF ok n2, of "\<lambda>_. None"]
  have "open_conns (fst (endorsementClient_Close (\<lambda>_. None) ec s2)) = {}" unfolding r(2) sum.case none by blast
  ultimately show ?thesis unfolding n1 n2 r(1,2) by simp
qed

theorem dial_secure_witness:
  "(case NewPeer sample_dialer \<lparr>pcf_Address = ''[::1]:7051'', pcf_TLS = sample_tls\<rparr> sample_conns of
      (s', Inr _) \<Rightarrow> connected sample_files ''[::1]:7051'' sample_tls sample_conns s' | _ \<Rightarrow> False)
   \<and> (case dialOrderer sample_dialer \<lparr>ocf_Address = ''orderer:7050'', ocf_TLS = sample_tls\<rparr> sample_conns of
      (s', Inr _) \<Rightarrow> connected sample_files ''orderer:7050'' sample_tls sample_conns s' | _ \<Rightarrow> False)"
proof -
  obtain s1 r1 where n1: "NewPeer sample_dialer \<lparr>pcf_Address = ''[::1]:7051'', pcf_TLS = sample_tls\<rparr> sample_conns = (s1, r1)" by fastforce
  obtain s2 r2 where n2: "dialOrderer sample_dialer \<lparr>ocf_Address = ''orderer:7050'', ocf_TLS = sample_tls\<rparr> sample_conns = (s2, r2)" by fastforce
  have "case NewPeer sample_dialer \<lparr>pcf_Address = ''[::1]:7051'', pcf_TLS = sample_tls\<rparr> sample_conns of (_, Inr _) \<Rightarrow> True | _ \<Rightarrow> False"
    "case dialOrderer sample_dialer \<lparr>ocf_Address = ''orderer:7050'', ocf_TLS = sample_tls\<rparr> sample_conns of (_, Inr _) \<Rightarrow> True | _ \<Rightarrow> False"
    by code_simp+
  then show ?thesis using dial_secure [OF n1 n2]
    unfolding n1 n2 by (cases r1; cases r2) (simp_all add: sample_dialer_def)
qed

end
