(* ===== verification/Finality_Stream.thy ===== *)
theory Finality_Stream
  imports Fabricx_Peer
begin

section \<open>Waiting for finality over reconnecting streams (notification/finality.go on network/fabricx/peer.go)\<close>

text \<open>
  The finality listener together with the peer it runs on: callers of \<open>WaitForFinality\<close>, the sessions of the reconnect loop, and
  in each session the goroutine of \<open>onConnect\<close> and the two loops of \<open>Notify\<close>. All of them share the subscription channel,
  also the goroutines of a session that is over. Every operation is a function that is \<^term>\<open>None\<close> where
  the code cannot take the step, a step relation interleaves them.
\<close>

subsection \<open>Notifiers\<close>

record ('s, 'r) Notifier =
  nt_peer :: "string list list \<Rightarrow> 's status_handler list \<Rightarrow> int64 \<Rightarrow> 'r"
  nt_processor :: "'s status_handler list"

definition NewNotifier :: "(string list list \<Rightarrow> 's status_handler list \<Rightarrow> int64 \<Rightarrow> 'r) \<Rightarrow> 's status_handler list \<Rightarrow> ('s, 'r) Notifier" where
  "NewNotifier p processor = \<lparr>nt_peer = p, nt_processor = processor\<rparr>"

definition Subscribe :: "('s, 'r) Notifier \<Rightarrow> string list list \<Rightarrow> 'r" where
  "Subscribe n txIDs = nt_peer n txIDs (nt_processor n) 0"

subsection \<open>Sessions and callers\<close>

datatype connect_pc = Snapshotting | Resending "string list" | Querying "string list" | Connected

text \<open>
  A session: where \<open>onConnect\<close> is, whether the stream was opened, whether the send loop runs, what it has sent, whether one of the two loops
  has failed, which cancels the context of \<open>Notify\<close>, and whether \<open>runSession\<close> has returned.
\<close>

record session =
  ss_connect :: connect_pc
  ss_opened :: bool
  ss_loop :: bool
  ss_sent :: "string list list"
  ss_failed :: bool
  ss_over :: bool

definition newSession :: session where
  "newSession = \<lparr>ss_connect = Snapshotting, ss_opened = False, ss_loop = False, ss_sent = [], ss_failed = False, ss_over = False\<rparr>"

datatype wait_pc = Queueing nat | Awaiting nat | Returned "TxStatusEvent res"

record waiter =
  wt_tx :: string
  wt_pc :: wait_pc

text \<open>\<open>fw_reported\<close> is the history of all events the peer reported, on a stream or as the answer to a query.\<close>

record fin_world =
  fw_listener :: FinalityListener
  fw_sessions :: "session list"
  fw_waiters :: "waiter list"
  fw_reported :: "TxStatusEvent list"

definition finStart :: fin_world where
  "finStart = \<lparr>fw_listener = NewFinalityListener, fw_sessions = [], fw_waiters = [], fw_reported = []\<rparr>"

definition set_waiter :: "nat \<Rightarrow> wait_pc \<Rightarrow> FinalityListener \<Rightarrow> fin_world \<Rightarrow> fin_world" where
  "set_waiter i p f w = w\<lparr>fw_listener := f, fw_waiters := (fw_waiters w)[i := (fw_waiters w ! i)\<lparr>wt_pc := p\<rparr>]\<rparr>"

definition set_session :: "nat \<Rightarrow> session \<Rightarrow> FinalityListener \<Rightarrow> fin_world \<Rightarrow> fin_world" where
  "set_session k s f w = w\<lparr>fw_listener := f, fw_sessions := (fw_sessions w)[k := s]\<rparr>"

subsection \<open>WaitForFinality\<close>

definition waitStart :: "string \<Rightarrow> fin_world \<Rightarrow> fin_world" where
  "waitStart txID w =
     (case registerPending txID (fw_listener w) of
        (f, Inl err) \<Rightarrow> w\<lparr>fw_waiters := fw_waiters w @ [\<lparr>wt_tx = txID, wt_pc = Returned (Inl err)\<rparr>]\<rparr>
      | (f, Inr ch) \<Rightarrow> w\<lparr>fw_listener := f, fw_waiters := fw_waiters w @ [\<lparr>wt_tx = txID, wt_pc = Queueing ch\<rparr>]\<rparr>)"

definition waitQueue :: "nat \<Rightarrow> fin_world \<Rightarrow> fin_world option" where
  "waitQueue i w =
     (case wt_pc (fw_waiters w ! i) of
        Queueing ch \<Rightarrow> map_option (\<lambda>f. set_waiter i (Awaiting ch) f w) (sendSub [wt_tx (fw_waiters w ! i)] (fw_listener w))
      | _ \<Rightarrow> None)"

definition waitReceive :: "nat \<Rightarrow> fin_world \<Rightarrow> fin_world option" where
  "waitReceive i w =
     (case wt_pc (fw_waiters w ! i) of
        Awaiting ch \<Rightarrow>
          (case fl_buffer (fw_listener w) ch of
             [] \<Rightarrow> None
           | e # _ \<Rightarrow> Some (set_waiter i (Returned (Inr e)) (receiveEvent ch (fw_listener w)) w))
      | _ \<Rightarrow> None)"

definition waitCancel :: "goerror \<Rightarrow> nat \<Rightarrow> fin_world \<Rightarrow> fin_world option" where
  "waitCancel ctxErr i w =
     (case wt_pc (fw_waiters w ! i) of
        Returned _ \<Rightarrow> None
      | _ \<Rightarrow> Some (set_waiter i (Returned (Inl ctxErr)) (Unregister (wt_tx (fw_waiters w ! i)) (fw_listener w)) w))"

subsection \<open>Sessions\<close>

text \<open>The loop of \<open>Start\<close> begins a session when the one before has returned.\<close>

definition runSession :: "fin_world \<Rightarrow> fin_world option" where
  "runSession w = (if list_all ss_over (fw_sessions w) then Some (w\<lparr>fw_sessions := fw_sessions w @ [newSession]\<rparr>) else None)"

definition openStream :: "nat \<Rightarrow> fin_world \<Rightarrow> fin_world option" where
  "openStream k w =
     (let s = fw_sessions w ! k in
      if ss_opened s \<or> ss_over s then None
      else Some (set_session k (s\<lparr>ss_opened := True, ss_loop := True\<rparr>) (fw_listener w) w))"

definition breakStream :: "nat \<Rightarrow> fin_world \<Rightarrow> fin_world option" where
  "breakStream k w =
     (let s = fw_sessions w ! k in
      if ss_opened s then Some (set_session k (s\<lparr>ss_failed := True\<rparr>) (fw_listener w) w) else None)"

definition notifyReturn :: "nat \<Rightarrow> fin_world \<Rightarrow> fin_world option" where
  "notifyReturn k w =
     (let s = fw_sessions w ! k in
      if ss_over s then None else Some (set_session k (s\<lparr>ss_over := True\<rparr>) (fw_listener w) w))"

text \<open>\<open>onConnect\<close>: the snapshot, the send or the end of the context, the query.\<close>

definition connectSnapshot :: "string list \<Rightarrow> nat \<Rightarrow> fin_world \<Rightarrow> fin_world option" where
  "connectSnapshot order k w =
     (let s = fw_sessions w ! k in
      if ss_connect s = Snapshotting
      then Some (set_session k (s\<lparr>ss_connect := (if length order = 0 then Connected else Resending order)\<rparr>) (fw_listener w) w) else None)"

definition connectResend :: "nat \<Rightarrow> fin_world \<Rightarrow> fin_world option" where
  "connectResend k w =
     (let s = fw_sessions w ! k in
      case ss_connect s of
        Resending order \<Rightarrow> map_option (\<lambda>f. set_session k (s\<lparr>ss_connect := Querying order\<rparr>) f w) (sendSub order (fw_listener w))
      | _ \<Rightarrow> None)"

definition connectGiveUp :: "nat \<Rightarrow> fin_world \<Rightarrow> fin_world option" where
  "connectGiveUp k w =
     (let s = fw_sessions w ! k in
      case ss_connect s of
        Resending order \<Rightarrow> if ss_over s then Some (set_session k (s\<lparr>ss_connect := Connected\<rparr>) (fw_listener w) w) else None
      | _ \<Rightarrow> None)"

definition connectReconcile :: "(string list \<Rightarrow> TxStatusEvent list res) option \<Rightarrow> nat \<Rightarrow> fin_world \<Rightarrow> fin_world option" where
  "connectReconcile q k w =
     (let s = fw_sessions w ! k in
      case ss_connect s of
        Querying order \<Rightarrow>
          map_option (\<lambda>f. (set_session k (s\<lparr>ss_connect := Connected\<rparr>) f w)\<lparr>fw_reported := fw_reported w
              @ (case q of Some query \<Rightarrow> (case query order of Inr events \<Rightarrow> events | Inl _ \<Rightarrow> []) | None \<Rightarrow> [])\<rparr>)
            (reconcile q order (fw_listener w))
      | _ \<Rightarrow> None)"

text \<open>An iteration of the send loop; the batch is gone also if sending it fails.\<close>

definition sendTake :: "bool \<Rightarrow> nat \<Rightarrow> fin_world \<Rightarrow> fin_world option" where
  "sendTake sent k w =
     (let s = fw_sessions w ! k in
      if ss_loop s then
        (case fl_subCh (fw_listener w) of
           [] \<Rightarrow> None
         | batch # _ \<Rightarrow>
             Some (set_session k (if sent then s\<lparr>ss_sent := ss_sent s @ [batch]\<rparr> else s\<lparr>ss_loop := False, ss_failed := True\<rparr>)
               (takeSub (fw_listener w)) w))
      else None)"

definition sendStop :: "nat \<Rightarrow> fin_world \<Rightarrow> fin_world option" where
  "sendStop k w =
     (let s = fw_sessions w ! k in
      if ss_loop s \<and> (ss_failed s \<or> ss_over s) then Some (set_session k (s\<lparr>ss_loop := False\<rparr>) (fw_listener w) w) else None)"

text \<open>
  An iteration of the receive loop. The listener is the only handler of its processor; as the state of the handlers it
  is \<^term>\<open>None\<close> if \<open>Handle\<close> blocks.
\<close>

definition listenerHandler :: "FinalityListener option status_handler" where
  "listenerHandler f events = (Option.bind f (fl_Handle events), None)"

definition receiveResponse :: "committer_codes \<Rightarrow> pb_NotificationResponse \<Rightarrow> nat \<Rightarrow> fin_world \<Rightarrow> fin_world option" where
  "receiveResponse cc res k w =
     (if ss_opened (fw_sessions w ! k) then
        map_option (\<lambda>f. w\<lparr>fw_listener := f, fw_reported := fw_reported w @ convertNotificationResponse cc res\<rparr>)
          (fst (notificationReceiveLoop cc [listenerHandler] [Got res] (Some (fw_listener w))))
      else None)"

subsection \<open>All goroutines together\<close>

text \<open>
  If \<open>joined\<close> holds, the send loop of a session that is over takes nothing from the channel any more. The code
  does not ensure this: the loop selects among the end of its context and the channel.
\<close>

inductive fin_world_step :: "bool \<Rightarrow> committer_codes \<Rightarrow> (string list \<Rightarrow> TxStatusEvent list res) option \<Rightarrow> fin_world \<Rightarrow> fin_world \<Rightarrow> bool"
  for joined cc q where
  wait_start: "fin_world_step joined cc q w (waitStart txID w)"
| wait_queue: "i < length (fw_waiters w) \<Longrightarrow> waitQueue i w = Some w' \<Longrightarrow> fin_world_step joined cc q w w'"
| wait_receive: "i < length (fw_waiters w) \<Longrightarrow> waitReceive i w = Some w' \<Longrightarrow> fin_world_step joined cc q w w'"
| wait_cancel: "i < length (fw_waiters w) \<Longrightarrow> waitCancel err i w = Some w' \<Longrightarrow> fin_world_step joined cc q w w'"
| session_run: "runSession w = Some w' \<Longrightarrow> fin_world_step joined cc q w w'"
| session_open: "k < length (fw_sessions w) \<Longrightarrow> openStream k w = Some w' \<Longrightarrow> fin_world_step joined cc q w w'"
| session_break: "k < length (fw_sessions w) \<Longrightarrow> breakStream k w = Some w' \<Longrightarrow> fin_world_step joined cc q w w'"
| session_return: "k < length (fw_sessions w) \<Longrightarrow> notifyReturn k w = Some w' \<Longrightarrow> fin_world_step joined cc q w w'"
| snapshot: "k < length (fw_sessions w) \<Longrightarrow> enumerates order (fl_pending (fw_listener w)) \<Longrightarrow> connectSnapshot order k w = Some w'
    \<Longrightarrow> fin_world_step joined cc q w w'"
| resend: "k < length (fw_sessions w) \<Longrightarrow> connectResend k w = Some w' \<Longrightarrow> fin_world_step joined cc q w w'"
| give_up: "k < length (fw_sessions w) \<Longrightarrow> connectGiveUp k w = Some w' \<Longrightarrow> fin_world_step joined cc q w w'"
| reconcile_pending: "k < length (fw_sessions w) \<Longrightarrow> connectReconcile q k w = Some w' \<Longrightarrow> fin_world_step joined cc q w w'"
| send_take: "k < length (fw_sessions w) \<Longrightarrow> joined \<longrightarrow> \<not> ss_over (fw_sessions w ! k) \<Longrightarrow> sendTake sent k w = Some w'
    \<Longrightarrow> fin_world_step joined cc q w w'"
| send_stop: "k < length (fw_sessions w) \<Longrightarrow> sendStop k w = Some w' \<Longrightarrow> fin_world_step joined cc q w w'"
| receive_response: "k < length (fw_sessions w) \<Longrightarrow> receiveResponse cc res k w = Some w' \<Longrightarrow> fin_world_step joined cc q w w'"

abbreviation fin_world_steps :: "bool \<Rightarrow> committer_codes \<Rightarrow> (string list \<Rightarrow> TxStatusEvent list res) option \<Rightarrow> fin_world \<Rightarrow> fin_world \<Rightarrow> bool" where
  "fin_world_steps joined cc q \<equiv> (fin_world_step joined cc q)\<^sup>*\<^sup>*"

subsection \<open>What a caller gets\<close>

text \<open>\<open>Handle\<close> changes buffers and the pending entries only, and what it puts into a buffer is an event of the batch, of the buffer's transaction.\<close>

lemma fl_Handle_frame:
  assumes "fin_inv f" and "fl_Handle es f = Some f'"
  shows "fl_subCh f' = fl_subCh f \<and> fl_owner f' = fl_owner f \<and> fl_next f' = fl_next f \<and> fl_pending f' \<subseteq>\<^sub>m fl_pending f
    \<and> (\<forall>ch. \<forall>e \<in> set (fl_buffer f' ch). e \<in> set (fl_buffer f ch) \<or> e \<in> set es \<and> te_TxID e = fl_owner f ch)"
  using assms
proof (induction es f rule: fl_Handle.induct)
  case (2 e es f)
  show ?case
  proof (cases "fl_pending f (te_TxID e)")
    case None
    with 2 show ?thesis by auto
  next
    case (Some ch)
    let ?f = "f\<lparr>fl_buffer := (fl_buffer f)(ch := [e]), fl_delivered := (fl_delivered f)(ch := fl_delivered f ch @ [e]),
       fl_pending := (fl_pending f)(te_TxID e := None)\<rparr>"
    note p = fin_inv_pending [OF "2.prems"(1) Some]
    from Some p(3) "2.prems"(2) have h: "fl_Handle es ?f = Some f'" by simp
    have i: "fin_inv ?f" using "2.prems"(1) Some by (rule fin_inv_deliver)
    have nb: "\<not> fl_buffer f ch \<noteq> []" using p(3) by simp
    note IH = "2.IH"(2) [OF Some nb i h]
    from IH have "fl_pending f' \<subseteq>\<^sub>m fl_pending ?f" by blast
    then have "fl_pending f' \<subseteq>\<^sub>m fl_pending f" by (auto simp: map_le_def split: if_splits)
    moreover have "x \<in> set (fl_buffer f c) \<or> x \<in> set (e # es) \<and> te_TxID x = fl_owner f c" if "x \<in> set (fl_buffer f' c)" for c x
    proof -
      from IH that have "x \<in> set (fl_buffer ?f c) \<or> x \<in> set es \<and> te_TxID x = fl_owner ?f c" by blast
      with p(1) show ?thesis by (cases "c = ch") auto
    qed
    ultimately show ?thesis using IH by simp
  qed
qed simp

lemma reconcile_frame:
  assumes "fin_inv f" and "reconcile q txIDs f = Some f'"
  shows "fl_subCh f' = fl_subCh f \<and> fl_owner f' = fl_owner f \<and> fl_next f' = fl_next f \<and> fl_pending f' \<subseteq>\<^sub>m fl_pending f
    \<and> (\<forall>ch. \<forall>e \<in> set (fl_buffer f' ch). e \<in> set (fl_buffer f ch)
        \<or> e \<in> set (case q of Some query \<Rightarrow> (case query txIDs of Inr events \<Rightarrow> events | Inl _ \<Rightarrow> []) | None \<Rightarrow> []) \<and> te_TxID e = fl_owner f ch)"
proof (cases "\<exists>query events. q = Some query \<and> query txIDs = Inr events \<and> filter (\<lambda>e. status_IsFinal (te_Status e)) events \<noteq> []")
  case True
  then obtain query events where q: "q = Some query" "query txIDs = Inr events"
    "filter (\<lambda>e. status_IsFinal (te_Status e)) events \<noteq> []" by blast
  with assms(2) have "fl_Handle (filter (\<lambda>e. status_IsFinal (te_Status e)) events) f = Some f'" by (simp add: reconcile_def Let_def)
  from fl_Handle_frame [OF assms(1) this] q show ?thesis by auto
next
  case False
  with assms(2) have "f' = f" by (auto simp: reconcile_def Let_def split: option.splits sum.splits if_splits)
  then show ?thesis by simp
qed

definition waiter_ok :: "FinalityListener \<Rightarrow> TxStatusEvent list \<Rightarrow> waiter \<Rightarrow> bool" where
  "waiter_ok f rep wt \<longleftrightarrow>
     (case wt_pc wt of
        Returned (Inl _) \<Rightarrow> True
      | Returned (Inr e) \<Rightarrow> te_TxID e = wt_tx wt \<and> e \<in> set rep
      | Queueing ch \<Rightarrow> ch < fl_next f \<and> fl_owner f ch = wt_tx wt
      | Awaiting ch \<Rightarrow> ch < fl_next f \<and> fl_owner f ch = wt_tx wt)"

definition sound :: "FinalityListener \<Rightarrow> waiter list \<Rightarrow> TxStatusEvent list \<Rightarrow> bool" where
  "sound f ws rep \<longleftrightarrow> fin_inv f \<and> finite (dom (fl_pending f)) \<and> (\<forall>wt \<in> set ws. waiter_ok f rep wt)
     \<and> (\<forall>ch. \<forall>e \<in> set (fl_buffer f ch). te_TxID e = fl_owner f ch \<and> e \<in> set rep)"

abbreviation world_sound :: "fin_world \<Rightarrow> bool" where
  "world_sound w \<equiv> sound (fw_listener w) (fw_waiters w) (fw_reported w)"

lemma sound_subCh: "sound (f\<lparr>fl_subCh := x\<rparr>) ws rep = sound f ws rep"
  by (simp add: sound_def fin_inv_def waiter_ok_def cong: wait_pc.case_cong sum.case_cong)

lemma sendSub_Some: "sendSub b f = Some f' \<Longrightarrow> f' = f\<lparr>fl_subCh := fl_subCh f @ [b]\<rparr>"
  by (simp add: sendSub_def split: if_splits)

lemma sound_events:
  assumes "sound f ws rep" and "fin_inv f'" and "fl_owner f' = fl_owner f" and "fl_next f' = fl_next f"
    and "fl_pending f' \<subseteq>\<^sub>m fl_pending f" and "set rep \<subseteq> set rep'"
    and "\<And>ch e. e \<in> set (fl_buffer f' ch) \<Longrightarrow> e \<in> set (fl_buffer f ch) \<or> e \<in> set rep' \<and> te_TxID e = fl_owner f ch"
  shows "sound f' ws rep'"
proof -
  have "dom (fl_pending f') \<subseteq> dom (fl_pending f)" using assms(5) by (rule map_le_implies_dom_le)
  then have "finite (dom (fl_pending f'))" using assms(1) finite_subset unfolding sound_def by blast
  moreover have "waiter_ok f' rep' wt" if "waiter_ok f rep wt" for wt
    using that assms(3,4,6) by (auto simp: waiter_ok_def split: wait_pc.splits sum.splits)
  ultimately show ?thesis using assms(1,2,3,6,7) unfolding sound_def by (metis subsetD)
qed

lemma sound_waiter:
  assumes "sound f ws rep" and "waiter_ok f rep ((ws ! i)\<lparr>wt_pc := p\<rparr>)"
  shows "sound f (ws[i := (ws ! i)\<lparr>wt_pc := p\<rparr>]) rep"
  using assms set_update_subset_insert [of ws i "(ws ! i)\<lparr>wt_pc := p\<rparr>"] unfolding sound_def by blast

lemma waiter_at: "sound f ws rep \<Longrightarrow> i < length ws \<Longrightarrow> waiter_ok f rep (ws ! i)"
  by (simp add: sound_def)

lemma sound_start:
  assumes "sound f ws rep" and "registerPending txID f = (f', Inr ch)"
  shows "sound f' (ws @ [\<lparr>wt_tx = txID, wt_pc = Queueing ch\<rparr>]) rep"
proof -
  from assms(2) have f': "f' = f\<lparr>fl_pending := (fl_pending f)(txID \<mapsto> fl_next f), fl_owner := (fl_owner f)(fl_next f := txID), fl_next := Suc (fl_next f)\<rparr>"
    "ch = fl_next f" by (auto simp: registerPending_def split: option.splits)
  have i: "fin_inv f" "fin_inv f'" using assms fin_inv_step [OF fin_step.register [OF assms(2)]] by (simp_all add: sound_def)
  have "fl_buffer f (fl_next f) = []" using i(1) by (auto simp: fin_inv_def) (metis le_refl le_zero_eq length_0_conv)
  then have "te_TxID e = fl_owner f' c \<and> e \<in> set rep" if "e \<in> set (fl_buffer f' c)" for c e
    using that assms(1) by (cases "c = fl_next f") (simp_all add: f' sound_def)
  moreover have "waiter_ok f' rep wt" if "waiter_ok f rep wt" for wt
    using that by (auto simp: f' waiter_ok_def split: wait_pc.splits sum.splits)
  moreover have "waiter_ok f' rep \<lparr>wt_tx = txID, wt_pc = Queueing ch\<rparr>" by (simp add: f' waiter_ok_def)
  ultimately show ?thesis using assms(1) i(2) unfolding sound_def by (simp add: f')
qed


lemmas world_ops = set_waiter_def set_session_def waitQueue_def waitReceive_def waitCancel_def runSession_def openStream_def breakStream_def
  notifyReturn_def connectSnapshot_def connectResend_def connectGiveUp_def connectReconcile_def sendTake_def sendStop_def Let_def

lemma waitStart_sound:
  assumes "world_sound w"
  shows "world_sound (waitStart txID w)"
proof (cases "registerPending txID (fw_listener w)")
  case (Pair f r)
  show ?thesis
  proof (cases r)
    case (Inl err)
    with Pair assms show ?thesis by (simp add: waitStart_def sound_def waiter_ok_def)
  next
    case (Inr ch)
    with sound_start [OF assms, of txID f ch] Pair show ?thesis by (simp add: waitStart_def)
  qed
qed

lemma waiter_steps_sound:
  assumes "world_sound w" and i: "i < length (fw_waiters w)"
  shows "waitQueue i w = Some w' \<Longrightarrow> world_sound w'" and "waitReceive i w = Some w' \<Longrightarrow> world_sound w'"
    and "waitCancel err i w = Some w' \<Longrightarrow> world_sound w'"
proof -
  note ok = waiter_at [OF assms]
  show "world_sound w'" if "waitQueue i w = Some w'"
  proof -
    from that obtain ch f where c: "wt_pc (fw_waiters w ! i) = Queueing ch" "sendSub [wt_tx (fw_waiters w ! i)] (fw_listener w) = Some f"
      "w' = set_waiter i (Awaiting ch) f w" by (auto simp: waitQueue_def split: wait_pc.splits)
    have "waiter_ok (fw_listener w) (fw_reported w) ((fw_waiters w ! i)\<lparr>wt_pc := Awaiting ch\<rparr>)" using ok c(1) by (simp add: waiter_ok_def)
    from sound_waiter [OF assms(1) this] show ?thesis by (simp add: c(3) sendSub_Some [OF c(2)] set_waiter_def sound_subCh)
  qed
  show "world_sound w'" if "waitReceive i w = Some w'"
  proof -
    from that obtain ch e es where c: "wt_pc (fw_waiters w ! i) = Awaiting ch" "fl_buffer (fw_listener w) ch = e # es"
      "w' = set_waiter i (Returned (Inr e)) (receiveEvent ch (fw_listener w)) w"
      by (auto simp: waitReceive_def split: wait_pc.splits list.splits)
    have "e \<in> set (fl_buffer (fw_listener w) ch)" using c(2) by simp
    with assms(1) have e: "te_TxID e = fl_owner (fw_listener w) ch" "e \<in> set (fw_reported w)" unfolding sound_def by blast+
    have "fin_inv (receiveEvent ch (fw_listener w))" using assms(1) c(2) fin_inv_step [OF fin_step.receive [of "fw_listener w" ch]] by (simp add: sound_def)
    then have "sound (receiveEvent ch (fw_listener w)) (fw_waiters w) (fw_reported w)"
      by (rule sound_events [OF assms(1)]) (auto simp: receiveEvent_def c(2) split: if_splits)
    moreover have "waiter_ok f (fw_reported w) ((fw_waiters w ! i)\<lparr>wt_pc := Returned (Inr e)\<rparr>)" for f
      using ok c(1) e by (simp add: waiter_ok_def)
    ultimately show ?thesis using sound_waiter by (simp add: c(3) set_waiter_def)
  qed
  show "world_sound w'" if "waitCancel err i w = Some w'"
  proof -
    let ?f = "Unregister (wt_tx (fw_waiters w ! i)) (fw_listener w)"
    from that have c: "w' = set_waiter i (Returned (Inl err)) ?f w" by (auto simp: waitCancel_def split: wait_pc.splits)
    have "fin_inv ?f" using assms(1) fin_inv_step [OF fin_step.unregister] by (simp add: sound_def)
    then have "sound ?f (fw_waiters w) (fw_reported w)"
      by (rule sound_events [OF assms(1)]) (auto simp: Unregister_def map_le_def)
    then show ?thesis using sound_waiter by (simp add: c set_waiter_def waiter_ok_def)
  qed
qed

lemma receiveResponse_Some:
  assumes "receiveResponse cc res k w = Some w'"
  shows "\<exists>f. fl_Handle (convertNotificationResponse cc res) (fw_listener w) = Some f
    \<and> w' = w\<lparr>fw_listener := f, fw_reported := fw_reported w @ convertNotificationResponse cc res\<rparr>"
  using assms
  by (auto simp: receiveResponse_def listenerHandler_def ProcessStatuses_def Let_def split: if_splits)

lemma connectReconcile_Some:
  assumes "connectReconcile q k w = Some w'"
  shows "\<exists>order f. ss_connect (fw_sessions w ! k) = Querying order \<and> reconcile q order (fw_listener w) = Some f
    \<and> w' = (set_session k ((fw_sessions w ! k)\<lparr>ss_connect := Connected\<rparr>) f w)\<lparr>fw_reported := fw_reported w
       @ (case q of Some query \<Rightarrow> (case query order of Inr events \<Rightarrow> events | Inl _ \<Rightarrow> []) | None \<Rightarrow> [])\<rparr>"
  using assms by (auto simp: connectReconcile_def Let_def split: connect_pc.splits)

lemma session_ops_sound:
  assumes "world_sound w"
  shows "runSession w = Some w' \<Longrightarrow> world_sound w'" and "openStream k w = Some w' \<Longrightarrow> world_sound w'"
    and "breakStream k w = Some w' \<Longrightarrow> world_sound w'" and "notifyReturn k w = Some w' \<Longrightarrow> world_sound w'"
    and "connectSnapshot order k w = Some w' \<Longrightarrow> world_sound w'" and "connectGiveUp k w = Some w' \<Longrightarrow> world_sound w'"
    and "sendStop k w = Some w' \<Longrightarrow> world_sound w'" and "sendTake sent k w = Some w' \<Longrightarrow> world_sound w'"
    and "connectResend k w = Some w' \<Longrightarrow> world_sound w'"
  using assms
  by (auto simp: world_ops sound_subCh takeSub_def dest!: sendSub_Some split: if_splits connect_pc.splits list.splits)

lemma fin_world_step_sound:
  assumes "fin_world_step joined cc q w w'" and "world_sound w"
  shows "world_sound w'"
  using assms(1)
proof (cases rule: fin_world_step.cases)
  case (reconcile_pending k)
  from connectReconcile_Some [OF reconcile_pending(2)] obtain order f where r: "reconcile q order (fw_listener w) = Some f"
    and w': "fw_listener w' = f" "fw_waiters w' = fw_waiters w"
      "fw_reported w' = fw_reported w @ (case q of Some query \<Rightarrow> (case query order of Inr events \<Rightarrow> events | Inl _ \<Rightarrow> []) | None \<Rightarrow> [])"
    by (auto simp: set_session_def)
  have i: "fin_inv (fw_listener w)" using assms(2) by (simp add: sound_def)
  have "fin_inv f" using fin_inv_step [OF fin_step.reconciled [OF r] i] .
  then show ?thesis unfolding w' using reconcile_frame [OF i r] by (intro sound_events [OF assms(2)]) auto
next
  case (receive_response k res)
  from receiveResponse_Some [OF receive_response(2)] obtain f where r: "fl_Handle (convertNotificationResponse cc res) (fw_listener w) = Some f"
    and w': "w' = w\<lparr>fw_listener := f, fw_reported := fw_reported w @ convertNotificationResponse cc res\<rparr>" by blast
  have i: "fin_inv (fw_listener w)" using assms(2) by (simp add: sound_def)
  have "fin_inv f" using fin_inv_step [OF fin_step.handle [OF r] i] .
  then show ?thesis unfolding w' using fl_Handle_frame [OF i r] by simp (intro sound_events [OF assms(2)], auto)
qed (use assms(2) in \<open>auto dest: waitStart_sound waiter_steps_sound session_ops_sound\<close>)

lemma fin_world_sound:
  assumes "fin_world_steps joined cc q finStart w"
  shows "world_sound w"
  using assms
proof (induction rule: rtranclp_induct)
  case base
  show ?case by (simp add: finStart_def sound_def NewFinalityListener_def fin_inv_def)
qed (rule fin_world_step_sound)


lemma fl_Handle_untouched: "ch \<notin> ran (fl_pending f) \<Longrightarrow> fl_Handle es f = Some f' \<Longrightarrow> fl_buffer f' ch = fl_buffer f ch"
proof (induction es f rule: fl_Handle.induct)
  case (2 e es f)
  show ?case
  proof (cases "fl_pending f (te_TxID e)")
    case (Some c)
    then have "ch \<noteq> c" using "2.prems"(1) by (auto simp: ran_def)
    moreover have "ch \<notin> ran ((fl_pending f)(te_TxID e := None))" using "2.prems"(1) by (auto simp: ran_def)
    ultimately show ?thesis using Some 2 by (auto simp: fun_upd_def split: if_splits)
  qed (use 2 in simp)
qed simp

lemma fl_Handle_answers:
  assumes "fin_inv f" and "fl_Handle es f = Some f'" and "fl_pending f tx = Some ch" and "e \<in> set es" and "te_TxID e = tx"
  shows "\<exists>e' \<in> set es. te_TxID e' = tx \<and> fl_buffer f' ch = [e']"
  using assms
proof (induction es f rule: fl_Handle.induct)
  case (2 x es f)
  show ?case
  proof (cases "fl_pending f (te_TxID x)")
    case None
    with 2 show ?thesis by auto
  next
    case (Some c)
    let ?f = "f\<lparr>fl_buffer := (fl_buffer f)(c := [x]), fl_delivered := (fl_delivered f)(c := fl_delivered f c @ [x]),
       fl_pending := (fl_pending f)(te_TxID x := None)\<rparr>"
    note p = fin_inv_pending [OF "2.prems"(1) Some]
    from Some p(3) "2.prems"(2) have h: "fl_Handle es ?f = Some f'" by simp
    show ?thesis
    proof (cases "te_TxID x = tx")
      case True
      with Some "2.prems"(3) have c: "c = ch" by simp
      have "t = te_TxID x" if "fl_pending f t = Some c" for t using fin_inv_pending(1) [OF "2.prems"(1) that] p(1) by simp
      then have "c \<notin> ran (fl_pending ?f)" by (auto simp: ran_def split: if_splits)
      from fl_Handle_untouched [OF this h] True c show ?thesis by auto
    next
      case False
      have i: "fin_inv ?f" using "2.prems"(1) Some by (rule fin_inv_deliver)
      have nb: "\<not> fl_buffer f c \<noteq> []" using p(3) by simp
      from "2.IH"(2) [OF Some nb i h] False "2.prems"(3-5) show ?thesis by auto
    qed
  qed
qed simp

text \<open>
  C19: \<open>WaitForFinality\<close> never returns a wrong status and never misses one that arrives. Whatever the other goroutines do, an event that
  a caller gets is one that the peer reported, for the caller's transaction. And as long as the caller waits and is registered, a response
  of the peer on any open stream that has a status of the transaction is handled without blocking, and then
  the caller can return with such a status.
\<close>

theorem wait_for_finality:
  assumes "fin_world_steps joined cc q finStart w" and "i < length (fw_waiters w)" and "tx = wt_tx (fw_waiters w ! i)"
  shows "(\<forall>e. wt_pc (fw_waiters w ! i) = Returned (Inr e) \<longrightarrow> te_TxID e = tx \<and> e \<in> set (fw_reported w))
    \<and> (\<forall>ch k res. wt_pc (fw_waiters w ! i) = Awaiting ch \<and> fl_pending (fw_listener w) tx = Some ch
         \<and> k < length (fw_sessions w) \<and> ss_opened (fw_sessions w ! k)
         \<and> (\<exists>e \<in> set (convertNotificationResponse cc res). te_TxID e = tx)
       \<longrightarrow> (\<exists>w1 w2. \<exists>e \<in> set (convertNotificationResponse cc res). receiveResponse cc res k w = Some w1 \<and> waitReceive i w1 = Some w2
             \<and> te_TxID e = tx \<and> wt_pc (fw_waiters w2 ! i) = Returned (Inr e)))"
proof (intro conjI allI impI)
  have s: "world_sound w" using assms(1) by (rule fin_world_sound)
  fix e assume "wt_pc (fw_waiters w ! i) = Returned (Inr e)"
  with waiter_at [OF s assms(2)] assms(3) show "te_TxID e = tx" "e \<in> set (fw_reported w)" by (simp_all add: waiter_ok_def)
next
  have i: "fin_inv (fw_listener w)" using fin_world_sound [OF assms(1)] by (simp add: sound_def)
  fix ch k res
  let ?es = "convertNotificationResponse cc res"
  assume a: "wt_pc (fw_waiters w ! i) = Awaiting ch \<and> fl_pending (fw_listener w) tx = Some ch
    \<and> k < length (fw_sessions w) \<and> ss_opened (fw_sessions w ! k) \<and> (\<exists>e \<in> set ?es. te_TxID e = tx)"
  then obtain e0 where e0: "e0 \<in> set ?es" "te_TxID e0 = tx" by blast
  obtain f' where f': "fl_Handle ?es (fw_listener w) = Some f'" using fl_Handle_spec [OF i] by blast
  from fl_Handle_answers [OF i f' _ e0] a obtain e where e: "e \<in> set ?es" "te_TxID e = tx" "fl_buffer f' ch = [e]" by blast
  define w1 where "w1 = w\<lparr>fw_listener := f', fw_reported := fw_reported w @ ?es\<rparr>"
  have "?es \<noteq> []" using e0 by auto
  with a f' have 1: "receiveResponse cc res k w = Some w1"
    by (simp add: receiveResponse_def listenerHandler_def ProcessStatuses_def Let_def w1_def)
  have 2: "waitReceive i w1 = Some (set_waiter i (Returned (Inr e)) (receiveEvent ch f') w1)"
    using a e(3) by (simp add: waitReceive_def w1_def)
  show "\<exists>w1 w2. \<exists>e \<in> set ?es. receiveResponse cc res k w = Some w1 \<and> waitReceive i w1 = Some w2
      \<and> te_TxID e = tx \<and> wt_pc (fw_waiters w2 ! i) = Returned (Inr e)"
    by (intro exI [of _ w1] exI [of _ "set_waiter i (Returned (Inr e)) (receiveEvent ch f') w1"] bexI [OF _ e(1)] conjI 1 2 e(2))
      (use assms(2) in \<open>simp add: set_waiter_def w1_def\<close>)
qed


subsection \<open>Every wait is subscribed\<close>

text \<open>
  A transaction is on its way to the stream of a session, or there already: the snapshot is still to be taken, or has it and
  is to be sent, or it is in the channel, or it was sent.
\<close>

definition covered :: "session \<Rightarrow> FinalityListener \<Rightarrow> string \<Rightarrow> bool" where
  "covered s f tx \<longleftrightarrow> ss_connect s = Snapshotting \<or> (\<exists>order. ss_connect s = Resending order \<and> tx \<in> set order)
     \<or> tx \<in> set (concat (fl_subCh f)) \<or> tx \<in> set (concat (ss_sent s))"

definition healthy :: "session \<Rightarrow> bool" where
  "healthy s \<longleftrightarrow> \<not> ss_over s \<and> \<not> ss_failed s"

definition waits_for :: "FinalityListener \<Rightarrow> waiter list \<Rightarrow> string \<Rightarrow> bool" where
  "waits_for f ws tx \<longleftrightarrow> (\<exists>wt \<in> set ws. \<exists>ch. wt_tx wt = tx \<and> wt_pc wt = Awaiting ch \<and> fl_pending f tx = Some ch)"

definition subscribed :: "FinalityListener \<Rightarrow> waiter list \<Rightarrow> session list \<Rightarrow> bool" where
  "subscribed f ws ss \<longleftrightarrow>
     (\<forall>j < length ss. \<forall>k < length ss. \<not> ss_over (ss ! j) \<longrightarrow> \<not> ss_over (ss ! k) \<longrightarrow> j = k)
   \<and> (\<forall>k < length ss. healthy (ss ! k) \<longrightarrow> (ss_opened (ss ! k) \<longrightarrow> ss_loop (ss ! k)) \<and> (\<forall>tx. waits_for f ws tx \<longrightarrow> covered (ss ! k) f tx))"

lemma subscribedD:
  assumes "subscribed f ws ss" and "k < length ss"
  shows "j < length ss \<Longrightarrow> \<not> ss_over (ss ! j) \<Longrightarrow> \<not> ss_over (ss ! k) \<Longrightarrow> j = k"
    and "healthy (ss ! k) \<Longrightarrow> ss_opened (ss ! k) \<Longrightarrow> ss_loop (ss ! k)"
    and "healthy (ss ! k) \<Longrightarrow> waits_for f ws tx \<Longrightarrow> covered (ss ! k) f tx"
  using assms unfolding subscribed_def by blast+

lemma waits_for_pending:
  assumes "waits_for f' ws tx" and "fl_pending f' \<subseteq>\<^sub>m fl_pending f"
  shows "waits_for f ws tx"
proof -
  from assms(1) obtain wt ch where w: "wt \<in> set ws" "wt_tx wt = tx" "wt_pc wt = Awaiting ch" "fl_pending f' tx = Some ch"
    unfolding waits_for_def by blast
  then have "fl_pending f tx = Some ch" using assms(2) by (metis domI map_le_def)
  with w show ?thesis unfolding waits_for_def by blast
qed

text \<open>A step of the listener and the callers: the channel only grows, and who waits newly is in it.\<close>

lemma subscribed_callers:
  assumes "subscribed f ws ss" and "set (concat (fl_subCh f)) \<subseteq> set (concat (fl_subCh f'))"
    and "\<And>tx. waits_for f' ws' tx \<Longrightarrow> waits_for f ws tx \<or> tx \<in> set (concat (fl_subCh f'))"
  shows "subscribed f' ws' ss"
proof -
  have "covered (ss ! k) f' tx" if "k < length ss" "healthy (ss ! k)" "waits_for f' ws' tx" for k tx
    using assms(3) [OF that(3)] subscribedD(3) [OF assms(1) that(1,2)] assms(2) unfolding covered_def by blast
  with assms(1) show ?thesis unfolding subscribed_def by blast
qed

text \<open>A step of session \<open>k\<close>. It may take from the channel only if it is not over.\<close>

lemma subscribed_session:
  assumes inv: "subscribed f ws ss" and k: "k < length ss" and le: "fl_pending f' \<subseteq>\<^sub>m fl_pending f"
    and ov: "ss_over (ss ! k) \<Longrightarrow> ss_over s' \<and> set (concat (fl_subCh f)) \<subseteq> set (concat (fl_subCh f'))"
    and healthy: "healthy s' \<Longrightarrow> healthy (ss ! k)"
    and loop: "healthy s' \<Longrightarrow> ss_opened s' \<Longrightarrow> (ss_opened (ss ! k) \<longrightarrow> ss_loop (ss ! k)) \<Longrightarrow> ss_loop s'"
    and covers: "\<And>tx. healthy s' \<Longrightarrow> waits_for f' ws tx \<Longrightarrow> covered (ss ! k) f tx \<Longrightarrow> covered s' f' tx"
  shows "subscribed f' ws (ss[k := s'])"
  unfolding subscribed_def
proof (intro conjI allI impI)
  fix i j assume "i < length (ss[k := s'])" "j < length (ss[k := s'])" "\<not> ss_over (ss[k := s'] ! i)" "\<not> ss_over (ss[k := s'] ! j)"
  then have "i < length ss" "j < length ss" "\<not> ss_over (ss ! i)" "\<not> ss_over (ss ! j)"
    using ov k by (auto simp: nth_list_update split: if_splits)
  then show "i = j" using subscribedD(1) [OF inv] by blast
next
  fix i assume i: "i < length (ss[k := s'])" "healthy (ss[k := s'] ! i)" and "ss_opened (ss[k := s'] ! i)"
  then show "ss_loop (ss[k := s'] ! i)"
    using loop healthy subscribedD(2) [OF inv] k by (cases "i = k") simp_all
next
  fix i tx assume i: "i < length (ss[k := s'])" "healthy (ss[k := s'] ! i)" and w: "waits_for f' ws tx"
  have w': "waits_for f ws tx" using w le by (rule waits_for_pending)
  show "covered (ss[k := s'] ! i) f' tx"
  proof (cases "i = k")
    case True
    with i k covers healthy w subscribedD(3) [OF inv k _ w'] show ?thesis by simp
  next
    case False
    with i have h: "i < length ss" "healthy (ss ! i)" by simp_all
    then have "ss_over (ss ! k)" using False subscribedD(1) [OF inv k h(1)] unfolding healthy_def by blast
    with ov subscribedD(3) [OF inv h w'] False show ?thesis unfolding covered_def by auto
  qed
qed


abbreviation world_subscribed :: "fin_world \<Rightarrow> bool" where
  "world_subscribed w \<equiv> subscribed (fw_listener w) (fw_waiters w) (fw_sessions w)"

lemma waits_for_update:
  assumes "waits_for f (ws[i := x]) tx"
  shows "waits_for f ws tx \<or> tx = wt_tx x \<and> (\<exists>ch. wt_pc x = Awaiting ch)"
  using assms set_update_subset_insert [of ws i x] unfolding waits_for_def by blast

lemma waitStart_subscribed:
  assumes "world_subscribed w" and "world_sound w"
  shows "world_subscribed (waitStart txID w)"
proof -
  obtain f r where r: "registerPending txID (fw_listener w) = (f, r)" by fastforce
  show ?thesis
  proof (cases r)
    case (Inl err)
    have "waits_for (fw_listener w) (fw_waiters w) tx" if "waits_for (fw_listener w) (fw_waiters w @ [\<lparr>wt_tx = txID, wt_pc = Returned (Inl err)\<rparr>]) tx" for tx
      using that by (auto simp: waits_for_def)
    with subscribed_callers [OF assms(1)] r Inl show ?thesis by (simp add: waitStart_def)
  next
    case (Inr ch)
    with r have f: "f = (fw_listener w)\<lparr>fl_pending := (fl_pending (fw_listener w))(txID \<mapsto> fl_next (fw_listener w)),
       fl_owner := (fl_owner (fw_listener w))(fl_next (fw_listener w) := txID), fl_next := Suc (fl_next (fw_listener w))\<rparr>"
      by (auto simp: registerPending_def split: option.splits)
    have "waits_for (fw_listener w) (fw_waiters w) tx" if "waits_for f (fw_waiters w @ [\<lparr>wt_tx = txID, wt_pc = Queueing ch\<rparr>]) tx" for tx
    proof -
      from that obtain wt c where wt: "wt \<in> set (fw_waiters w)" "wt_tx wt = tx" "wt_pc wt = Awaiting c" "fl_pending f tx = Some c"
        by (auto simp: waits_for_def)
      from wt(1,3) assms(2) have "c < fl_next (fw_listener w)" by (auto simp: sound_def waiter_ok_def)
      with wt(4) have "fl_pending (fw_listener w) tx = Some c" by (auto simp: f split: if_splits)
      with wt show ?thesis unfolding waits_for_def by blast
    qed
    moreover have "fl_subCh f = fl_subCh (fw_listener w)" by (simp add: f)
    ultimately show ?thesis using subscribed_callers [OF assms(1)] r Inr by (simp add: waitStart_def)
  qed
qed

lemma waiter_steps_subscribed:
  assumes "world_subscribed w" and i: "i < length (fw_waiters w)"
  shows "waitQueue i w = Some w' \<Longrightarrow> world_subscribed w'" and "waitReceive i w = Some w' \<Longrightarrow> world_subscribed w'"
    and "waitCancel err i w = Some w' \<Longrightarrow> world_subscribed w'"
proof -
  note upd = waits_for_update [of _ "fw_waiters w" i]
  show "world_subscribed w'" if "waitQueue i w = Some w'"
  proof -
    from that obtain ch f where c: "wt_pc (fw_waiters w ! i) = Queueing ch" "sendSub [wt_tx (fw_waiters w ! i)] (fw_listener w) = Some f"
      "w' = set_waiter i (Awaiting ch) f w" by (auto simp: waitQueue_def split: wait_pc.splits)
    note f = sendSub_Some [OF c(2)]
    have "waits_for (fw_listener w) (fw_waiters w) tx \<or> tx \<in> set (concat (fl_subCh f))"
      if "waits_for f ((fw_waiters w)[i := (fw_waiters w ! i)\<lparr>wt_pc := Awaiting ch\<rparr>]) tx" for tx
      using upd [OF that] by (auto simp: f waits_for_def)
    then have "subscribed f ((fw_waiters w)[i := (fw_waiters w ! i)\<lparr>wt_pc := Awaiting ch\<rparr>]) (fw_sessions w)"
      by (intro subscribed_callers [OF assms(1)]) (auto simp: f)
    then show ?thesis by (simp add: c(3) set_waiter_def)
  qed
  show "world_subscribed w'" if "waitReceive i w = Some w'"
  proof -
    from that obtain ch e where c: "w' = set_waiter i (Returned (Inr e)) (receiveEvent ch (fw_listener w)) w"
      by (auto simp: waitReceive_def split: wait_pc.splits list.splits)
    have "waits_for (fw_listener w) (fw_waiters w) tx"
      if "waits_for (receiveEvent ch (fw_listener w)) ((fw_waiters w)[i := (fw_waiters w ! i)\<lparr>wt_pc := Returned (Inr e)\<rparr>]) tx" for tx
      using upd [OF that] by (auto simp: waits_for_def receiveEvent_def)
    then show ?thesis using subscribed_callers [OF assms(1)] by (simp add: c set_waiter_def receiveEvent_def)
  qed
  show "world_subscribed w'" if "waitCancel err i w = Some w'"
  proof -
    let ?f = "Unregister (wt_tx (fw_waiters w ! i)) (fw_listener w)"
    from that have c: "w' = set_waiter i (Returned (Inl err)) ?f w" by (auto simp: waitCancel_def split: wait_pc.splits)
    have "waits_for (fw_listener w) (fw_waiters w) tx"
      if "waits_for ?f ((fw_waiters w)[i := (fw_waiters w ! i)\<lparr>wt_pc := Returned (Inl err)\<rparr>]) tx" for tx
      using upd [OF that] by (auto simp: waits_for_def Unregister_def split: if_splits)
    then show ?thesis using subscribed_callers [OF assms(1)] by (simp add: c set_waiter_def Unregister_def)
  qed
qed

lemma runSession_subscribed:
  assumes "world_subscribed w" and "runSession w = Some w'"
  shows "world_subscribed w'"
proof -
  from assms(2) have o: "ss_over (fw_sessions w ! k)" if "k < length (fw_sessions w)" for k
    using that by (auto simp: runSession_def list_all_length split: if_splits)
  from assms(2) have w': "w' = w\<lparr>fw_sessions := fw_sessions w @ [newSession]\<rparr>" by (simp add: runSession_def split: if_splits)
  have "covered newSession f tx" "\<not> ss_opened newSession" for f tx by (simp_all add: covered_def newSession_def)
  with o show ?thesis by (auto simp: w' subscribed_def nth_append less_Suc_eq healthy_def)
qed

lemma session_ops_subscribed:
  assumes "world_subscribed w" and k: "k < length (fw_sessions w)"
  shows "openStream k w = Some w' \<Longrightarrow> world_subscribed w'" and "breakStream k w = Some w' \<Longrightarrow> world_subscribed w'"
    and "notifyReturn k w = Some w' \<Longrightarrow> world_subscribed w'" and "connectGiveUp k w = Some w' \<Longrightarrow> world_subscribed w'"
    and "sendStop k w = Some w' \<Longrightarrow> world_subscribed w'" and "connectResend k w = Some w' \<Longrightarrow> world_subscribed w'"
    and "\<not> ss_over (fw_sessions w ! k) \<Longrightarrow> sendTake sent k w = Some w' \<Longrightarrow> world_subscribed w'"
    and "enumerates order (fl_pending (fw_listener w)) \<Longrightarrow> connectSnapshot order k w = Some w' \<Longrightarrow> world_subscribed w'"
proof -
  note s = subscribed_session [OF assms]
  show "openStream k w = Some w' \<Longrightarrow> world_subscribed w'" "breakStream k w = Some w' \<Longrightarrow> world_subscribed w'"
    "notifyReturn k w = Some w' \<Longrightarrow> world_subscribed w'" "connectGiveUp k w = Some w' \<Longrightarrow> world_subscribed w'"
    "sendStop k w = Some w' \<Longrightarrow> world_subscribed w'"
    by (auto simp: world_ops split: if_splits connect_pc.splits intro!: s) (auto simp: healthy_def covered_def)
  show "world_subscribed w'" if "connectResend k w = Some w'"
    using that by (auto simp: world_ops dest!: sendSub_Some split: connect_pc.splits intro!: s) (auto simp: healthy_def covered_def)
  show "world_subscribed w'" if "\<not> ss_over (fw_sessions w ! k)" "sendTake sent k w = Some w'"
    using that by (auto simp: world_ops takeSub_def split: if_splits list.splits intro!: s) (auto simp: healthy_def covered_def)
  show "world_subscribed w'" if "enumerates order (fl_pending (fw_listener w))" "connectSnapshot order k w = Some w'"
    using that by (auto simp: world_ops split: if_splits intro!: s) (auto simp: healthy_def covered_def waits_for_def enumerates_def)
qed


lemma fin_world_step_subscribed:
  assumes "fin_world_step True cc q w w'" and "world_subscribed w" and "world_sound w"
  shows "world_subscribed w'"
  using assms(1)
proof (cases rule: fin_world_step.cases)
  case (reconcile_pending k)
  from connectReconcile_Some [OF reconcile_pending(2)] obtain order f where r: "ss_connect (fw_sessions w ! k) = Querying order"
    "reconcile q order (fw_listener w) = Some f"
    and w': "fw_listener w' = f" "fw_waiters w' = fw_waiters w" "fw_sessions w' = (fw_sessions w)[k := (fw_sessions w ! k)\<lparr>ss_connect := Connected\<rparr>]"
    by (auto simp: set_session_def)
  have "fin_inv (fw_listener w)" using assms(3) by (simp add: sound_def)
  from reconcile_frame [OF this r(2)] show ?thesis unfolding w'
    by (intro subscribed_session [OF assms(2) reconcile_pending(1)]) (auto simp: r(1) healthy_def covered_def)
next
  case (receive_response k res)
  from receiveResponse_Some [OF receive_response(2)] obtain f where r: "fl_Handle (convertNotificationResponse cc res) (fw_listener w) = Some f"
    and w': "w' = w\<lparr>fw_listener := f, fw_reported := fw_reported w @ convertNotificationResponse cc res\<rparr>" by blast
  have "fin_inv (fw_listener w)" using assms(3) by (simp add: sound_def)
  note fr = fl_Handle_frame [OF this r]
  then have "waits_for (fw_listener w) (fw_waiters w) tx" if "waits_for f (fw_waiters w) tx" for tx
    using waits_for_pending [OF that] by blast
  with fr have "subscribed f (fw_waiters w) (fw_sessions w)" by (intro subscribed_callers [OF assms(2)]) auto
  then show ?thesis by (simp add: w')
next
  case (send_take k sent)
  then show ?thesis using session_ops_subscribed(7) [OF assms(2)] by blast
qed (use assms(2,3) in \<open>auto dest: waitStart_subscribed waiter_steps_subscribed runSession_subscribed session_ops_subscribed(1-6,8)\<close>)

lemma fin_world_subscribed:
  assumes "fin_world_steps True cc q finStart w"
  shows "world_subscribed w"
  using assms
proof (induction rule: rtranclp_induct)
  case base
  show ?case by (simp add: finStart_def subscribed_def)
next
  case (step w w')
  with fin_world_step_subscribed fin_world_sound show ?case by blast
qed


text \<open>Nothing of the session or the channel is left to be sent.\<close>

definition settled :: "session \<Rightarrow> FinalityListener \<Rightarrow> bool" where
  "settled s f \<longleftrightarrow> fl_subCh f = [] \<and> (case ss_connect s of Snapshotting \<Rightarrow> False | Resending _ \<Rightarrow> False | _ \<Rightarrow> True)"

lemma settled_sent: "settled s f \<Longrightarrow> covered s f tx \<Longrightarrow> tx \<in> set (concat (ss_sent s))"
  by (auto simp: settled_def covered_def)

definition undisturbed :: "nat \<Rightarrow> fin_world \<Rightarrow> fin_world \<Rightarrow> bool" where
  "undisturbed k w w' \<longleftrightarrow> fw_waiters w' = fw_waiters w \<and> fl_pending (fw_listener w') = fl_pending (fw_listener w)
     \<and> length (fw_sessions w') = length (fw_sessions w)
     \<and> healthy (fw_sessions w' ! k) = healthy (fw_sessions w ! k) \<and> ss_loop (fw_sessions w' ! k) = ss_loop (fw_sessions w ! k)"

lemma undisturbed_trans: "undisturbed k w w' \<Longrightarrow> undisturbed k w' w'' \<Longrightarrow> undisturbed k w w''"
  by (simp add: undisturbed_def)

lemma drain:
  assumes "k < length (fw_sessions w)" and "healthy (fw_sessions w ! k)" and "ss_loop (fw_sessions w ! k)"
  shows "\<exists>w'. fin_world_steps True cc q w w' \<and> undisturbed k w w' \<and> fl_subCh (fw_listener w') = []
    \<and> ss_connect (fw_sessions w' ! k) = ss_connect (fw_sessions w ! k)"
  using assms
proof (induction "fl_subCh (fw_listener w)" arbitrary: w)
  case Nil
  then show ?case by (intro exI [of _ w]) (simp add: undisturbed_def)
next
  case (Cons batch bs)
  let ?s = "fw_sessions w ! k"
  let ?w = "set_session k (?s\<lparr>ss_sent := ss_sent ?s @ [batch]\<rparr>) (takeSub (fw_listener w)) w"
  have "sendTake True k w = Some ?w" using Cons.prems Cons.hyps(2) [symmetric] by (simp add: sendTake_def Let_def)
  moreover have "\<not> ss_over ?s" using Cons.prems(2) by (simp add: healthy_def)
  ultimately have 1: "fin_world_step True cc q w ?w" using fin_world_step.send_take [of k w True True ?w] Cons.prems(1) by blast
  have u: "undisturbed k w ?w" "ss_connect (fw_sessions ?w ! k) = ss_connect ?s"
    using Cons.prems(1) by (simp_all add: undisturbed_def set_session_def takeSub_def healthy_def)
  have "bs = fl_subCh (fw_listener ?w)" using Cons.hyps(2) [symmetric] by (simp add: set_session_def takeSub_def)
  from Cons.hyps(1) [OF this] u Cons.prems obtain w' where w': "fin_world_steps True cc q ?w w'" "undisturbed k ?w w'"
    "fl_subCh (fw_listener w') = []" "ss_connect (fw_sessions w' ! k) = ss_connect (fw_sessions ?w ! k)"
    by (auto simp: undisturbed_def)
  have "fin_world_steps True cc q w w'" using 1 w'(1) by (rule converse_rtranclp_into_rtranclp)
  moreover have "undisturbed k w w'" using u(1) w'(2) by (rule undisturbed_trans)
  ultimately show ?case using w'(3,4) u(2) by auto
qed

lemma snapshot_progress:
  assumes "k < length (fw_sessions w)" and "finite (dom (fl_pending (fw_listener w)))"
  shows "\<exists>w'. fin_world_steps True cc q w w' \<and> undisturbed k w w' \<and> fl_subCh (fw_listener w') = fl_subCh (fw_listener w)
    \<and> ss_connect (fw_sessions w' ! k) \<noteq> Snapshotting"
proof (cases "ss_connect (fw_sessions w ! k) = Snapshotting")
  case True
  obtain order where o: "enumerates order (fl_pending (fw_listener w))"
    using finite_distinct_list [OF assms(2)] unfolding enumerates_def by blast
  let ?w = "set_session k ((fw_sessions w ! k)\<lparr>ss_connect := (if length order = 0 then Connected else Resending order)\<rparr>) (fw_listener w) w"
  have "connectSnapshot order k w = Some ?w" using True by (simp add: connectSnapshot_def Let_def)
  from fin_world_step.snapshot [OF assms(1) o this] have "fin_world_steps True cc q w ?w" by blast
  moreover have "undisturbed k w ?w" "fl_subCh (fw_listener ?w) = fl_subCh (fw_listener w)" "ss_connect (fw_sessions ?w ! k) \<noteq> Snapshotting"
    using assms(1) by (simp_all add: undisturbed_def set_session_def healthy_def)
  ultimately show ?thesis by blast
qed (auto simp: undisturbed_def)

lemma resend_progress:
  assumes "k < length (fw_sessions w)" and "ss_connect (fw_sessions w ! k) \<noteq> Snapshotting" and "fl_subCh (fw_listener w) = []"
  shows "\<exists>w'. fin_world_steps True cc q w w' \<and> undisturbed k w w'
    \<and> (\<exists>order. ss_connect (fw_sessions w' ! k) = Querying order \<or> ss_connect (fw_sessions w' ! k) = Connected)"
proof (cases "ss_connect (fw_sessions w ! k)")
  case (Resending order)
  let ?f = "(fw_listener w)\<lparr>fl_subCh := [order]\<rparr>"
  let ?w = "set_session k ((fw_sessions w ! k)\<lparr>ss_connect := Querying order\<rparr>) ?f w"
  have "connectResend k w = Some ?w" using Resending assms(3) by (simp add: connectResend_def Let_def sendSub_def subChCap_def)
  from fin_world_step.resend [OF assms(1) this] have "fin_world_steps True cc q w ?w" by blast
  moreover have "undisturbed k w ?w" "ss_connect (fw_sessions ?w ! k) = Querying order"
    using assms(1) by (simp_all add: undisturbed_def set_session_def healthy_def)
  ultimately show ?thesis by blast
qed (use assms(2) in \<open>auto simp: undisturbed_def\<close>)

lemma settle:
  assumes "k < length (fw_sessions w)" and "healthy (fw_sessions w ! k)" and "ss_loop (fw_sessions w ! k)"
    and "finite (dom (fl_pending (fw_listener w)))"
  shows "\<exists>w'. fin_world_steps True cc q w w' \<and> undisturbed k w w' \<and> settled (fw_sessions w' ! k) (fw_listener w')"
proof -
  from snapshot_progress [OF assms(1,4)] obtain w1 where 1: "fin_world_steps True cc q w w1" "undisturbed k w w1"
    "ss_connect (fw_sessions w1 ! k) \<noteq> Snapshotting" by blast
  with assms drain [of k w1 cc q] obtain w2 where 2: "fin_world_steps True cc q w1 w2" "undisturbed k w1 w2" "fl_subCh (fw_listener w2) = []"
    "ss_connect (fw_sessions w2 ! k) \<noteq> Snapshotting" by (auto simp: undisturbed_def)
  have u2: "undisturbed k w w2" using 1(2) 2(2) by (rule undisturbed_trans)
  with assms(1) resend_progress [of k w2 cc q] 2(3,4) obtain w3 order where 3: "fin_world_steps True cc q w2 w3" "undisturbed k w2 w3"
    "ss_connect (fw_sessions w3 ! k) = Querying order \<or> ss_connect (fw_sessions w3 ! k) = Connected" by (auto simp: undisturbed_def)
  have u3: "undisturbed k w w3" using u2 3(2) by (rule undisturbed_trans)
  with assms(1-3) drain [of k w3 cc q] obtain w4 where 4: "fin_world_steps True cc q w3 w4" "undisturbed k w3 w4" "fl_subCh (fw_listener w4) = []"
    "ss_connect (fw_sessions w4 ! k) = ss_connect (fw_sessions w3 ! k)" by (auto simp: undisturbed_def)
  have "settled (fw_sessions w4 ! k) (fw_listener w4)" using 3(3) 4(3,4) by (auto simp: settled_def)
  moreover have "undisturbed k w w4" using u3 4(2) by (rule undisturbed_trans)
  moreover have "fin_world_steps True cc q w w4" using 1(1) 2(1) 3(1) 4(1) by (meson rtranclp_trans)
  ultimately show ?thesis by blast
qed

text \<open>
  C20: No subscription is lost across reconnects, provided that the send loop of a session that is over takes nothing from the shared channel.
  While a session is healthy and its stream open, every transaction that somebody waits for is subscribed on this very stream
  as soon as nothing is left to be sent, also if it was registered before the session, while there was none, or during its
  snapshot. And the listener can always get there by its own steps.
\<close>

theorem finality_subscribed:
  assumes "fin_world_steps True cc q finStart w" and "k < length (fw_sessions w)" and "healthy (fw_sessions w ! k)" and "ss_opened (fw_sessions w ! k)"
  shows "(settled (fw_sessions w ! k) (fw_listener w) \<longrightarrow>
       (\<forall>tx. waits_for (fw_listener w) (fw_waiters w) tx \<longrightarrow> tx \<in> set (concat (ss_sent (fw_sessions w ! k)))))
    \<and> (\<exists>w'. fin_world_steps True cc q w w' \<and> fw_waiters w' = fw_waiters w \<and> fl_pending (fw_listener w') = fl_pending (fw_listener w)
         \<and> (\<forall>tx. waits_for (fw_listener w) (fw_waiters w) tx \<longrightarrow> tx \<in> set (concat (ss_sent (fw_sessions w' ! k)))))"
proof
  note inv = fin_world_subscribed [OF assms(1)]
  show "settled (fw_sessions w ! k) (fw_listener w) \<longrightarrow>
      (\<forall>tx. waits_for (fw_listener w) (fw_waiters w) tx \<longrightarrow> tx \<in> set (concat (ss_sent (fw_sessions w ! k))))"
    using subscribedD(3) [OF inv assms(2,3)] settled_sent by blast
  have "finite (dom (fl_pending (fw_listener w)))" using fin_world_sound [OF assms(1)] by (simp add: sound_def)
  from settle [OF assms(2,3) subscribedD(2) [OF inv assms(2-4)] this] obtain w' where w': "fin_world_steps True cc q w w'" "undisturbed k w w'"
    "settled (fw_sessions w' ! k) (fw_listener w')" by blast
  have "fin_world_steps True cc q finStart w'" using assms(1) w'(1) by (rule rtranclp_trans)
  then have "world_subscribed w'" by (rule fin_world_subscribed)
  moreover have "k < length (fw_sessions w')" "healthy (fw_sessions w' ! k)" using assms(2,3) w'(2) by (simp_all add: undisturbed_def)
  moreover have "waits_for (fw_listener w') (fw_waiters w') tx = waits_for (fw_listener w) (fw_waiters w) tx" for tx
    using w'(2) by (simp add: undisturbed_def waits_for_def)
  ultimately have "\<forall>tx. waits_for (fw_listener w) (fw_waiters w) tx \<longrightarrow> tx \<in> set (concat (ss_sent (fw_sessions w' ! k)))"
    using subscribedD(3) settled_sent [OF w'(3)] by blast
  with w' show "\<exists>w'. fin_world_steps True cc q w w' \<and> fw_waiters w' = fw_waiters w \<and> fl_pending (fw_listener w') = fl_pending (fw_listener w)
      \<and> (\<forall>tx. waits_for (fw_listener w) (fw_waiters w) tx \<longrightarrow> tx \<in> set (concat (ss_sent (fw_sessions w' ! k))))"
    unfolding undisturbed_def by blast
qed


subsection \<open>A send loop that outlives its session\<close>

text \<open>One transaction, two sessions: the world before the second session has sent the subscription, with the send loop of the first session still running.\<close>

definition first_session :: fin_world where
  "first_session = the (openStream 0 (the (runSession finStart)))"

definition first_waits :: fin_world where
  "first_waits = the (waitQueue 0 (waitStart ''t'' (the (connectSnapshot [] 0 first_session))))"

definition first_over :: fin_world where
  "first_over = the (notifyReturn 0 (the (breakStream 0 (the (sendTake True 0 first_waits)))))"

definition second_session :: fin_world where
  "second_session = the (openStream 1 (the (runSession first_over)))"

definition second_resent :: fin_world where
  "second_resent = the (connectReconcile None 1 (the (connectResend 1 (the (connectSnapshot [''t''] 1 second_session)))))"

lemma defined_Some: "\<not> Option.is_none x \<Longrightarrow> x = Some (the x)"
  by (simp add: Option.is_none_def)

lemma first_session_steps: "fin_world_steps joined cc q finStart first_session"
proof -
  have "runSession finStart = Some (the (runSession finStart))" by (rule defined_Some) code_simp
  then have 1: "fin_world_step joined cc q finStart (the (runSession finStart))" by (rule fin_world_step.session_run)
  have "openStream 0 (the (runSession finStart)) = Some first_session" unfolding first_session_def by (rule defined_Some) code_simp
  moreover have "0 < length (fw_sessions (the (runSession finStart)))" by code_simp
  ultimately have "fin_world_step joined cc q (the (runSession finStart)) first_session" by (rule fin_world_step.session_open [rotated])
  with 1 show ?thesis by (meson converse_rtranclp_into_rtranclp rtranclp.rtrancl_refl)
qed

lemma first_waits_steps: "fin_world_steps joined cc q first_session first_waits"
proof -
  let ?w1 = "the (connectSnapshot [] 0 first_session)"
  have "fl_pending (fw_listener first_session) = Map.empty"
    by (simp add: first_session_def world_ops finStart_def NewFinalityListener_def newSession_def)
  then have "enumerates [] (fl_pending (fw_listener first_session))" by simp
  moreover have "connectSnapshot [] 0 first_session = Some ?w1" by (rule defined_Some) code_simp
  moreover have "0 < length (fw_sessions first_session)" by code_simp
  ultimately have 1: "fin_world_step joined cc q first_session ?w1" by (metis fin_world_step.snapshot)
  have "waitQueue 0 (waitStart ''t'' ?w1) = Some first_waits" unfolding first_waits_def by (rule defined_Some) code_simp
  moreover have "0 < length (fw_waiters (waitStart ''t'' ?w1))" by code_simp
  ultimately have "fin_world_step joined cc q (waitStart ''t'' ?w1) first_waits" by (rule fin_world_step.wait_queue [rotated])
  with 1 fin_world_step.wait_start [of joined cc q ?w1 "''t''"] show ?thesis by (meson converse_rtranclp_into_rtranclp rtranclp.rtrancl_refl)
qed

lemma first_over_steps: "fin_world_steps joined cc q first_waits first_over"
proof -
  let ?w1 = "the (sendTake True 0 first_waits)"
  let ?w2 = "the (breakStream 0 ?w1)"
  have "sendTake True 0 first_waits = Some ?w1" by (rule defined_Some) code_simp
  moreover have "0 < length (fw_sessions first_waits)" "\<not> ss_over (fw_sessions first_waits ! 0)" by code_simp+
  ultimately have 1: "fin_world_step joined cc q first_waits ?w1" using fin_world_step.send_take by blast
  have "breakStream 0 ?w1 = Some ?w2" by (rule defined_Some) code_simp
  moreover have "0 < length (fw_sessions ?w1)" by code_simp
  ultimately have 2: "fin_world_step joined cc q ?w1 ?w2" by (rule fin_world_step.session_break [rotated])
  have "notifyReturn 0 ?w2 = Some first_over" unfolding first_over_def by (rule defined_Some) code_simp
  moreover have "0 < length (fw_sessions ?w2)" by code_simp
  ultimately have "fin_world_step joined cc q ?w2 first_over" by (rule fin_world_step.session_return [rotated])
  with 1 2 show ?thesis by (meson converse_rtranclp_into_rtranclp rtranclp.rtrancl_refl)
qed

lemma second_session_steps: "fin_world_steps joined cc q first_over second_session"
proof -
  let ?w1 = "the (runSession first_over)"
  have "runSession first_over = Some ?w1" by (rule defined_Some) code_simp
  then have 1: "fin_world_step joined cc q first_over ?w1" by (rule fin_world_step.session_run)
  have "openStream 1 ?w1 = Some second_session" unfolding second_session_def by (rule defined_Some) code_simp
  moreover have "1 < length (fw_sessions ?w1)" by code_simp
  ultimately have "fin_world_step joined cc q ?w1 second_session" by (rule fin_world_step.session_open [rotated])
  with 1 show ?thesis by (meson converse_rtranclp_into_rtranclp rtranclp.rtrancl_refl)
qed

lemma second_resent_steps: "fin_world_steps joined cc None second_session second_resent"
proof -
  let ?w1 = "the (connectSnapshot [''t''] 1 second_session)"
  let ?w2 = "the (connectResend 1 ?w1)"
  have "fl_pending (fw_listener second_session) = [''t'' \<mapsto> 0]"
    by (simp add: second_session_def first_over_def first_waits_def first_session_def world_ops finStart_def NewFinalityListener_def newSession_def
        waitStart_def registerPending_def sendSub_def subChCap_def takeSub_def)
  then have "enumerates [''t''] (fl_pending (fw_listener second_session))" by (simp add: enumerates_def)
  moreover have "connectSnapshot [''t''] 1 second_session = Some ?w1" by (rule defined_Some) code_simp
  moreover have "1 < length (fw_sessions second_session)" by code_simp
  ultimately have 1: "fin_world_step joined cc None second_session ?w1" by (metis fin_world_step.snapshot)
  have "connectResend 1 ?w1 = Some ?w2" by (rule defined_Some) code_simp
  moreover have "1 < length (fw_sessions ?w1)" by code_simp
  ultimately have 2: "fin_world_step joined cc None ?w1 ?w2" by (rule fin_world_step.resend [rotated])
  have "connectReconcile None 1 ?w2 = Some second_resent" unfolding second_resent_def by (rule defined_Some) code_simp
  moreover have "1 < length (fw_sessions ?w2)" by code_simp
  ultimately have "fin_world_step joined cc None ?w2 second_resent" by (rule fin_world_step.reconcile_pending [rotated])
  with 1 2 show ?thesis by (meson converse_rtranclp_into_rtranclp rtranclp.rtrancl_refl)
qed

lemma second_resent_reached: "fin_world_steps joined cc None finStart second_resent"
  using first_session_steps first_waits_steps first_over_steps second_session_steps second_resent_steps by (meson rtranclp_trans)

text \<open>
  C36: Without that proviso a subscription can be lost, for a peer that cannot be queried, as the Fabric-X peer is. The send loop
  of a session that is over may take the batch with which the next session subscribes again and drop it. Then the new session is
  healthy and its stream open, nothing is left to be sent, and a caller still waits and is registered, but nothing
  was ever sent on the stream.
\<close>

theorem finality_stale_loop:
  "\<exists>w. fin_world_steps False cc None finStart w \<and> length (fw_sessions w) = 2 \<and> healthy (fw_sessions w ! 1) \<and> ss_opened (fw_sessions w ! 1)
     \<and> ss_loop (fw_sessions w ! 1) \<and> settled (fw_sessions w ! 1) (fw_listener w)
     \<and> waits_for (fw_listener w) (fw_waiters w) ''t'' \<and> ss_sent (fw_sessions w ! 1) = []"
proof -
  let ?w = "the (sendTake False 0 second_resent)"
  have "sendTake False 0 second_resent = Some ?w" by (rule defined_Some) code_simp
  moreover have "0 < length (fw_sessions second_resent)" by code_simp
  ultimately have "fin_world_step False cc None second_resent ?w" using fin_world_step.send_take by blast
  with second_resent_reached have "fin_world_steps False cc None finStart ?w" by (rule rtranclp.rtrancl_into_rtrancl)
  moreover have "length (fw_sessions ?w) = 2" "healthy (fw_sessions ?w ! 1)" "ss_opened (fw_sessions ?w ! 1)" "ss_loop (fw_sessions ?w ! 1)"
    "settled (fw_sessions ?w ! 1) (fw_listener ?w)" "ss_sent (fw_sessions ?w ! 1) = []" by code_simp+
  moreover have "fw_waiters ?w = [\<lparr>wt_tx = ''t'', wt_pc = Awaiting 0\<rparr>]" "fl_pending (fw_listener ?w) ''t'' = Some 0" by code_simp+
  then have "waits_for (fw_listener ?w) (fw_waiters ?w) ''t''" by (simp add: waits_for_def)
  ultimately show ?thesis by blast
qed


definition timeout_response :: pb_NotificationResponse where
  "timeout_response = \<lparr>nr_TxStatusEvents = [], nr_TimeoutTxIds = [''t'']\<rparr>"

theorem wait_for_finality_witness:
  "\<exists>w1 w2 e. receiveResponse sample_committer_codes timeout_response 1 second_resent = Some w1 \<and> waitReceive 0 w1 = Some w2
     \<and> te_TxID e = ''t'' \<and> wt_pc (fw_waiters w2 ! 0) = Returned (Inr e)"
proof -
  have "0 < length (fw_waiters second_resent)" "''t'' = wt_tx (fw_waiters second_resent ! 0)" by code_simp+
  note T = wait_for_finality [OF second_resent_reached this, of sample_committer_codes]
  have "wt_pc (fw_waiters second_resent ! 0) = Awaiting 0" "fl_pending (fw_listener second_resent) ''t'' = Some 0"
    "1 < length (fw_sessions second_resent)" "ss_opened (fw_sessions second_resent ! 1)" by code_simp+
  moreover have "\<exists>e \<in> set (convertNotificationResponse sample_committer_codes timeout_response). te_TxID e = ''t''"
    by (simp add: convertNotificationResponse_def timeout_response_def)
  ultimately show ?thesis using T by blast
qed

theorem finality_subscribed_witness:
  "\<exists>w'. fin_world_steps True sample_committer_codes None second_resent w' \<and> ''t'' \<in> set (concat (ss_sent (fw_sessions w' ! 1)))"
proof -
  have "1 < length (fw_sessions second_resent)" "healthy (fw_sessions second_resent ! 1)" "ss_opened (fw_sessions second_resent ! 1)" by code_simp+
  note T = finality_subscribed [OF second_resent_reached this, of sample_committer_codes]
  have "fw_waiters second_resent = [\<lparr>wt_tx = ''t'', wt_pc = Awaiting 0\<rparr>]" "fl_pending (fw_listener second_resent) ''t'' = Some 0" by code_simp+
  then have "waits_for (fw_listener second_resent) (fw_waiters second_resent) ''t''" by (simp add: waits_for_def)
  with T show ?thesis by blast
qed


subsection \<open>A cancelled wait that takes another's registration\<close>

text \<open>
  \<open>Unregister\<close> goes by the transaction, not by the channel. A caller whose status has arrived but whose context is over too may
  take the way of the context; if somebody has registered for the same transaction in between, that
  registration is removed, and its caller can get no status any more.
\<close>

definition answered :: fin_world where
  "answered = the (receiveResponse sample_committer_codes timeout_response 0 first_waits)"

definition waits_again :: fin_world where
  "waits_again = the (waitQueue 1 (waitStart ''t'' answered))"

lemma cancel_removes_other:
  "\<exists>w. fin_world_steps joined sample_committer_codes q finStart w \<and> fw_waiters w ! 1 = \<lparr>wt_tx = ''t'', wt_pc = Awaiting 1\<rparr>
     \<and> fl_pending (fw_listener w) ''t'' = None \<and> fl_buffer (fw_listener w) 1 = []"
proof -
  let ?cc = sample_committer_codes and ?w = "the (waitCancel (Msg ''context canceled'' []) 0 waits_again)"
  have "receiveResponse ?cc timeout_response 0 first_waits = Some answered" unfolding answered_def by (rule defined_Some) code_simp
  moreover have "0 < length (fw_sessions first_waits)" by code_simp
  ultimately have 1: "fin_world_step joined ?cc q first_waits answered" by (rule fin_world_step.receive_response [rotated])
  have "waitQueue 1 (waitStart ''t'' answered) = Some waits_again" unfolding waits_again_def by (rule defined_Some) code_simp
  moreover have "1 < length (fw_waiters (waitStart ''t'' answered))" by code_simp
  ultimately have 2: "fin_world_step joined ?cc q (waitStart ''t'' answered) waits_again" by (rule fin_world_step.wait_queue [rotated])
  have "waitCancel (Msg ''context canceled'' []) 0 waits_again = Some ?w" by (rule defined_Some) code_simp
  moreover have "0 < length (fw_waiters waits_again)" by code_simp
  ultimately have 3: "fin_world_step joined ?cc q waits_again ?w" by (rule fin_world_step.wait_cancel [rotated])
  have "fin_world_steps joined ?cc q first_waits ?w"
    using 1 fin_world_step.wait_start 2 3 by (meson converse_rtranclp_into_rtranclp rtranclp.rtrancl_refl)
  with first_session_steps first_waits_steps have "fin_world_steps joined ?cc q finStart ?w" by (meson rtranclp_trans)
  moreover have "fw_waiters ?w ! 1 = \<lparr>wt_tx = ''t'', wt_pc = Awaiting 1\<rparr>" "Option.is_none (fl_pending (fw_listener ?w) ''t'')"
    "fl_buffer (fw_listener ?w) 1 = []" by code_simp+
  ultimately show ?thesis by (auto simp: Option.is_none_def)
qed

end
