(* ===== verification/Sqlite_Open.thy ===== *)
theory Sqlite_Open
  imports Prelude
begin

section \<open>Opening the database (state/sqlite/sqlite.go)\<close>

text \<open>
  Every connection of the pool gets the default pragmas, except those the connection string sets itself. The model
  follows the string functions of the standard library that the source uses, \<open>strings.Cut\<close>, \<open>TrimSpace\<close>, \<open>ToLower\<close>
  and \<open>url.ParseQuery\<close>, for ASCII strings. The driver is an argument: what opening a connection and executing a
  statement on it returns. What happens on a connection is a log.
\<close>

subsection \<open>Strings and queries\<close>

definition cut :: "char \<Rightarrow> string \<Rightarrow> string \<times> string" where
  "cut sep s = (let a = takeWhile (\<lambda>c. c \<noteq> sep) s in (a, drop (Suc (length a)) s))"

definition isSpace :: "char \<Rightarrow> bool" where
  "isSpace c \<longleftrightarrow> c \<in> {CHR 0x09, CHR 0x0A, CHR 0x0B, CHR 0x0C, CHR 0x0D, CHR 0x20}"

definition TrimSpace :: "string \<Rightarrow> string" where
  "TrimSpace s = rev (dropWhile isSpace (rev (dropWhile isSpace s)))"

definition lowerChar :: "char \<Rightarrow> char" where
  "lowerChar c = (let n = of_char c :: nat in if 0x41 \<le> n \<and> n \<le> 0x5A then char_of (n + 0x20) else c)"

definition ToLower :: "string \<Rightarrow> string" where
  "ToLower = map lowerChar"

definition afterLast :: "char \<Rightarrow> string \<Rightarrow> string" where
  "afterLast sep s = rev (takeWhile (\<lambda>c. c \<noteq> sep) (rev s))"

definition hexDigit :: "char \<Rightarrow> nat option" where
  "hexDigit c = (let n = of_char c :: nat in
     if 0x30 \<le> n \<and> n \<le> 0x39 then Some (n - 0x30)
     else if 0x61 \<le> n \<and> n \<le> 0x66 then Some (n - 0x61 + 10)
     else if 0x41 \<le> n \<and> n \<le> 0x46 then Some (n - 0x41 + 10) else None)"

fun QueryUnescape :: "string \<Rightarrow> string res" where
  "QueryUnescape [] = Inr []"
| "QueryUnescape (c # rest) =
     (if c = CHR ''%'' then
        (case rest of
           a # b # rest' \<Rightarrow>
             (case (hexDigit a, hexDigit b) of
                (Some x, Some y) \<Rightarrow>
                  (case QueryUnescape rest' of Inl e \<Rightarrow> Inl e | Inr s \<Rightarrow> Inr (char_of (16 * x + y) # s))
              | _ \<Rightarrow> Inl (Msg ''invalid URL escape %q'' [FQuo [c, a, b]]))
         | _ \<Rightarrow> Inl (Msg ''invalid URL escape %q'' [FQuo (c # rest)]))
      else
        (case QueryUnescape rest of Inl e \<Rightarrow> Inl e | Inr s \<Rightarrow> Inr ((if c = CHR ''+'' then CHR '' '' else c) # s)))"

fun splitOn :: "char \<Rightarrow> string \<Rightarrow> string list" where
  "splitOn sep [] = [[]]"
| "splitOn sep (c # s) =
     (if c = sep then [] # splitOn sep s
      else case splitOn sep s of [] \<Rightarrow> [[c]] | p # ps \<Rightarrow> (c # p) # ps)"

text \<open>One parameter of the query; the first error of any is the error of \<open>ParseQuery\<close>.\<close>

definition queryPair :: "string \<Rightarrow> (string \<times> string) list res" where
  "queryPair p =
     (if CHR '';'' \<in> set p then Inl (Msg ''invalid semicolon separator in query'' [])
      else if p = '''' then Inr []
      else case cut (CHR ''='') p of (k, v) \<Rightarrow>
        (case QueryUnescape k of Inl e \<Rightarrow> Inl e | Inr key \<Rightarrow>
        (case QueryUnescape v of Inl e \<Rightarrow> Inl e | Inr val \<Rightarrow> Inr [(key, val)])))"

fun queryPairs :: "string list \<Rightarrow> (string \<times> string) list res" where
  "queryPairs [] = Inr []"
| "queryPairs (p # ps) =
     (case queryPair p of Inl e \<Rightarrow> Inl e | Inr kv \<Rightarrow> (case queryPairs ps of Inl e \<Rightarrow> Inl e | Inr kvs \<Rightarrow> Inr (kv @ kvs)))"

definition ParseQuery :: "string \<Rightarrow> (string \<times> string) list res" where
  "ParseQuery q = queryPairs (splitOn (CHR ''&'') q)"

subsection \<open>Pragmas\<close>

definition defaultPragmas :: "(string \<times> string) list" where
  "defaultPragmas = [(''busy_timeout'', ''5000''), (''journal_mode'', ''WAL''), (''foreign_keys'', ''ON''),
     (''synchronous'', ''NORMAL''), (''cache_size'', ''-64000''), (''temp_store'', ''MEMORY'')]"

definition dsnShorthands :: "(string \<times> string) list" where
  "dsnShorthands = [(''_busy_timeout'', ''busy_timeout''), (''_timeout'', ''busy_timeout''),
     (''_journal_mode'', ''journal_mode''), (''_journal'', ''journal_mode''), (''_foreign_keys'', ''foreign_keys''),
     (''_fk'', ''foreign_keys''), (''_synchronous'', ''synchronous''), (''_sync'', ''synchronous'')]"

definition pragmaName :: "string \<Rightarrow> string" where
  "pragmaName v =
     (let name = fst (cut (CHR ''('') v);
          name = fst (cut (CHR ''='') name);
          name = ToLower (TrimSpace name)
      in if CHR ''.'' \<in> set name then afterLast (CHR ''.'') name else name)"

definition dsnQuery :: "string \<Rightarrow> string option" where
  "dsnQuery dsn =
     (let pos = length (takeWhile (\<lambda>c. c \<noteq> CHR ''?'') dsn) in
      if pos \<ge> 1 \<and> pos < length dsn then Some (drop (pos + 1) dsn) else None)"

definition dsnSets :: "(string \<times> string) list \<Rightarrow> string list" where
  "dsnSets q =
     map snd (filter (\<lambda>(key, name). key \<in> fst ` set q) dsnShorthands)
     @ map (\<lambda>(k, v). pragmaName v) (filter (\<lambda>(k, v). k = ''_pragma'') q)"

definition pragmaStmt :: "string \<times> string \<Rightarrow> string" where
  "pragmaStmt p = ''PRAGMA '' @ fst p @ ''='' @ snd p"

definition pragmasFor :: "string \<Rightarrow> string list res" where
  "pragmasFor dsn =
     (case (case dsnQuery dsn of None \<Rightarrow> Inr [] | Some q \<Rightarrow>
              (case ParseQuery q of
                 Inl err \<Rightarrow> Inl (Msg ''parse connection string parameters: %w'' [FErr err])
               | Inr kvs \<Rightarrow> Inr (dsnSets kvs))) of
        Inl err \<Rightarrow> Inl err
      | Inr s \<Rightarrow> Inr (map pragmaStmt (filter (\<lambda>p. fst p \<notin> set s) defaultPragmas)))"

subsection \<open>Connections\<close>

record sqlite_driver =
  drv_Open :: "string \<Rightarrow> unit res"
  drv_execer :: bool
  drv_Exec :: "string \<Rightarrow> goerror option"

record connector =
  con_drv :: sqlite_driver
  con_dsn :: string
  con_pragmas :: "string list"

datatype conn_event = Executed string | ConnClosed

fun runPragmas :: "sqlite_driver \<Rightarrow> string list \<Rightarrow> conn_event list \<times> unit res" where
  "runPragmas drv [] = ([], Inr ())"
| "runPragmas drv (p # ps) =
     (case drv_Exec drv p of
        Some err \<Rightarrow> ([ConnClosed], Inl (Msg ''set pragma %q: %w'' [FQuo p, FErr err]))
      | None \<Rightarrow> (case runPragmas drv ps of (log, r) \<Rightarrow> (Executed p # log, r)))"

definition Connect :: "connector \<Rightarrow> conn_event list \<times> unit res" where
  "Connect c =
     (case drv_Open (con_drv c) (con_dsn c) of
        Inl err \<Rightarrow> ([], Inl err)
      | Inr _ \<Rightarrow>
          if \<not> drv_execer (con_drv c)
          then ([ConnClosed], Inl (Msg ''sqlite connection %T cannot execute statements'' []))
          else runPragmas (con_drv c) (con_pragmas c))"

record sqlite_DB =
  sq_connector :: connector
  sq_maxOpen :: int
  sq_maxIdle :: int

text \<open>
  \<open>sql.Open\<close> only fails for a driver that is not registered, the argument \<open>registered\<close>. The ping opens the first
  connection.
\<close>

definition sqlite_open :: "sqlite_driver \<Rightarrow> goerror option \<Rightarrow> string \<Rightarrow> int \<Rightarrow> int \<Rightarrow> sqlite_DB res" where
  "sqlite_open drv registered path maxOpen maxIdle =
     (case pragmasFor path of
        Inl err \<Rightarrow> Inl (Msg ''open sqlite: %w'' [FErr err])
      | Inr pragmas \<Rightarrow>
     (case registered of
        Some err \<Rightarrow> Inl (Msg ''open sqlite: %w'' [FErr err])
      | None \<Rightarrow>
          (let c = \<lparr>con_drv = drv, con_dsn = path, con_pragmas = pragmas\<rparr> in
           case snd (Connect c) of
             Inl err \<Rightarrow> Inl (Msg ''open sqlite: %w'' [FErr err])
           | Inr _ \<Rightarrow> Inr \<lparr>sq_connector = c, sq_maxOpen = maxOpen, sq_maxIdle = maxIdle\<rparr>)))"

definition sqlite_Open :: "sqlite_driver \<Rightarrow> goerror option \<Rightarrow> string \<Rightarrow> sqlite_DB res" where
  "sqlite_Open drv registered path = sqlite_open drv registered path 1 1"

definition sqlite_OpenReadOnly :: "int \<Rightarrow> sqlite_driver \<Rightarrow> goerror option \<Rightarrow> string \<Rightarrow> sqlite_DB res" where
  "sqlite_OpenReadOnly numCPU drv registered path = sqlite_open drv registered path (max 4 numCPU) 4"
subsection \<open>The name of a pragma\<close>

definition ident :: "string \<Rightarrow> bool" where
  "ident s \<longleftrightarrow> s \<noteq> [] \<and> list_all (\<lambda>c. \<not> isSpace c \<and> c \<notin> {CHR ''('', CHR ''='', CHR ''.''}) s"

lemma lowerChar_dot: "lowerChar c = CHR ''.'' \<longleftrightarrow> c = CHR ''.''"
proof -
  have "of_char (lowerChar c) = (0x2E :: nat) \<longleftrightarrow> of_char c = (0x2E :: nat)"
    by (auto simp: lowerChar_def Let_def of_char_of)
  moreover have "of_char d = (0x2E :: nat) \<longleftrightarrow> d = CHR ''.''" for d
    using of_char_eq_iff [of d "CHR ''.''", where 'a = nat] by simp
  ultimately show ?thesis by simp
qed

lemma ToLower_simps [simp]:
  "ToLower (a @ b) = ToLower a @ ToLower b" "ToLower (c # s) = lowerChar c # ToLower s" "ToLower [] = []"
  "lowerChar (CHR ''.'') = CHR ''.''"
  by (simp_all add: ToLower_def lowerChar_dot)

lemma dot_ToLower: "CHR ''.'' \<in> set (ToLower s) \<longleftrightarrow> CHR ''.'' \<in> set s"
proof (induction s)
  case (Cons c s)
  have "CHR ''.'' = lowerChar c \<longleftrightarrow> CHR ''.'' = c" using lowerChar_dot [of c] by (simp only: eq_commute)
  with Cons show ?case by simp
qed simp

lemma TrimSpace_padded:
  assumes "list_all isSpace a" and "list_all isSpace b" and "m \<noteq> []" and "\<not> isSpace (hd m)" and "\<not> isSpace (last m)"
  shows "TrimSpace (a @ m @ b) = m"
proof -
  have d: "dropWhile isSpace (x @ y) = y" if "list_all isSpace x" "y \<noteq> []" "\<not> isSpace (hd y)" for x y
    using that by (simp add: dropWhile_append2 list_all_iff dropWhile_eq_self_iff)
  have "dropWhile isSpace (a @ m @ b) = m @ b" using assms by (intro d) simp_all
  moreover have "dropWhile isSpace (rev b @ rev m) = rev m" using assms by (intro d) (simp_all add: hd_rev list_all_iff)
  ultimately show ?thesis by (simp add: TrimSpace_def)
qed

lemma cut_absent: "sep \<notin> set a \<Longrightarrow> fst (cut sep (a @ sep # b)) = a" "sep \<notin> set a \<Longrightarrow> fst (cut sep a) = a"
proof -
  assume "sep \<notin> set a"
  then have "\<forall>c \<in> set a. c \<noteq> sep" by metis
  then show "fst (cut sep (a @ sep # b)) = a" "fst (cut sep a) = a"
    by (simp_all add: cut_def Let_def takeWhile_append2 takeWhile_eq_all_conv)
qed

lemma cut_arg:
  assumes "CHR ''('' \<notin> set body" and "CHR ''='' \<notin> set body"
    and "arg = [] \<or> (\<exists>x. arg = CHR ''('' # x \<or> arg = CHR ''='' # x)"
  shows "fst (cut (CHR ''='') (fst (cut (CHR ''('') (body @ arg)))) = body"
proof -
  consider "arg = []" | x where "arg = CHR ''('' # x" | x where "arg = CHR ''='' # x" using assms(3) by blast
  then show ?thesis
  proof cases
    case 3
    have "fst (cut (CHR ''('') (body @ CHR ''='' # x)) = body @ CHR ''='' # takeWhile (\<lambda>c. c \<noteq> CHR ''('') x"
      using assms(1) by (subst cut_def) (auto simp: Let_def takeWhile_append)
    with 3 cut_absent(1) [OF assms(2)] show ?thesis by simp
  qed (simp_all add: cut_absent assms)
qed

text \<open>A value of \<open>_pragma\<close> names the pragma in any of the documented forms.\<close>

lemma pragmaName_form:
  assumes "ident name" and "schema = [] \<or> (\<exists>s. ident s \<and> schema = s @ ''.'')"
    and "list_all isSpace a" and "list_all isSpace b"
    and "arg = [] \<or> (\<exists>x. arg = CHR ''('' # x \<or> arg = CHR ''='' # x)"
  shows "pragmaName (a @ (schema @ name) @ b @ arg) = ToLower name"
proof -
  let ?body = "a @ (schema @ name) @ b"
  have sp: "c \<notin> {CHR ''('', CHR ''=''}" if "isSpace c" for c using that by (auto simp: isSpace_def)
  have clean: "CHR ''('' \<notin> set ?body" "CHR ''='' \<notin> set ?body"
    using assms(1-4) sp by (fastforce simp: ident_def list_all_iff)+
  note c = cut_arg [OF clean assms(5)]
  have t: "TrimSpace ?body = schema @ name"
    by (rule TrimSpace_padded) (use assms(1-4) in \<open>auto simp: ident_def list_all_iff neq_Nil_conv last_in_set hd_append\<close>)
  have n: "CHR ''.'' \<notin> set name" using assms(1) by (auto simp: ident_def list_all_iff)
  have low: "pragmaName (?body @ arg) = (if CHR ''.'' \<in> set (schema @ name) then afterLast (CHR ''.'') (ToLower (schema @ name))
      else ToLower (schema @ name))"
    unfolding pragmaName_def Let_def c t dot_ToLower ..
  show ?thesis
  proof (cases "schema = []")
    case True
    with low n show ?thesis by simp
  next
    case False
    with assms(2) obtain s where s: "schema = s @ ''.''" by blast
    have "\<forall>c \<in> set (rev (ToLower name)). c \<noteq> CHR ''.''" using n dot_ToLower by auto
    then have tw: "takeWhile (\<lambda>c. c \<noteq> CHR ''.'') (rev (ToLower name)) = rev (ToLower name)"
      by (simp only: takeWhile_eq_all_conv)
    have "afterLast (CHR ''.'') (ToLower (schema @ name)) = ToLower name"
      by (simp add: afterLast_def takeWhile_tail s tw)
    with low s show ?thesis by simp
  qed
qed


subsection \<open>What a connection is set to\<close>

lemma runPragmas_ok: "runPragmas drv ps = (log, Inr ()) \<Longrightarrow> log = map Executed ps"
  by (induction drv ps arbitrary: log rule: runPragmas.induct) (auto split: option.splits prod.splits)

lemma runPragmas_failed: "runPragmas drv ps = (log, Inl e) \<Longrightarrow> last log = ConnClosed \<and> log \<noteq> []"
  by (induction drv ps arbitrary: log rule: runPragmas.induct) (auto split: option.splits prod.splits)

lemma Connect_ok: "snd (Connect c) = Inr () \<Longrightarrow> Connect c = (map Executed (con_pragmas c), Inr ())"
  by (auto simp: Connect_def split: sum.splits if_splits) (metis prod.collapse runPragmas_ok)


definition sample_driver :: sqlite_driver where
  "sample_driver = \<lparr>drv_Open = (\<lambda>_. Inr ()), drv_execer = True, drv_Exec = (\<lambda>_. None)\<rparr>"

definition sample_path :: string where
  "sample_path = ''x.db?_fk=1&_pragma=Main.Cache_Size(-5)''"


end
