(* ===== verification/Identity.thy ===== *)
theory Identity
  imports Proto
begin

section \<open>Identities (identity/msp.go)\<close>

text \<open>
  A signer from an MSP folder. Files, PEM, X.509, ECDSA and the marshalling of identities are the record
  \<open>msp_env\<close>, and so is the joining of paths. The randomness of a signature is part of the
  function that signs. \<open>asSigner\<close> is the signer as the interface \<open>sdk.Signer\<close>.
\<close>

record 'k msp_env =
  Join :: "string list \<Rightarrow> string"
  Glob :: "string \<Rightarrow> string list res"
  msp_ReadFile :: "string \<Rightarrow> bytes res"
  PemDecode :: "bytes \<Rightarrow> (string \<times> bytes) option"
  ParsePKCS8 :: "bytes \<Rightarrow> 'k option res"
  ParseCertificate :: "bytes \<Rightarrow> unit res"
  Sum256 :: "bytes \<Rightarrow> bytes"
  ecdsa_Sign :: "'k \<Rightarrow> bytes \<Rightarrow> (int \<times> int) res"
  ToLowS :: "'k \<Rightarrow> int \<Rightarrow> int res"
  MarshalECDSASignature :: "int \<Rightarrow> int \<Rightarrow> bytes res"
  ma_SerializedIdentity :: "string \<Rightarrow> bytes \<Rightarrow> bytes res"
  ma_IdentityWithIDOfCert :: "string \<Rightarrow> string \<Rightarrow> bytes res"

record 'k id_Signer =
  priv_sk :: 'k
  signcert :: bytes
  mspID :: string
  serialized :: bytes

definition parsePrivateKey :: "'k msp_env \<Rightarrow> bytes \<Rightarrow> 'k res" where
  "parsePrivateKey env privPEM =
     (case PemDecode env privPEM of
        None \<Rightarrow> Inl (Msg ''failed to decode PEM private key'' [])
      | Some (typ, b) \<Rightarrow>
          (case ParsePKCS8 env b of
             Inl err \<Rightarrow> Inl (wrap ''parse pkcs8 private key: %w'' err)
           | Inr None \<Rightarrow> Inl (Msg ''not an ECDSA private key'' [])
           | Inr (Some pk) \<Rightarrow> Inr pk))"

text \<open>A glob that failed or found nothing; an error that is nil is printed as \<open>%!w(<nil>)\<close>.\<close>

definition noFiles :: "string list res \<Rightarrow> bool" where
  "noFiles g = (case g of Inl _ \<Rightarrow> True | Inr fs \<Rightarrow> length fs = 0)"

definition wrapped :: "string list res \<Rightarrow> fmt_arg" where
  "wrapped g = (case g of Inl err \<Rightarrow> FErr err | Inr _ \<Rightarrow> FStr ''%!w(<nil>)'')"

definition SignerFromMSP :: "'k msp_env \<Rightarrow> string \<Rightarrow> string \<Rightarrow> 'k id_Signer res" where
  "SignerFromMSP env dir msp =
     (let sk = Glob env (Join env [dir, ''keystore'', ''*_sk'']);
          keyFiles = (if noFiles sk then Glob env (Join env [dir, ''keystore'', ''*.pem'']) else sk) in
      if noFiles keyFiles
      then Inl (Msg ''no private key found in path %s: %w'' [FStr (Join env [dir, ''keystore'']), wrapped keyFiles])
      else
        (case msp_ReadFile env (hd (projr keyFiles)) of Inl err \<Rightarrow> Inl err | Inr privBytes \<Rightarrow>
        (case parsePrivateKey env privBytes of Inl err \<Rightarrow> Inl err | Inr pk \<Rightarrow>
         let certFiles = Glob env (Join env [dir, ''signcerts'', ''*.pem'']) in
         if noFiles certFiles then Inl (Msg ''no signcert found: %w'' [wrapped certFiles])
         else
           (case msp_ReadFile env (hd (projr certFiles)) of Inl err \<Rightarrow> Inl err | Inr certPEM \<Rightarrow>
           (case ma_SerializedIdentity env msp certPEM of
              Inl err \<Rightarrow> Inl (wrap ''serialize certificate identity: %w'' err)
            | Inr s \<Rightarrow> Inr \<lparr>priv_sk = pk, signcert = certPEM, mspID = msp, serialized = s\<rparr>)))))"

definition id_sign :: "'k msp_env \<Rightarrow> 'k \<Rightarrow> bytes \<Rightarrow> bytes res" where
  "id_sign env k message =
     (case ecdsa_Sign env k (Sum256 env message) of Inl err \<Rightarrow> Inl err | Inr (r, s) \<Rightarrow>
     (case ToLowS env k s of Inl err \<Rightarrow> Inl err | Inr s' \<Rightarrow> MarshalECDSASignature env r s'))"

definition id_Sign :: "'k msp_env \<Rightarrow> 'k id_Signer \<Rightarrow> bytes \<Rightarrow> bytes res" where
  "id_Sign env s msg = id_sign env (priv_sk s) msg"

definition id_Serialize :: "'k id_Signer \<Rightarrow> bytes res" where
  "id_Serialize s = Inr (serialized s)"

definition hexNibble :: "nat \<Rightarrow> char" where
  "hexNibble n = (if n < 10 then char_of (0x30 + n) else char_of (0x57 + n))"

definition hexEncode :: "bytes \<Rightarrow> string" where
  "hexEncode b = concat (map (\<lambda>c. let n = of_char c :: nat in [hexNibble (n div 16), hexNibble (n mod 16)]) b)"

definition WithCertificateID :: "'k msp_env \<Rightarrow> string \<Rightarrow> 'k id_Signer \<Rightarrow> 'k id_Signer res" where
  "WithCertificateID env certificateID s =
     (if certificateID = '''' then Inl (Msg ''certificate ID must not be empty'' [])
      else
        (case ma_IdentityWithIDOfCert env (mspID s) certificateID of
           Inl err \<Rightarrow> Inl (wrap ''serialize certificate ID identity: %w'' err)
         | Inr b \<Rightarrow> Inr (s\<lparr>serialized := b\<rparr>)))"

definition WithCertificateHash :: "'k msp_env \<Rightarrow> 'k id_Signer \<Rightarrow> 'k id_Signer res" where
  "WithCertificateHash env s =
     (case PemDecode env (signcert s) of
        None \<Rightarrow> Inl (Msg ''failed to decode PEM sign certificate'' [])
      | Some (typ, der) \<Rightarrow>
          if typ \<noteq> ''CERTIFICATE'' then Inl (Msg ''failed to decode PEM sign certificate'' [])
          else
            (case ParseCertificate env der of
               Inl err \<Rightarrow> Inl (wrap ''parse sign certificate: %w'' err)
             | Inr _ \<Rightarrow> WithCertificateID env (hexEncode (Sum256 env der)) s))"

definition asSigner :: "'k msp_env \<Rightarrow> 'k id_Signer \<Rightarrow> Signer" where
  "asSigner env s = \<lparr>Sign = id_Sign env s, Serialize = id_Serialize s\<rparr>"

subsection \<open>Signers that are known by a certificate id\<close>

text \<open>The signer of the test network (fabrictest/signer.go): a fixed signature, and an identity that is a message like any other.\<close>

definition MockSigner :: "'k msp_env \<Rightarrow> Signer" where
  "MockSigner env = \<lparr>Sign = (\<lambda>_. Inr ''signature''), Serialize = ma_SerializedIdentity env ''test-msp'' ''serialised identity''\<rparr>"

lemma WithCertificateID_Inr:
  "WithCertificateID env cid s = Inr s' \<longleftrightarrow>
     cid \<noteq> '''' \<and> (\<exists>b. ma_IdentityWithIDOfCert env (mspID s) cid = Inr b \<and> s' = s\<lparr>serialized := b\<rparr>)"
  by (auto simp: WithCertificateID_def split: sum.splits)

lemma hexEncode_length: "length (hexEncode b) = 2 * length b"
  by (induction b) (simp_all add: hexEncode_def Let_def)

text \<open>
  Using a certificate id changes who the signer says it is and nothing else: it signs as before, and doing it
  again, or with another id, gives what doing only the last does.
\<close>

lemma certificate_id_only_renames:
  assumes "WithCertificateHash env s = Inr s'"
  shows "Sign (asSigner env s') = Sign (asSigner env s) \<and> signcert s' = signcert s \<and> mspID s' = mspID s
    \<and> WithCertificateID env cid s' = WithCertificateID env cid s \<and> WithCertificateHash env s' = WithCertificateHash env s"
proof -
  from assms obtain cid' where "WithCertificateID env cid' s = Inr s'"
    by (auto simp: WithCertificateHash_def split: option.splits sum.splits if_splits)
  then obtain b where "s' = s\<lparr>serialized := b\<rparr>" unfolding WithCertificateID_Inr by blast
  then show ?thesis
    by (simp add: asSigner_def id_Sign_def fun_eq_iff WithCertificateHash_def WithCertificateID_def split: option.splits sum.splits)
qed
end
