(* ===== verification/Logging.thy ===== *)
theory Logging
  imports Prelude
begin

section \<open>Logging (logging.go)\<close>

text \<open>
  The three loggers. What the standard logger and the test have printed are two lists of lines, a line is a
  template with its arguments. A test runs, then its function returns, then its cleanups run, the last
  registered first, then it is completed; \<open>t.Logf\<close> of a completed test panics. The mutex of a test logger is held
  over a whole call, so a call and the cleanup are single steps.
\<close>

subsection \<open>Loggers\<close>

type_synonym log_line = "string \<times> fmt_arg list"

record 'w Logger =
  Debugf :: "string \<Rightarrow> fmt_arg list \<Rightarrow> 'w \<Rightarrow> 'w result"
  Infof :: "string \<Rightarrow> fmt_arg list \<Rightarrow> 'w \<Rightarrow> 'w result"
  Warnf :: "string \<Rightarrow> fmt_arg list \<Rightarrow> 'w \<Rightarrow> 'w result"
  Errorf :: "string \<Rightarrow> fmt_arg list \<Rightarrow> 'w \<Rightarrow> 'w result"

definition NoOpLogger :: "'w Logger" where
  "NoOpLogger = \<lparr>Debugf = (\<lambda>template args w. Ok w), Infof = (\<lambda>template args w. Ok w),
     Warnf = (\<lambda>template args w. Ok w), Errorf = (\<lambda>template args w. Ok w)\<rparr>"

record TestLogger =
  tl_prefix :: string
  tl_done :: bool

record test_world =
  w_stderr :: "log_line list"
  w_test :: string
  w_log :: "log_line list"
  w_loggers :: "TestLogger list"
  w_cleanups :: "nat list"
  w_returned :: bool
  w_completed :: bool

definition log_Printf :: "string \<Rightarrow> fmt_arg list \<Rightarrow> test_world \<Rightarrow> test_world result" where
  "log_Printf format args w = Ok (w\<lparr>w_stderr := w_stderr w @ [(format, args)]\<rparr>)"

definition t_Logf :: "string \<Rightarrow> fmt_arg list \<Rightarrow> test_world \<Rightarrow> test_world result" where
  "t_Logf format args w = (if w_completed w then Panic else Ok (w\<lparr>w_log := w_log w @ [(format, args)]\<rparr>))"

definition NewStdLogger :: "string \<Rightarrow> test_world Logger" where
  "NewStdLogger component =
     \<lparr>Debugf = (\<lambda>template args. log_Printf (''[%s] [DEBUG] '' @ template) (FStr component # args)),
      Infof = (\<lambda>template args. log_Printf (''[%s] [INFO] '' @ template) (FStr component # args)),
      Warnf = (\<lambda>template args. log_Printf (''[%s] [WARN] '' @ template) (FStr component # args)),
      Errorf = (\<lambda>template args. log_Printf (''[%s] [ERROR] '' @ template) (FStr component # args))\<rparr>"

subsection \<open>Test loggers\<close>

text \<open>A test logger is its position among the loggers of the test.\<close>

definition NewTestLogger :: "string \<Rightarrow> test_world \<Rightarrow> test_world \<times> nat" where
  "NewTestLogger component w =
     (let l = length (w_loggers w) in
      (w\<lparr>w_loggers := w_loggers w @ [\<lparr>tl_prefix = component, tl_done = False\<rparr>], w_cleanups := l # w_cleanups w\<rparr>, l))"

definition logger_cleanup :: "nat \<Rightarrow> test_world \<Rightarrow> test_world" where
  "logger_cleanup l w = w\<lparr>w_loggers := (w_loggers w)[l := (w_loggers w ! l)\<lparr>tl_done := True\<rparr>]\<rparr>"

definition logf :: "nat \<Rightarrow> string \<Rightarrow> string \<Rightarrow> fmt_arg list \<Rightarrow> test_world \<Rightarrow> test_world result" where
  "logf l level template args w =
     (if tl_done (w_loggers w ! l) then
        log_Printf (''[%s] [%s] (after %s) '' @ template) ([FStr (tl_prefix (w_loggers w ! l)), FStr level, FStr (w_test w)] @ args) w
      else t_Logf (''[%s] [%s] '' @ template) ([FStr (tl_prefix (w_loggers w ! l)), FStr level] @ args) w)"

definition testLogger :: "nat \<Rightarrow> test_world Logger" where
  "testLogger l = \<lparr>Debugf = logf l ''DEBUG'', Infof = logf l ''INFO'', Warnf = logf l ''WARN'', Errorf = logf l ''ERROR''\<rparr>"

subsection \<open>A test with its goroutines\<close>

definition testStart :: "string \<Rightarrow> test_world" where
  "testStart name = \<lparr>w_stderr = [], w_test = name, w_log = [], w_loggers = [], w_cleanups = [], w_returned = False, w_completed = False\<rparr>"

datatype test_action =
  Create string
| Log nat string string "fmt_arg list"
| Return
| Cleanup
| Complete

text \<open>
  A logger is created while the test is not completed, in a cleanup at the latest. A call of a logger can happen at any time:
  a goroutine may outlive the test. An action that cannot happen in a state is \<^term>\<open>None\<close>.
\<close>

fun test_do :: "test_action \<Rightarrow> test_world \<Rightarrow> test_world result option" where
  "test_do (Create component) w = (if w_completed w then None else Some (Ok (fst (NewTestLogger component w))))"
| "test_do (Log l level template args) w = (if l < length (w_loggers w) then Some (logf l level template args w) else None)"
| "test_do Return w = (if w_returned w then None else Some (Ok (w\<lparr>w_returned := True\<rparr>)))"
| "test_do Cleanup w = (case w_cleanups w of [] \<Rightarrow> None
     | l # ls \<Rightarrow> if w_returned w then Some (Ok (logger_cleanup l (w\<lparr>w_cleanups := ls\<rparr>))) else None)"
| "test_do Complete w = (if w_returned w \<and> w_cleanups w = [] \<and> \<not> w_completed w then Some (Ok (w\<lparr>w_completed := True\<rparr>)) else None)"

fun test_run :: "test_action list \<Rightarrow> test_world \<Rightarrow> test_world result option" where
  "test_run [] w = Some (Ok w)"
| "test_run (a # as) w =
     (case test_do a w of
        Some (Ok w') \<Rightarrow> test_run as w'
      | r \<Rightarrow> r)"

definition logged :: "test_action list \<Rightarrow> nat" where
  "logged as = length (filter (\<lambda>a. case a of Log _ _ _ _ \<Rightarrow> True | _ \<Rightarrow> False) as)"

definition log_inv :: "test_world \<Rightarrow> bool" where
  "log_inv w \<longleftrightarrow> sorted_wrt (>) (w_cleanups w) \<and> (w_completed w \<longrightarrow> w_cleanups w = [])
     \<and> (\<forall>l. l \<in> set (w_cleanups w) \<longleftrightarrow> l < length (w_loggers w) \<and> \<not> tl_done (w_loggers w ! l))"


lemma log_invD:
  assumes "log_inv w"
  shows "sorted_wrt (>) (w_cleanups w)" and "w_completed w \<Longrightarrow> w_cleanups w = []"
    and "l \<in> set (w_cleanups w) \<longleftrightarrow> l < length (w_loggers w) \<and> \<not> tl_done (w_loggers w ! l)"
  using assms unfolding log_inv_def by blast+

lemma log_inv_start: "log_inv (testStart name)"
  by (simp add: log_inv_def testStart_def)

lemma logf_inv:
  assumes "log_inv w" and "l < length (w_loggers w)"
  shows "logf l level template args w =
    (if l \<in> set (w_cleanups w)
     then Ok (w\<lparr>w_log := w_log w @ [(''[%s] [%s] '' @ template, [FStr (tl_prefix (w_loggers w ! l)), FStr level] @ args)]\<rparr>)
     else Ok (w\<lparr>w_stderr := w_stderr w @ [(''[%s] [%s] (after %s) '' @ template,
       [FStr (tl_prefix (w_loggers w ! l)), FStr level, FStr (w_test w)] @ args)]\<rparr>))"
proof (cases "tl_done (w_loggers w ! l)")
  case True
  with assms have "l \<notin> set (w_cleanups w)" by (simp add: log_invD)
  with True show ?thesis by (simp add: logf_def log_Printf_def)
next
  case False
  with assms have l: "l \<in> set (w_cleanups w)" by (simp add: log_invD)
  with log_invD(2) [OF assms(1)] have "\<not> w_completed w" by (cases "w_completed w") simp_all
  with False l show ?thesis by (simp add: logf_def t_Logf_def)
qed

lemma NewTestLogger_inv:
  assumes "log_inv w" and "\<not> w_completed w"
  shows "log_inv (fst (NewTestLogger component w))"
proof -
  have "k \<in> set (length (w_loggers w) # w_cleanups w) \<longleftrightarrow> k < Suc (length (w_loggers w))
      \<and> \<not> tl_done ((w_loggers w @ [\<lparr>tl_prefix = component, tl_done = False\<rparr>]) ! k)" for k
    by (cases "k = length (w_loggers w)") (simp_all add: log_invD(3) [OF assms(1)] nth_append less_Suc_eq cong: conj_cong)
  then show ?thesis using assms(2) log_invD(1,3) [OF assms(1)] by (simp add: NewTestLogger_def Let_def log_inv_def)
qed

lemma logger_cleanup_inv:
  assumes "log_inv w" and "w_cleanups w = l # ls"
  shows "log_inv (logger_cleanup l (w\<lparr>w_cleanups := ls\<rparr>))"
proof -
  have s: "sorted_wrt (>) (l # ls)" using log_invD(1) [OF assms(1)] unfolding assms(2) .
  have n: "\<not> w_completed w" using log_invD(2) [OF assms(1)] assms(2) by (cases "w_completed w") simp_all
  from s have "l \<notin> set ls" by auto
  then have "k \<in> set ls \<longleftrightarrow> k < length (w_loggers w) \<and> \<not> tl_done ((w_loggers w)[l := (w_loggers w ! l)\<lparr>tl_done := True\<rparr>] ! k)" for k
    using log_invD(3) [OF assms(1), of k] unfolding assms(2) by (cases "k = l") simp_all
  with s n show ?thesis by (simp add: log_inv_def logger_cleanup_def)
qed

lemma test_do_inv:
  assumes "log_inv w" and "test_do a w = Some r"
  shows "\<exists>w'. r = Ok w' \<and> log_inv w' \<and> length (w_log w') + length (w_stderr w') = length (w_log w) + length (w_stderr w) + logged [a]"
proof (cases a)
  case (Create component)
  with assms NewTestLogger_inv show ?thesis by (auto simp: logged_def NewTestLogger_def Let_def split: if_splits)
next
  case (Log l level template args)
  with assms(2) have l: "l < length (w_loggers w)" "r = logf l level template args w" by (simp_all split: if_splits)
  show ?thesis using logf_inv [OF assms(1) l(1)] assms(1) unfolding l(2) Log logged_def log_inv_def by simp
next
  case Cleanup
  with assms(2) obtain l ls where c: "w_cleanups w = l # ls" "r = Ok (logger_cleanup l (w\<lparr>w_cleanups := ls\<rparr>))"
    by (auto split: list.splits if_splits)
  with logger_cleanup_inv [OF assms(1) c(1)] Cleanup show ?thesis by (simp add: logged_def) (simp add: logger_cleanup_def)
qed (use assms in \<open>auto simp: logged_def log_inv_def split: if_splits\<close>)

lemma test_run_inv:
  assumes "log_inv w" and "test_run as w = Some r"
  shows "\<exists>w'. r = Ok w' \<and> log_inv w' \<and> length (w_log w') + length (w_stderr w') = length (w_log w) + length (w_stderr w) + logged as"
  using assms
proof (induction as arbitrary: w)
  case Nil
  then show ?case by (auto simp: logged_def)
next
  case (Cons a as)
  from Cons.prems(2) obtain r1 where r1: "test_do a w = Some r1" by (cases "test_do a w") simp_all
  from test_do_inv [OF Cons.prems(1) r1] obtain w1 where w1: "r1 = Ok w1" "log_inv w1"
    "length (w_log w1) + length (w_stderr w1) = length (w_log w) + length (w_stderr w) + logged [a]" by blast
  from Cons.prems(2) r1 w1(1) have "test_run as w1 = Some r" by simp
  moreover have "logged (a # as) = logged [a] + logged as" by (simp add: logged_def)
  ultimately show ?case using Cons.IH [OF w1(2)] w1(3) by (simp add: add.assoc)
qed

text \<open>
  C34: Logging through a test logger never panics, whenever a goroutine calls it, and loses nothing: every call of a
  logger has written exactly one line, to the test or to stderr. A call writes to the log of the test exactly while the
  cleanup of its logger is still to run, and otherwise to stderr, with the name of the test. Once the test has
  completed, no logger writes to its log any more.
\<close>

theorem test_logger_safe:
  assumes "test_run as (testStart name) = Some r"
  shows "\<exists>w. r = Ok w \<and> length (w_log w) + length (w_stderr w) = logged as \<and> (w_completed w \<longrightarrow> w_cleanups w = [])
    \<and> (\<forall>l < length (w_loggers w). \<forall>level template args. logf l level template args w =
        (if l \<in> set (w_cleanups w)
         then Ok (w\<lparr>w_log := w_log w @ [(''[%s] [%s] '' @ template, [FStr (tl_prefix (w_loggers w ! l)), FStr level] @ args)]\<rparr>)
         else Ok (w\<lparr>w_stderr := w_stderr w @ [(''[%s] [%s] (after %s) '' @ template,
           [FStr (tl_prefix (w_loggers w ! l)), FStr level, FStr (w_test w)] @ args)]\<rparr>)))"
proof -
  from test_run_inv [OF log_inv_start assms] obtain w where w: "r = Ok w" "log_inv w" "length (w_log w) + length (w_stderr w) = logged as"
    by (auto simp: testStart_def)
  from w show ?thesis by (intro exI [of _ w]) (simp add: log_invD(2) logf_inv)
qed

definition sample_test :: "test_action list" where
  "sample_test = [Create ''peer'', Log 0 ''INFO'' ''up'' [], Return, Cleanup, Complete, Log 0 ''WARN'' ''leak %d'' [FInt 1]]"

theorem test_logger_safe_witness:
  "\<exists>w. test_run sample_test (testStart ''T'') = Some (Ok w) \<and> w_completed w \<and> length (w_log w) + length (w_stderr w) = 2
     \<and> w_stderr w = [(''[%s] [%s] (after %s) leak %d'', [FStr ''peer'', FStr ''WARN'', FStr ''T'', FInt 1])]"
proof -
  have "case test_run sample_test (testStart ''T'') of Some (Ok w) \<Rightarrow> w_completed w \<and> logged sample_test = 2
     \<and> w_stderr w = [(''[%s] [%s] (after %s) leak %d'', [FStr ''peer'', FStr ''WARN'', FStr ''T'', FInt 1])] | _ \<Rightarrow> False"
    by code_simp
  then obtain w where w: "test_run sample_test (testStart ''T'') = Some (Ok w)" "w_completed w" "logged sample_test = 2"
    "w_stderr w = [(''[%s] [%s] (after %s) leak %d'', [FStr ''peer'', FStr ''WARN'', FStr ''T'', FInt 1])]"
    by (cases "test_run sample_test (testStart ''T'')") (auto split: result.splits)
  from test_logger_safe [OF w(1)] w show ?thesis by auto
qed

end
