(* ===== verification/Spec2Isabelle.thy ===== *)
theory Spec2Isabelle
  imports Commit_Flow Lifecycle Dial Finality_Stream Sqlite_Open Identity Logging
begin

text \<open>
  A verification of the Fabric-X SDK, a Go library for applications on Hyperledger Fabric and Fabric-X. Paths are
  relative to \<open>src/\<close>.

  \<^bold>\<open>The program.\<close> An endorser simulates a transaction on a snapshot of the world state (\<open>state/sim.go\<close>), which
  records the versions it read and the values it wrote, and signs the result (\<open>endorsement/\<close>). A client collects
  endorsements (\<open>network/fabric/peer.go\<close>), packages them in an envelope (\<open>network/fabricx/packager.go\<close>) and sends
  it to the orderers (\<open>network/submitter.go\<close>, \<open>network/orderer.go\<close>). Blocks come back through a peer
  (\<open>network/peer.go\<close>), are parsed (\<open>blocks/\<close>) and handed to a database (\<open>state/db.go\<close>) by a loop that follows the
  chain through failures (\<open>network/synchronizer.go\<close>). Instead of a database of its own, a client may read the
  committer's (\<open>state/queryservice/\<close>) and be told about transactions (\<open>notification/\<close>). For tests there is a
  network in one process (\<open>fabrictest/\<close>) and a submitter without a network (\<open>local/\<close>).

  \<^bold>\<open>How Go is modelled.\<close> Structs are records with the source's fields, \<open>uint64\<close> a 64-bit word that wraps, and
  \<open>int64\<close> an integer where the code only compares and converts. Strings and byte slices are lists of bytes. Errors
  are symbolic messages: the format string with its arguments. A call returns a sum or, where the code can panic, a
  \<open>result\<close> with the outcome \<open>Panic\<close>. Maps are HOL maps; a loop over a map takes the order of the iteration as an
  argument, and the theorems hold for every order. The clock, nonces and random numbers are arguments. What is not
  in the repository (protobuf codecs, protoutil, gRPC streams, the SQLite driver, X.509, the query service) is a
  field of a record that the definitions take, and what is assumed of it is a hypothesis of the theorem:
  \<open>codec_ok\<close> says that a codec decodes what it encoded, \<open>serves\<close> that a view of the query service does not change.
  Goroutines are inductive step relations whose steps are the critical sections, channel operations and calls of
  the code; theorems about them hold in every reachable state, for all interleavings.

  \<^bold>\<open>The theories.\<close>
  \<^item> Prelude: Go values, errors and containers; the collections \<open>go_simps\<close> and \<open>inv_intros\<close>.
  \<^item> Block\_Types, Status\_Codes (\<open>blocks/types.go\<close>, \<open>blocks/status.go\<close> and the two \<open>status.go\<close> of the formats): the
    parsed block and the mapping between ledger codes and statuses.
  \<^item> MVCC (\<open>blocks/mvcc.go\<close>): \<open>Validate\<close> against a declarative account of serial validation; its errors.
  \<^item> KVS (\<open>state/kvs.go\<close>): the locale \<open>kvs\<close>, the contract of a store that follows the chain.
  \<^item> Versioned\_DB (\<open>state/db.go\<close>): both tables, all statements. Commits refine appending to per-key histories,
    failures are exactly the conflicting rewrites, replays change nothing, snapshots do not move, histories are
    complete. It interprets \<open>kvs\<close>.
  \<^item> Sim\_Store (\<open>state/sim.go\<close>): simulation refines a store of values that sees its own writes; the locale
    \<open>simulated_kvs\<close> relates its read set to the snapshot it ran on.
  \<^item> Commit\_Flow and this theory: simulation, validation and commit together are optimistic concurrency control.
  \<^item> Proto, Sample\_Protos: messages, codecs, and concrete ones for witnesses.
  \<^item> Fabricx\_Codec, Block\_Parsers (\<open>endorsement/fabricx/builder.go\<close>, \<open>blocks/fabricx\<close>, \<open>blocks/fabric\<close>): encoding is
    deterministic and inverted by decoding; the parsers in closed form. The locale \<open>block_parser\<close> is
    interpreted on both parsers.
  \<^item> Endorsement, Packager, Identity (\<open>endorsement/\<close>, \<open>network/fabricx/packager.go\<close>, \<open>identity/msp.go\<close>): what is
    accepted as a proposal, and the round trip from an execution through endorsement and packaging to the parser.
  \<^item> Local\_Submit (\<open>local/submit.go\<close>): one call is exact, two overlapping calls are not.
  \<^item> Processor, Peer\_Client, Synchronizer (\<open>blocks/processor.go\<close>, \<open>network/peer.go\<close>, \<open>network/synchronizer.go\<close>): the
    locales \<open>replica\<close> and \<open>live_replica\<close> say what a store must do to be synchronized; they are interpreted on
    processors with the database, for both formats. The synchronizer replicates the chain, can catch up from every
    state, shuts down, and keeps its backoff in bounds.
  \<^item> Query\_Service (\<open>state/queryservice/\<close>): the calls of the client, the store and its snapshots under concurrent readers;
    the store also interprets \<open>live_replica\<close>.
  \<^item> Submission (\<open>network/orderer.go\<close>, \<open>network/submitter.go\<close>): exactly the acknowledged envelopes are written.
  \<^item> Finality, All\_Tx, Fabricx\_Peer (\<open>notification/\<close>, \<open>network/fabricx/peer.go\<close>): waiting for a transaction, the feed
    of all transactions, and the sidecar client that serves both.
  \<^item> Finality\_Stream: the finality listener on the sidecar client, with its callers, the sessions of its reconnect loop and
    their goroutines, which share one channel. A caller gets only statuses of its transaction that were reported, and a
    status that arrives. Every awaited transaction is subscribed on the current stream, provided that no loop of an
    earlier session takes from the channel, and without this proviso it may not be.
  \<^item> Test\_Network, Test\_Ledger, Test\_Replica (\<open>fabrictest/\<close>): the peer's streams agree with the clients that read
    them; the chain is linked; the orderer keeps its batching promises; replicas have the network's world state.
  \<^item> Network\_Client: a synchronizer on the test network's peer, through the subscriptions of the ledger and the wire. The
    locale \<open>growing_replica\<close> extends the contract of a synchronized store to a chain that grows; it is interpreted for
    both formats. A client that keeps up has the network's database, one that does not can lose a block.
  \<^item> Lifecycle: a transaction from simulation through endorsement, packaging, ordering and validation to the world state.
  \<^item> Fabric\_Peer (\<open>network/fabric/peer.go\<close>): proposals, the height query, and collecting endorsements.
  \<^item> Go\_Net, Dial (\<open>network/peer.go\<close>, \<open>network/orderer.go\<close> and the constructors of all clients): the functions of Go's \<open>net\<close>
    and \<open>strconv\<close> that read addresses; which connections are opened, how they are secured, and which are closed. The
    locale \<open>dialing\<close>, a loop that opens one connection per entry, is interpreted on peers and orderers.
  \<^item> Logging (\<open>logging.go\<close>): a test logger writes every line once, and never to a test that has completed.
  \<^item> Tls\_Config, Sqlite\_Open (\<open>network/tls.go\<close>, \<open>state/sqlite/sqlite.go\<close>): configurations load to what they say.

  \<^bold>\<open>Bounds.\<close> No definition has fuel: loops are structural recursions over the data they range over, and loops without
  an end are step relations or recursions over what a stream yields. Block numbers are below \<open>2^63\<close> where they
  are stored, since the SQLite driver refuses larger ones; histories are shorter than \<open>2^64\<close> where version counters
  are compared. The capacities are the code's: 10 blocks per subscription, 256 batches of subscriptions, one
  event per registration, any positive queue depth.

  \<^bold>\<open>What the code does not do.\<close> Some theorems state behaviour that the comments exclude or a caller would not expect:
  reading a deleted key is not protected by validation; overlapping local submissions may both commit although only
  one could after the other; a Fabric transaction without an action makes the parser panic; the monitor of a failed
  subscription can report readiness; a subscription for statuses outlives its stream; the send loop of a session that is
  over can swallow subscriptions of the next; a test network cannot have a fixed orderer port, and stopping it twice
  panics; a slow client of the test network loses blocks silently; connections stay open when a client with several
  of them cannot be built; two namespaces can share a pending key in the validator; the reconnect delay exceeds its cap.

  \<^bold>\<open>Not modelled.\<close> The log statements inside the components: nothing depends on them. What the libraries do below a call:
  gRPC, sockets, the storage itself, the contents of certificates and signatures; their results are arguments where
  the code branches on them. \<open>api/metadatapb\<close> is generated; its codec is a field of \<open>protos\<close>. Delays, except for the
  two backoffs: timers fire at any time. The sample chaincode under \<open>testdata/\<close>, which is not part of the
  library. Constructors that only pass their arguments on.
\<close>

section \<open>Properties that span components\<close>


text \<open>
  C3: Blocks are serializable. When a block is validated against the database and then committed to
  it, the commit succeeds, the new history is the one of running the accepted transactions in block
  order, and each accepted transaction read exactly the versions it would find if the accepted
  transactions before it had been committed first.
\<close>

theorem validate_commit_serializable:
  assumes "db_inv db" and "codes_fit l" and "Validate l (db_Get db) b = (b', filt, e, l')"
    and "numbers_ok b'" and "next_block db b'" and "single_writes b'"
  shows "\<exists>db'. db_Handle db b' = (db', None) \<and> history db' = commit_block b' (history db)
    \<and> (\<forall>i < length (b_Transactions b'). tx_Valid (b_Transactions b' ! i) \<longrightarrow>
        (\<forall>(ns, r) \<in> set (reads_of (b_Transactions b' ! i)).
           read_valid (monotonicVersions l)
             (head_record (commit_block (prefix_block i b') (history db) (ns, r_Key r))) (r_Version r)))"
  using UpdateWorldState_commits [OF assms(1,4-6)] accepted_reads_serial [OF assms(1-3)]
  by (auto simp: db_Handle_def)

text \<open>
  C11: No chain can break the store. Hand any blocks that the Fabric or the Fabric-X parser returned to an empty
  database, in any order, with repetitions and gaps, whether or not each one is accepted: the tables stay well
  formed. The primary keys are distinct, the versions of each key count its rows from zero, every stored number
  is one that Go reads back as \<open>uint64\<close>, and no row is above the channel's height. Hence reads never
  fail: the latest record, the record at any height, the height itself and a snapshot are all served, and no
  record is newer than the height.
\<close>

theorem store_well_formed:
  assumes "\<forall>b \<in> set bs. \<exists>raw now. length (raw_data raw) \<le> 2 ^ 63
      \<and> (fabric_Parse pb vc now raw = Ok b \<or> fabricx_Parse pb cc now raw = Ok b)"
    and "db = HandleAll (NewWriteDB ch) bs"
  shows "db_inv db \<and> (\<exists>n. BlockNumber db = Inr n \<and> Snapshot db = Inr n
      \<and> (\<forall>ns k. \<exists>r. db_Get db ns k = Inr r \<and> (\<forall>w. r = Some w \<longrightarrow> wr_Namespace w = ns \<and> wr_Key w = k \<and> wr_BlockNum w \<le> n))
      \<and> (\<forall>ns k h. uint h < 2 ^ 63 \<longrightarrow> (\<exists>r. GetAt db ns k h = Inr r)))"
proof
  have "\<forall>b \<in> set bs. numbers_ok b"
    using assms(1) parseBlock_numbers_ok unfolding fabric_Parse_def fabricx_Parse_def by blast
  then show db: "db_inv db"
    unfolding assms(2) HandleAll_vdb by (rule vdb.handle_all_inv [OF db_inv_NewWriteDB])
  obtain n where n: "BlockNumber db = Inr n" "uint n < 2 ^ 63"
    "\<forall>r \<in> set (worldstate db). row_channel r = db_channel db \<longrightarrow> row_version_block r \<le> uint n"
    using BlockNumber_inv [OF db] by auto
  have read: "wr_Namespace (record_of r) = ns \<and> wr_Key (record_of r) = k \<and> wr_BlockNum (record_of r) \<le> n"
    if "r \<in> set (key_rows db ns k)" for r ns k
  proof -
    have "row_fits r" using that rows_inv_key(2) db unfolding db_inv_def by blast
    then have "uint (word_of_int (row_version_block r) :: u64) = row_version_block r"
      by (simp add: row_fits_def uint_word_of_int)
    with that n(3) show ?thesis by (auto simp: record_of_def same_key_def word_le_def)
  qed
  have "wr_Namespace w = ns \<and> wr_Key w = k \<and> wr_BlockNum w \<le> n" if "last_record (key_rows db ns k) = Some w" for ns k w
  proof -
    from that have w: "key_rows db ns k \<noteq> []" "record_of (last (key_rows db ns k)) = w"
      by (simp_all add: last_record_def split: if_splits)
    from read [OF last_in_set [OF w(1)]] show ?thesis unfolding w(2) .
  qed
  then have "\<exists>r. db_Get db ns k = Inr r \<and> (\<forall>w. r = Some w \<longrightarrow> wr_Namespace w = ns \<and> wr_Key w = k \<and> wr_BlockNum w \<le> n)" for ns k
    unfolding db_Get_inv [OF db] by simp
  with n(1) GetAt_inv [OF db] show "\<exists>n. BlockNumber db = Inr n \<and> Snapshot db = Inr n
      \<and> (\<forall>ns k. \<exists>r. db_Get db ns k = Inr r \<and> (\<forall>w. r = Some w \<longrightarrow> wr_Namespace w = ns \<and> wr_Key w = k \<and> wr_BlockNum w \<le> n))
      \<and> (\<forall>ns k h. uint h < 2 ^ 63 \<longrightarrow> (\<exists>r. GetAt db ns k h = Inr r))"
    by (intro exI [of _ n]) (simp add: Snapshot_def)
qed

text \<open>
  C40: The read of a deleted key is not protected. A transaction that reads a key whose latest record
  is a tombstone records no read of it, so it is accepted against every later state, also one in
  which the key has been written again.
\<close>

theorem deleted_read_unprotected:
  assumes "get_total get" and "tombstone (state_of get ns k)"
    and "sim_run [(get, OpGet k)] (NewSimulationStore ns n mv) = (rs, st)"
    and "b_Transactions b = [t]" and "tx_NsRWS t = [\<lparr>ns_Namespace = ns, ns_RWS = sim_Result [] [] st\<rparr>]"
    and "get_total later" and "codes_fit l" and "Validate l later b = (b', filt, e, l')"
  shows "rs = [RespVal (Inr [])] \<and> enumerates [] (s_reads st) \<and> (\<exists>t'. b_Transactions b' = [t'] \<and> tx_Valid t')"
proof -
  have g: "\<forall>(g, x) \<in> set [(get, OpGet k)]. g = get" by simp
  have "view_run [OpGet k] (sim_view get (NewSimulationStore ns n mv)) = (rs, sim_view get st)"
    using sim_run_view [OF assms(1) g assms(3)] by (simp only: list.map snd_conv)
  moreover have "sim_view get (NewSimulationStore ns n mv) k = []"
    using assms(2) by (auto simp: sim_view_def value_of_def live_def tombstone_def)
  ultimately have rs: "rs = [RespVal (Inr [])]" by simp
  have "s_reads st = Map.empty"
    using sim_run_reads [OF assms(1) _ assms(3)] assms(2) by (auto simp: reads_from_def fun_eq_iff)
  then have "enumerates [] (s_reads st)" by simp
  moreover have "reads_of t = []" by (simp add: reads_of_def assms(5) sim_Result_def)
  ultimately show ?thesis using rs Validate_single [OF assms(6-8,4)] by (auto simp: tx_Valid_iff)
qed

subsection \<open>Witnesses\<close>

definition sample_sim :: "sim_resp list \<times> SimulationStore" where
  "sample_sim = sim_run (sim_calls db_Handle snapshot_Get sample_db 1 [([sample_commit 2], OpGet ''k'')])
     (NewSimulationStore ''ns'' 1 True)"

definition sample_reader_block :: Block where
  "sample_reader_block = sample_block [zero_Transaction\<lparr>tx_NsRWS := [\<lparr>ns_Namespace = ''ns'',
     ns_RWS = sim_Result [''k''] [] (snd sample_sim)\<rparr>]\<rparr>]"

lemma HandleAll_sample:
  "HandleAll sample_db [sample_commit 2] = \<lparr>db_channel = ''ch'', worldstate = worldstate sample_db @
     [\<lparr>row_channel = ''ch'', row_namespace = ''ns'', row_key = ''k'', row_version_block = 2,
       row_version_tx = 0, row_version = 1, row_value = ''v'', row_is_delete = False, row_tx_id = ''''\<rparr>],
     channel_progress = [''ch'' \<mapsto> 2]\<rparr>"
  by (simp add: db_Handle_def UpdateWorldState_def insertBlock_flat insert1_def insertWrite_def
      bind_u64_def sample_db_eq(2) next_version_def same_key_def upsertProgress_def
      sample_writer_def zero_Transaction_def)

lemma sample_gets:
  "state_of (db_Get sample_db) ''ns'' ''k'' = Some \<lparr>wr_Namespace = ''ns'', wr_Key = ''k'', wr_BlockNum = 1,
     wr_TxNum = 0, wr_Version = 0, wr_Value = ''v'', wr_IsDelete = False, wr_TxID = ''''\<rparr>"
  "state_of (db_Get (HandleAll sample_db [sample_commit 2])) ''ns'' ''k'' = Some \<lparr>wr_Namespace = ''ns'',
     wr_Key = ''k'', wr_BlockNum = 2, wr_TxNum = 0, wr_Version = 1, wr_Value = ''v'', wr_IsDelete = False,
     wr_TxID = ''''\<rparr>"
  unfolding HandleAll_sample
  by (simp_all add: sample_db_eq(2) same_key_def db_Get_def queryLatest_def scanRow_def scan_u64_def state_of_def)

lemma sample_sim_reads:
  "s_reads (snd sample_sim) = [''k'' \<mapsto> \<lparr>r_Key = ''k'', r_Version = Some \<lparr>v_BlockNum = 0, v_TxNum = 0\<rparr>\<rparr>]"
proof -
  have "snapshot_Get (HandleAll sample_db [sample_commit 2]) 1 ''ns'' ''k'' =
      Inr (Some \<lparr>wr_Namespace = ''ns'', wr_Key = ''k'', wr_BlockNum = 1,
     wr_TxNum = 0, wr_Version = 0, wr_Value = ''v'', wr_IsDelete = False, wr_TxID = ''''\<rparr>)"
    unfolding HandleAll_sample
    by (simp add: sample_db_eq(2) same_key_def snapshot_Get_def GetAt_def bind_u64_def queryLatest_def
        scanRow_def scan_u64_def)
  then show ?thesis
    unfolding HandleAll_vdb by (simp add: sample_sim_def GetState_def NewSimulationStore_def del: handle_all_simps)
qed


theorem validate_commit_serializable_witness:
  "\<exists>db'. db_Handle sample_db (fst (Validate (NewMVCCValidator True) (db_Get sample_db) (sample_commit 2))) = (db', None)
     \<and> BlockNumber db' = Inr 2"
proof -
  let ?b' = "fst (Validate (NewMVCCValidator True) (db_Get sample_db) (sample_commit 2))"
  obtain filt e l' where v: "Validate (NewMVCCValidator True) (db_Get sample_db) (sample_commit 2) = (?b', filt, e, l')"
    by (metis prod.collapse)
  have b': "?b' = (sample_block [SetStatus StatusCommitted 99 emptyMsg (sample_writer ''ns'' ''k'')])\<lparr>b_Number := 2\<rparr>"
    by (simp add: Validate_def sample_commit_def sample_block_def zero_Block_def NewMVCCValidator_def
        checkNs_def codeFor_def UncustomizedCode_def SetStatus_def Let_def)
  have "numbers_ok ?b'" "next_block sample_db ?b'" "single_writes ?b'"
    unfolding b' by (simp_all add: numbers_ok_def next_block_def single_writes_def block_writes_def
        sample_block_def zero_Block_def sample_writer_def zero_Transaction_def sample_db_eq(2) writes_of_def)
  from validate_commit_serializable [OF sample_db_inv codes_fit_default v this]
  obtain db' where "db_Handle sample_db ?b' = (db', None)" by blast
  moreover from this have "channel_progress db' ''ch'' = Some 2" "db_channel db' = ''ch''"
    unfolding b' by (auto simp: db_Handle_def UpdateWorldState_def sample_db_eq(2) upsertProgress_def
        bind_u64_def sample_block_def split: sum.splits)
  ultimately show ?thesis by (auto simp: BlockNumber_def)
qed

definition sample_tombstone :: record_getter where
  "sample_tombstone = (\<lambda>ns k. Inr (Some \<lparr>wr_Namespace = ns, wr_Key = k, wr_BlockNum = 1, wr_TxNum = 0,
     wr_Version = 0, wr_Value = '''', wr_IsDelete = True, wr_TxID = ''''\<rparr>))"

theorem deleted_read_unprotected_witness:
  "\<exists>rs st t'. sim_run [(sample_tombstone, OpGet ''k'')] (NewSimulationStore ''ns'' 1 True) = (rs, st)
     \<and> b_Transactions (fst (Validate (NewMVCCValidator True) (db_Get sample_db)
          (sample_block [zero_Transaction\<lparr>tx_NsRWS := [\<lparr>ns_Namespace = ''ns'', ns_RWS = sim_Result [] [] st\<rparr>]\<rparr>]))) = [t']
     \<and> tx_Valid t' \<and> live (state_of (db_Get sample_db) ''ns'' ''k'') \<noteq> live (state_of sample_tombstone ''ns'' ''k'')"
proof -
  obtain rs st where r: "sim_run [(sample_tombstone, OpGet ''k'')] (NewSimulationStore ''ns'' 1 True) = (rs, st)"
    by fastforce
  let ?b = "sample_block [zero_Transaction\<lparr>tx_NsRWS := [\<lparr>ns_Namespace = ''ns'', ns_RWS = sim_Result [] [] st\<rparr>]\<rparr>]"
  obtain b' filt e l' where v: "Validate (NewMVCCValidator True) (db_Get sample_db) ?b = (b', filt, e, l')"
    by (metis prod_cases4)
  have g: "get_total sample_tombstone" "tombstone (state_of sample_tombstone ''ns'' ''k'')"
    by (simp_all add: get_total_def sample_tombstone_def tombstone_def state_of_def)
  from deleted_read_unprotected [OF g r _ _ db_Get_total [OF sample_db_inv] codes_fit_default v]
  obtain t' where "b_Transactions b' = [t']" "tx_Valid t'" by auto
  moreover have "live (state_of (db_Get sample_db) ''ns'' ''k'') \<noteq> live (state_of sample_tombstone ''ns'' ''k'')"
    by (simp add: sample_gets(1)) (simp add: sample_tombstone_def state_of_def live_def)
  ultimately show ?thesis using r v by auto
qed

theorem store_well_formed_witness:
  "\<exists>b n. fabricx_Parse sample_pb sample_feed_codes 0 (sample_raw [''junk'', ''env'']) = Ok b \<and> length (b_Transactions b) = 1
     \<and> BlockNumber (HandleAll (NewWriteDB ''ch'') [b, b]) = Inr n \<and> (\<exists>r. db_Get (HandleAll (NewWriteDB ''ch'') [b, b]) ''ns'' ''k'' = Inr r)"
proof -
  obtain b where b: "fabricx_Parse sample_pb sample_feed_codes 0 (sample_raw [''junk'', ''env'']) = Ok b"
    using sample_fabricx_parse by blast
  have "length (raw_data (sample_raw [''junk'', ''env''])) \<le> 2 ^ 63" by simp
  with b have "\<exists>raw now. length (raw_data raw) \<le> 2 ^ 63
      \<and> (fabric_Parse sample_pb vc now raw = Ok b \<or> fabricx_Parse sample_pb sample_feed_codes now raw = Ok b)" for vc
    by (intro exI conjI disjI2)
  then have "\<forall>c \<in> set [b, b]. \<exists>raw now. length (raw_data raw) \<le> 2 ^ 63
      \<and> (fabric_Parse sample_pb vc now raw = Ok c \<or> fabricx_Parse sample_pb sample_feed_codes now raw = Ok c)" for vc
    by simp
  from store_well_formed [OF this refl, of "''ch''"] obtain n where
    "BlockNumber (HandleAll (NewWriteDB ''ch'') [b, b]) = Inr n" "\<exists>r. db_Get (HandleAll (NewWriteDB ''ch'') [b, b]) ''ns'' ''k'' = Inr r"
    by blast
  moreover have "length (b_Transactions b) = 1" by (simp add: sample_feed_block [OF b])
  ultimately show ?thesis using b by blast
qed

end
